(* ===== verification/Mio_Prelude.thy ===== *)
theory Mio_Prelude
  imports Main "HOL-Library.Word" "HOL-Library.Monad_Syntax"
begin

unbundle bit_operations_syntax

text \<open>
  Generic material shared by the component theories: the machine integers of the
  64-bit target, the error values of \<^verbatim>\<open>std::io\<close>, checked and saturating
  arithmetic of the Rust standard library, the compare-and-swap retry loop, and the
  facts on words and lists that several components use.

  Conventions of the whole development.
  \<^item> A value of type \<open>'a option\<close> returned by an operation is \<open>None\<close> when the code
    panics (a failed \<^verbatim>\<open>debug_assert!\<close>, \<^verbatim>\<open>unreachable!\<close>, \<^verbatim>\<open>unwrap\<close> or
    index), touches freed memory, or does not return; the option monad then stops, as
    the unwinding thread does.
  \<^item> \<open>'a io_result\<close> is \<^verbatim>\<open>std::io::Result\<close>: \<open>Inl\<close> is \<^verbatim>\<open>Err\<close>, \<open>Inr\<close> is \<^verbatim>\<open>Ok\<close>.
  \<^item> Pointers are natural numbers; a nullable pointer is an \<open>option\<close>.
\<close>

named_theorems mio_defs "definitions of small accessors, unfolded by the simplifier on request"
named_theorems bit_rules "bitwise descriptions of word operations"

section \<open>Machine integers\<close>

type_synonym usize = "64 word"
type_synonym u64 = "64 word"
type_synonym u32 = "32 word"
type_synonym i32 = "32 word"

text \<open>\<^verbatim>\<open>u64::MAX\<close> and \<^verbatim>\<open>usize::MAX\<close>.\<close>

definition u64_max :: u64 where
  "u64_max = - 1"

abbreviation usize_max :: usize where
  "usize_max \<equiv> u64_max"

lemma unat_u64_max: "unat u64_max = 2 ^ 64 - 1"
  by (simp add: u64_max_def unsigned_minus_1_eq_mask mask_eq_exp_minus_1)

lemma le_u64_max [simp]: "x \<le> u64_max"
  by (simp add: u64_max_def)

text \<open>\<^verbatim>\<open>saturating_add\<close>, \<^verbatim>\<open>saturating_mul\<close> and \<^verbatim>\<open>checked_mul\<close> of \<^verbatim>\<open>u64\<close>.\<close>

definition saturating_add :: "u64 \<Rightarrow> u64 \<Rightarrow> u64" where
  "saturating_add a b = (if unat a + unat b < 2 ^ 64 then a + b else u64_max)"

definition saturating_mul :: "u64 \<Rightarrow> u64 \<Rightarrow> u64" where
  "saturating_mul a b = (if unat a * unat b < 2 ^ 64 then a * b else u64_max)"

definition checked_mul :: "u64 \<Rightarrow> u64 \<Rightarrow> u64 option" where
  "checked_mul a b = (if unat a * unat b < 2 ^ 64 then Some (a * b) else None)"

definition checked_add :: "u64 \<Rightarrow> u64 \<Rightarrow> u64 option" where
  "checked_add a b = (if unat a + unat b < 2 ^ 64 then Some (a + b) else None)"

text \<open>Evaluation compares integers, whose numerals are binary.\<close>

lemma arith_code [code]:
  "saturating_add a b = (if uint a + uint b < 18446744073709551616 then a + b else u64_max)"
  "saturating_mul a b = (if uint a * uint b < 18446744073709551616 then a * b else u64_max)"
  "checked_mul a b = (if uint a * uint b < 18446744073709551616 then Some (a * b) else None)"
  "checked_add a b = (if uint a + uint b < 18446744073709551616 then Some (a + b) else None)"
proof -
  have add: "unat a + unat b < 2 ^ 64 \<longleftrightarrow> uint a + uint b < 18446744073709551616"
    using of_nat_less_iff [of "unat a + unat b" "2 ^ 64", where 'a = int] by simp
  have mul: "unat a * unat b < 2 ^ 64 \<longleftrightarrow> uint a * uint b < 18446744073709551616"
    using of_nat_less_iff [of "unat a * unat b" "2 ^ 64", where 'a = int] by simp
  show "saturating_add a b = (if uint a + uint b < 18446744073709551616 then a + b else u64_max)"
    "saturating_mul a b = (if uint a * uint b < 18446744073709551616 then a * b else u64_max)"
    "checked_mul a b = (if uint a * uint b < 18446744073709551616 then Some (a * b) else None)"
    "checked_add a b = (if uint a + uint b < 18446744073709551616 then Some (a + b) else None)"
    by (simp_all only: saturating_add_def saturating_mul_def checked_mul_def checked_add_def add mul)
qed

lemma unat_saturating_add:
  "unat (saturating_add a b) = min (2 ^ 64 - 1) (unat a + unat b)"
  by (simp add: saturating_add_def unat_word_ariths unat_u64_max min_def)

lemma unat_saturating_mul:
  "unat (saturating_mul a b) = min (2 ^ 64 - 1) (unat a * unat b)"
  by (simp add: saturating_mul_def unat_word_ariths unat_u64_max min_def)

lemma checked_mul_Some:
  "checked_mul a b = Some c \<longleftrightarrow> c = a * b \<and> unat a * unat b < 2 ^ 64"
  by (auto simp: checked_mul_def)

section \<open>Errors\<close>

datatype error_kind = Interrupted | WouldBlock | OtherKind | OsKind nat

datatype io_error = Io_error (err_kind: error_kind) (err_msg: string)

type_synonym 'a io_result = "io_error + 'a"

section \<open>Bits of masked words\<close>

text \<open>
  The code writes its masks as numerals; the bit lemmas speak of \<open>mask\<close>. A value that
  fits a field of \<open>w\<close> bits is one below \<open>2 ^ w\<close>.
\<close>

lemma numeral_mask [bit_rules]:
  "(1 :: 64 word) = mask 1" "(3 :: 64 word) = mask 2" "(15 :: 64 word) = mask 4"
  by (simp_all add: mask_eq_exp_minus_1)

lemma bit_small_word:
  fixes v :: "64 word"
  assumes "v < 2 ^ w" "bit v n"
  shows "n < w"
  using assms(2) less_mask_eq [OF assms(1)] by (metis bit_and_iff bit_mask_iff)

lemma word_le_3: "v \<le> 3 \<longleftrightarrow> v < (2 ^ 2 :: 64 word)"
  and word_le_15: "v \<le> 15 \<longleftrightarrow> v < (2 ^ 4 :: 64 word)"
  by (simp add: word_le_nat_alt word_less_nat_alt, arith)+

lemma word_64_eqI:
  fixes v w :: "64 word"
  assumes "\<And>n. n < 64 \<Longrightarrow> bit v n \<longleftrightarrow> bit w n"
  shows "v = w"
  using assms by (auto intro: bit_word_eqI)

section \<open>The compare-and-swap retry loop\<close>

text \<open>
  The lock-free updates of the code all have the same shape: load the word, compute
  the wanted word from it (or leave the function early), try to swap it in, and start
  again from the word another thread has put there. The other threads appear as the
  list of words that the successive \<^verbatim>\<open>compare_exchange\<close> calls find; once the list is
  used up nobody interferes any more and the swap succeeds. \<open>Inl r\<close> of the body is an
  early return with \<open>r\<close>, \<open>Inr next\<close> the wanted word; the result gives the word that
  was replaced and the one that replaced it.
\<close>

fun cas_loop :: "('s \<Rightarrow> ('r + 's) option) \<Rightarrow> 's \<Rightarrow> 's list \<Rightarrow> ('r + 's \<times> 's) option" where
  "cas_loop body cur env =
     (case body cur of
        None \<Rightarrow> None
      | Some (Inl r) \<Rightarrow> Some (Inl r)
      | Some (Inr next) \<Rightarrow>
          (case env of
             [] \<Rightarrow> Some (Inr (cur, next))
           | actual # env' \<Rightarrow>
               if actual = cur then Some (Inr (cur, next)) else cas_loop body actual env'))"

declare cas_loop.simps [simp del]

lemma cas_loop_swapped:
  "cas_loop body cur env = Some (Inr (old, next)) \<Longrightarrow>
     body old = Some (Inr next) \<and> old \<in> insert cur (set env)"
  by (induction body cur env rule: cas_loop.induct)
    (subst (asm) (2) cas_loop.simps,
      force split: option.splits sum.splits list.splits if_splits)

lemma cas_loop_returned:
  "cas_loop body cur env = Some (Inl r) \<Longrightarrow>
     \<exists>old \<in> insert cur (set env). body old = Some (Inl r)"
  by (induction body cur env rule: cas_loop.induct)
    (subst (asm) (2) cas_loop.simps,
      force split: option.splits sum.splits list.splits if_splits)

lemma cas_loop_total:
  "(\<And>s. s \<in> insert cur (set env) \<Longrightarrow> body s \<noteq> None) \<Longrightarrow> cas_loop body cur env \<noteq> None"
  by (induction body cur env rule: cas_loop.induct)
    (subst cas_loop.simps, force split: option.splits sum.splits list.splits if_splits)

lemma cas_loop_alone:
  "cas_loop body cur [] =
     (case body cur of
        None \<Rightarrow> None
      | Some (Inl r) \<Rightarrow> Some (Inl r)
      | Some (Inr next) \<Rightarrow> Some (Inr (cur, next)))"
  by (subst cas_loop.simps) (simp split: option.splits sum.splits)

section \<open>Lists\<close>

lemma bex_map:
  "set ys = set (map f xs) \<Longrightarrow> (\<exists>x \<in> set xs. P (f x)) \<longleftrightarrow> (\<exists>y \<in> set ys. P y)"
  by auto

lemma map_filter_cong:
  "(\<And>x. x \<in> set xs \<Longrightarrow> f x = g x) \<Longrightarrow> List.map_filter f xs = List.map_filter g xs"
  by (induction xs) (auto simp: List.map_filter_simps split: option.splits)

end
