(* ===== verification/Lazy_Cell.thy ===== *)
theory Lazy_Cell
  imports Mio_Prelude
begin

text \<open>
  \<^verbatim>\<open>src/lazycell.rs\<close>: a cell that is filled at most once through a shared reference.
  A reference to the content is modelled by the content. The closure of a method on
  \<^verbatim>\<open>&self\<close> may reach the cell again, so it is a function of the cell; one given to a
  method on \<^verbatim>\<open>&mut self\<close> cannot, and is its outcome. A closure that panics is \<open>None\<close>.
\<close>

section \<open>The cell\<close>

record 'a lazycell =
  lc_inner :: "'a option"

definition lc_new :: "'a lazycell" where
  "lc_new = \<lparr>lc_inner = None\<rparr>"

definition lc_fill :: "'a \<Rightarrow> 'a lazycell \<Rightarrow> ('a + unit) \<times> 'a lazycell" where
  "lc_fill value c =
     (if lc_inner c \<noteq> None then (Inl value, c) else (Inr (), c\<lparr>lc_inner := Some value\<rparr>))"

definition lc_replace :: "'a \<Rightarrow> 'a lazycell \<Rightarrow> 'a option \<times> 'a lazycell" where
  "lc_replace value c = (lc_inner c, c\<lparr>lc_inner := Some value\<rparr>)"

definition lc_borrow :: "'a lazycell \<Rightarrow> 'a option" where
  "lc_borrow c = lc_inner c"

definition lc_filled :: "'a lazycell \<Rightarrow> bool" where
  "lc_filled c \<longleftrightarrow> lc_borrow c \<noteq> None"

definition lc_borrow_mut :: "'a lazycell \<Rightarrow> 'a option" where
  "lc_borrow_mut c = lc_inner c"

definition lc_borrow_with ::
  "('a lazycell \<Rightarrow> ('a \<times> 'a lazycell) option) \<Rightarrow> 'a lazycell \<Rightarrow> ('a \<times> 'a lazycell) option" where
  "lc_borrow_with f c =
     (case lc_borrow c of
        Some value \<Rightarrow> Some (value, c)
      | None \<Rightarrow> do {
          (value, c) \<leftarrow> f c;
          (case lc_fill value c of
             (Inl _, _) \<Rightarrow> None
           | (Inr _, c) \<Rightarrow> do { v \<leftarrow> lc_borrow c; Some (v, c) })
        })"

definition lc_borrow_mut_with :: "'a option \<Rightarrow> 'a lazycell \<Rightarrow> ('a \<times> 'a lazycell) option" where
  "lc_borrow_mut_with f c = do {
     c \<leftarrow> (if \<not> lc_filled c then do {
              value \<leftarrow> f;
              (case lc_fill value c of (Inl _, _) \<Rightarrow> None | (Inr _, c) \<Rightarrow> Some c)
            }
            else Some c);
     v \<leftarrow> lc_borrow_mut c;
     Some (v, c)
   }"

definition lc_try_borrow_with ::
  "('a lazycell \<Rightarrow> (('e + 'a) \<times> 'a lazycell) option) \<Rightarrow> 'a lazycell \<Rightarrow>
   (('e + 'a) \<times> 'a lazycell) option" where
  "lc_try_borrow_with f c =
     (case lc_borrow c of
        Some value \<Rightarrow> Some (Inr value, c)
      | None \<Rightarrow> do {
          (res, c) \<leftarrow> f c;
          (case res of
             Inl e \<Rightarrow> Some (Inl e, c)
           | Inr value \<Rightarrow>
               (case lc_fill value c of
                  (Inl _, _) \<Rightarrow> None
                | (Inr _, c) \<Rightarrow> do { v \<leftarrow> lc_borrow c; Some (Inr v, c) }))
        })"

definition lc_try_borrow_mut_with ::
  "('e + 'a) option \<Rightarrow> 'a lazycell \<Rightarrow> (('e + 'a) \<times> 'a lazycell) option" where
  "lc_try_borrow_mut_with f c =
     (if lc_filled c then do { v \<leftarrow> lc_borrow_mut c; Some (Inr v, c) }
      else do {
        res \<leftarrow> f;
        (case res of
           Inl e \<Rightarrow> Some (Inl e, c)
         | Inr value \<Rightarrow>
             (case lc_fill value c of
                (Inl _, _) \<Rightarrow> None
              | (Inr _, c) \<Rightarrow> do { v \<leftarrow> lc_borrow_mut c; Some (Inr v, c) }))
      })"

definition lc_into_inner :: "'a lazycell \<Rightarrow> 'a option" where
  "lc_into_inner c = lc_inner c"

definition lc_get :: "'a lazycell \<Rightarrow> 'a option" where
  "lc_get c = lc_inner c"

section \<open>Written once\<close>

text \<open>What can happen to a cell that is only shared.\<close>

datatype 'a shared_op =
    Fill 'a
  | Borrow
  | BorrowWith "'a lazycell \<Rightarrow> ('a \<times> 'a lazycell) option"
  | TryBorrowWith "'a lazycell \<Rightarrow> ((unit + 'a) \<times> 'a lazycell) option"

fun shared_run :: "'a shared_op \<Rightarrow> 'a lazycell \<Rightarrow> 'a lazycell option" where
  "shared_run (Fill v) c = Some (snd (lc_fill v c))"
| "shared_run Borrow c = Some c"
| "shared_run (BorrowWith f) c = map_option snd (lc_borrow_with f c)"
| "shared_run (TryBorrowWith f) c = map_option snd (lc_try_borrow_with f c)"

fun shared_runs :: "'a shared_op list \<Rightarrow> 'a lazycell \<Rightarrow> 'a lazycell option" where
  "shared_runs [] c = Some c"
| "shared_runs (f # fs) c = do { c \<leftarrow> shared_run f c; shared_runs fs c }"

lemma shared_run_filled:
  "lc_inner c = Some v \<Longrightarrow> shared_run f c = Some c"
  by (cases f) (simp_all add: lc_fill_def lc_borrow_with_def lc_try_borrow_with_def lc_borrow_def)

lemma shared_runs_filled:
  "lc_inner c = Some v \<Longrightarrow> shared_runs fs c = Some c"
  by (induction fs) (simp_all add: shared_run_filled)

section \<open>Properties\<close>

text \<open>
  The content of a cell is final: once it is filled, every sequence of operations on
  the shared cell returns, a later fill hands its value back, and every borrow sees the
  first content, also the lazy ones, which do not run their closure.
\<close>

lemma lazycell_write_once:
  assumes "lc_fill v c = (Inr (), c')" "shared_runs fs c' = Some c''"
  shows "lc_borrow c'' = Some v \<and> lc_fill w c'' = (Inl w, c'') \<and>
    lc_borrow_with f c'' = Some (v, c'') \<and> lc_try_borrow_with g c'' = Some (Inr v, c'') \<and>
    lc_borrow_mut_with None c'' = Some (v, c'')"
proof -
  have "lc_inner c' = Some v" using assms(1) by (auto simp: lc_fill_def split: if_splits)
  then have "c'' = c'" "lc_inner c'' = Some v" using shared_runs_filled [of c' v fs] assms(2) by auto
  then show ?thesis
    by (simp add: lc_borrow_def lc_fill_def lc_borrow_with_def lc_try_borrow_with_def
        lc_borrow_mut_with_def lc_filled_def lc_borrow_mut_def)
qed

lemma lazycell_write_once_example:
  "lc_borrow \<lparr>lc_inner = Some (3 :: nat)\<rparr> = Some 3 \<and>
    lc_fill 5 \<lparr>lc_inner = Some (3 :: nat)\<rparr> = (Inl 5, \<lparr>lc_inner = Some 3\<rparr>)"
proof -
  have f: "lc_fill (3 :: nat) lc_new = (Inr (), \<lparr>lc_inner = Some 3\<rparr>)"
    "shared_runs [Fill 4, BorrowWith (\<lambda>_. None)] \<lparr>lc_inner = Some (3 :: nat)\<rparr> =
      Some \<lparr>lc_inner = Some 3\<rparr>"
    by (simp_all add: lc_fill_def lc_new_def lc_borrow_with_def lc_borrow_def)
  show ?thesis
    using lazycell_write_once [OF f, of 5 "\<lambda>_. None" "\<lambda>_. None"] by blast
qed

text \<open>
  A lazy borrow of an empty cell runs its closure exactly when it must: a closure
  that leaves the cell alone decides the content, one that fails leaves the cell empty,
  and one that fills the cell behind its back makes the borrow panic.
\<close>

lemma lazycell_borrow_with_empty:
  assumes "lc_inner c = None"
  shows "lc_borrow_with (\<lambda>c. Some (v, c)) c = Some (v, c\<lparr>lc_inner := Some v\<rparr>) \<and>
    lc_try_borrow_with (\<lambda>c. Some (Inl e, c)) c = Some (Inl e, c) \<and>
    lc_borrow_with (\<lambda>c. Some (v, snd (lc_fill w c))) c = None \<and>
    lc_try_borrow_with (\<lambda>c. Some (Inr v, snd (lc_fill w c))) c =
      (None :: (('e + 'a) \<times> 'a lazycell) option)"
  using assms
  by (simp add: lc_borrow_with_def lc_try_borrow_with_def lc_borrow_def lc_fill_def)

lemma lazycell_borrow_with_empty_example:
  "lc_borrow_with (\<lambda>c. Some (7, c)) lc_new = Some (7 :: nat, \<lparr>lc_inner = Some 7\<rparr>)"
proof -
  have "lc_inner (lc_new :: nat lazycell) = None" by (simp add: lc_new_def)
  from lazycell_borrow_with_empty [OF this, of 7 "()" 8]
  have "lc_borrow_with (\<lambda>c. Some (7, c)) (lc_new :: nat lazycell) =
      Some (7, lc_new\<lparr>lc_inner := Some 7\<rparr>)" by (rule conjunct1)
  then show ?thesis by (simp only: lc_new_def lazycell.simps)
qed

end
