(* ===== verification/Event_Imp.thy ===== *)
theory Event_Imp
  imports Mio_Prelude
begin

text \<open>
  The vocabulary of the library: \<^verbatim>\<open>src/event_imp.rs\<close> (\<^verbatim>\<open>Ready\<close>, \<^verbatim>\<open>PollOpt\<close>,
  \<^verbatim>\<open>TokenType\<close>, \<^verbatim>\<open>TokenEntry\<close>, \<^verbatim>\<open>Event\<close>, \<^verbatim>\<open>JobEntry\<close>), \<^verbatim>\<open>src/token.rs\<close>,
  \<^verbatim>\<open>src/sys/unix/ready.rs\<close> (\<^verbatim>\<open>UnixReady\<close>) and the duration conversion
  \<^verbatim>\<open>convert::millis\<close> of \<^verbatim>\<open>src/lib.rs\<close>. A newtype over \<^verbatim>\<open>usize\<close> is a datatype with
  one constructor; a \<^verbatim>\<open>&mut self\<close> method returns the new value; the derived orders
  are instances of the library's classes.
\<close>

section \<open>Tokens\<close>

datatype token = Token (token_0: usize)

definition token_from_usize :: "usize \<Rightarrow> token" where
  [mio_defs]: "token_from_usize val = Token val"

definition usize_from_token :: "token \<Rightarrow> usize" where
  [mio_defs]: "usize_from_token val = token_0 val"

instantiation token :: linorder
begin

definition less_eq_token :: "token \<Rightarrow> token \<Rightarrow> bool" where
  "less_eq_token a b \<longleftrightarrow> token_0 a \<le> token_0 b"

definition less_token :: "token \<Rightarrow> token \<Rightarrow> bool" where
  "less_token a b \<longleftrightarrow> token_0 a < token_0 b"

instance
  by standard (auto simp: less_eq_token_def less_token_def intro: token.expand)

end

section \<open>Ready\<close>

definition READABLE :: usize where [mio_defs]: "READABLE = 1"
definition WRITABLE :: usize where [mio_defs]: "WRITABLE = 2"
definition ERROR :: usize where [mio_defs]: "ERROR = 4"
definition HUP :: usize where [mio_defs]: "HUP = 8"

datatype ready = Ready (ready_0: usize)

instantiation ready :: linorder
begin

definition less_eq_ready :: "ready \<Rightarrow> ready \<Rightarrow> bool" where
  "less_eq_ready a b \<longleftrightarrow> ready_0 a \<le> ready_0 b"

definition less_ready :: "ready \<Rightarrow> ready \<Rightarrow> bool" where
  "less_ready a b \<longleftrightarrow> ready_0 a < ready_0 b"

instance
  by standard (auto simp: less_eq_ready_def less_ready_def intro: ready.expand)

end

text \<open>The unix constants of \<^verbatim>\<open>src/sys/unix/ready.rs\<close>, which \<^verbatim>\<open>Ready::all\<close> uses.\<close>

definition AIO :: usize where [mio_defs]: "AIO = 0"
definition LIO :: usize where [mio_defs]: "LIO = 40"
definition PRI :: usize where [mio_defs]: "PRI = 72"

definition READY_ALL :: usize where
  [mio_defs]: "READY_ALL = ERROR OR HUP OR AIO OR LIO OR PRI"

text \<open>Constructors and queries.\<close>

definition ready_empty :: ready where [mio_defs]: "ready_empty = Ready 0"
definition ready_none :: ready where [mio_defs]: "ready_none = ready_empty"
definition ready_readable :: ready where [mio_defs]: "ready_readable = Ready READABLE"
definition ready_writable :: ready where [mio_defs]: "ready_writable = Ready WRITABLE"
definition ready_error :: ready where [mio_defs]: "ready_error = Ready ERROR"
definition ready_hup :: ready where [mio_defs]: "ready_hup = Ready HUP"

definition ready_all :: ready where
  [mio_defs]: "ready_all = Ready (READABLE OR WRITABLE OR READY_ALL)"

definition ready_is_empty :: "ready \<Rightarrow> bool" where
  [mio_defs]: "ready_is_empty r \<longleftrightarrow> r = ready_empty"

definition ready_is_none :: "ready \<Rightarrow> bool" where
  [mio_defs]: "ready_is_none r \<longleftrightarrow> ready_is_empty r"

text \<open>The operators; \<^verbatim>\<open>Sub\<close> removes the bits of the right operand.\<close>

definition ready_bitor :: "ready \<Rightarrow> ready \<Rightarrow> ready" where
  [mio_defs]: "ready_bitor a b = Ready (ready_0 a OR ready_0 b)"

definition ready_bitxor :: "ready \<Rightarrow> ready \<Rightarrow> ready" where
  [mio_defs]: "ready_bitxor a b = Ready (ready_0 a XOR ready_0 b)"

definition ready_bitand :: "ready \<Rightarrow> ready \<Rightarrow> ready" where
  [mio_defs]: "ready_bitand a b = Ready (ready_0 a AND ready_0 b)"

definition ready_sub :: "ready \<Rightarrow> ready \<Rightarrow> ready" where
  [mio_defs]: "ready_sub a b = Ready (ready_0 a AND NOT (ready_0 b))"

definition ready_not :: "ready \<Rightarrow> ready" where
  [mio_defs]: "ready_not a = Ready (NOT (ready_0 a))"

definition ready_bitor_assign :: "ready \<Rightarrow> ready \<Rightarrow> ready" where
  [mio_defs]: "ready_bitor_assign a b = Ready (ready_0 a OR ready_0 b)"

definition ready_bitxor_assign :: "ready \<Rightarrow> ready \<Rightarrow> ready" where
  [mio_defs]: "ready_bitxor_assign a b = Ready (ready_0 a XOR ready_0 b)"

definition ready_bitand_assign :: "ready \<Rightarrow> ready \<Rightarrow> ready" where
  [mio_defs]: "ready_bitand_assign a b = Ready (ready_0 a AND ready_0 b)"

definition ready_sub_assign :: "ready \<Rightarrow> ready \<Rightarrow> ready" where
  [mio_defs]: "ready_sub_assign a b = Ready (ready_0 a AND NOT (ready_0 b))"

definition ready_insert :: "ready \<Rightarrow> ready \<Rightarrow> ready" where
  [mio_defs]: "ready_insert a other = Ready (ready_0 a OR ready_0 other)"

definition ready_remove :: "ready \<Rightarrow> ready \<Rightarrow> ready" where
  [mio_defs]: "ready_remove a other = Ready (ready_0 a AND NOT (ready_0 other))"

definition ready_bits :: "ready \<Rightarrow> usize" where
  [mio_defs]: "ready_bits r = ready_0 r"

definition ready_contains :: "ready \<Rightarrow> ready \<Rightarrow> bool" where
  [mio_defs]: "ready_contains r other \<longleftrightarrow> ready_bitand r other = other"

definition ready_is_readable :: "ready \<Rightarrow> bool" where
  [mio_defs]: "ready_is_readable r \<longleftrightarrow> ready_contains r ready_readable"

definition ready_is_writable :: "ready \<Rightarrow> bool" where
  [mio_defs]: "ready_is_writable r \<longleftrightarrow> ready_contains r ready_writable"

definition ready_is_error :: "ready \<Rightarrow> bool" where
  [mio_defs]: "ready_is_error r \<longleftrightarrow> ready_contains r (Ready ERROR)"

definition ready_is_hup :: "ready \<Rightarrow> bool" where
  [mio_defs]: "ready_is_hup r \<longleftrightarrow> ready_contains r (Ready HUP)"

definition ready_as_usize :: "ready \<Rightarrow> usize" where
  [mio_defs]: "ready_as_usize events = ready_0 events"

definition ready_from_usize :: "usize \<Rightarrow> ready" where
  [mio_defs]: "ready_from_usize events = Ready events"

section \<open>PollOpt\<close>

datatype poll_opt = PollOpt (opt_0: usize)

instantiation poll_opt :: linorder
begin

definition less_eq_poll_opt :: "poll_opt \<Rightarrow> poll_opt \<Rightarrow> bool" where
  "less_eq_poll_opt a b \<longleftrightarrow> opt_0 a \<le> opt_0 b"

definition less_poll_opt :: "poll_opt \<Rightarrow> poll_opt \<Rightarrow> bool" where
  "less_poll_opt a b \<longleftrightarrow> opt_0 a < opt_0 b"

instance
  by standard (auto simp: less_eq_poll_opt_def less_poll_opt_def intro: poll_opt.expand)

end

definition opt_empty :: poll_opt where [mio_defs]: "opt_empty = PollOpt 0"
definition opt_edge :: poll_opt where [mio_defs]: "opt_edge = PollOpt 1"
definition opt_level :: poll_opt where [mio_defs]: "opt_level = PollOpt 2"
definition opt_oneshot :: poll_opt where [mio_defs]: "opt_oneshot = PollOpt 4"
definition opt_urgent :: poll_opt where [mio_defs]: "opt_urgent = PollOpt 8"

definition opt_bitor :: "poll_opt \<Rightarrow> poll_opt \<Rightarrow> poll_opt" where
  [mio_defs]: "opt_bitor a b = PollOpt (opt_0 a OR opt_0 b)"

definition opt_bitxor :: "poll_opt \<Rightarrow> poll_opt \<Rightarrow> poll_opt" where
  [mio_defs]: "opt_bitxor a b = PollOpt (opt_0 a XOR opt_0 b)"

definition opt_bitand :: "poll_opt \<Rightarrow> poll_opt \<Rightarrow> poll_opt" where
  [mio_defs]: "opt_bitand a b = PollOpt (opt_0 a AND opt_0 b)"

definition opt_sub :: "poll_opt \<Rightarrow> poll_opt \<Rightarrow> poll_opt" where
  [mio_defs]: "opt_sub a b = PollOpt (opt_0 a AND NOT (opt_0 b))"

definition opt_not :: "poll_opt \<Rightarrow> poll_opt" where
  [mio_defs]: "opt_not a = PollOpt (NOT (opt_0 a))"

definition opt_all :: poll_opt where
  [mio_defs]: "opt_all = opt_bitor (opt_bitor opt_edge opt_level) opt_oneshot"

definition opt_contains :: "poll_opt \<Rightarrow> poll_opt \<Rightarrow> bool" where
  [mio_defs]: "opt_contains a other \<longleftrightarrow> opt_bitand a other = other"

definition opt_is_edge :: "poll_opt \<Rightarrow> bool" where
  [mio_defs]: "opt_is_edge a \<longleftrightarrow> opt_contains a opt_edge"

definition opt_is_level :: "poll_opt \<Rightarrow> bool" where
  [mio_defs]: "opt_is_level a \<longleftrightarrow> opt_contains a opt_level"

definition opt_is_oneshot :: "poll_opt \<Rightarrow> bool" where
  [mio_defs]: "opt_is_oneshot a \<longleftrightarrow> opt_contains a opt_oneshot"

definition opt_is_urgent :: "poll_opt \<Rightarrow> bool" where
  [mio_defs]: "opt_is_urgent a \<longleftrightarrow> opt_contains a opt_urgent"

definition opt_bits :: "poll_opt \<Rightarrow> usize" where
  [mio_defs]: "opt_bits a = opt_0 a"

definition opt_insert :: "poll_opt \<Rightarrow> poll_opt \<Rightarrow> poll_opt" where
  [mio_defs]: "opt_insert a other = PollOpt (opt_0 a OR opt_0 other)"

definition opt_remove :: "poll_opt \<Rightarrow> poll_opt \<Rightarrow> poll_opt" where
  [mio_defs]: "opt_remove a other = PollOpt (opt_0 a AND NOT (opt_0 other))"

definition opt_as_usize :: "poll_opt \<Rightarrow> usize" where
  [mio_defs]: "opt_as_usize opt = opt_0 opt"

definition opt_from_usize :: "usize \<Rightarrow> poll_opt" where
  [mio_defs]: "opt_from_usize opt = PollOpt opt"

section \<open>Debug output\<close>

text \<open>
  \<^verbatim>\<open>fmt\<close> writes the names of the contained flags, separated by bars. The formatter is a
  state \<open>'w\<close> with an operation \<open>wr\<close> that may fail; \<^verbatim>\<open>?\<close> leaves at the first failure.
\<close>

type_synonym ('e, 'w) writer = "string \<Rightarrow> 'w \<Rightarrow> 'e + 'w"

definition fmt_flag :: "('e, 'w) writer \<Rightarrow> bool \<Rightarrow> string \<Rightarrow> 'w \<Rightarrow> 'e + 'w" where
  "fmt_flag wr one msg w =
     (case (if one then wr '' | '' w else Inr w) of
        Inl e \<Rightarrow> Inl e
      | Inr w1 \<Rightarrow> wr msg w1)"

fun fmt_flags ::
  "('e, 'w) writer \<Rightarrow> ('f \<Rightarrow> bool) \<Rightarrow> ('f \<times> string) list \<Rightarrow> bool \<Rightarrow> 'w \<Rightarrow> 'e + 'w" where
  "fmt_flags wr has [] one w = (if \<not> one then wr ''(empty)'' w else Inr w)"
| "fmt_flags wr has ((flag, msg) # flags) one w =
     (if has flag
      then (case fmt_flag wr one msg w of
              Inl e \<Rightarrow> Inl e
            | Inr w1 \<Rightarrow> fmt_flags wr has flags True w1)
      else fmt_flags wr has flags one w)"

definition ready_fmt :: "('e, 'w) writer \<Rightarrow> ready \<Rightarrow> 'w \<Rightarrow> 'e + 'w" where
  "ready_fmt wr r =
     fmt_flags wr (ready_contains r)
       [(ready_readable, ''Readable''), (ready_writable, ''Writable''),
        (Ready ERROR, ''Error''), (Ready HUP, ''HUP'')] False"

definition opt_fmt :: "('e, 'w) writer \<Rightarrow> poll_opt \<Rightarrow> 'w \<Rightarrow> 'e + 'w" where
  "opt_fmt wr a =
     fmt_flags wr (opt_contains a)
       [(opt_edge, ''Edge-Triggered''), (opt_level, ''Level-Triggered''),
        (opt_oneshot, ''OneShot'')] False"

section \<open>Token entries, events and jobs\<close>

datatype token_type =
  SocketEvent | NotifyEvent | TimersEvent | JobsEvent | TokenEvent | AcceptEvent | OtherEvent

record token_entry =
  te_ttype :: token_type
  te_token :: token

record event =
  ev_kind :: ready
  ev_token :: token_entry

definition event_new :: "ready \<Rightarrow> token_entry \<Rightarrow> event" where
  [mio_defs]: "event_new readiness tok = \<lparr>ev_kind = readiness, ev_token = tok\<rparr>"

definition event_readiness :: "event \<Rightarrow> ready" where
  [mio_defs]: "event_readiness e = ev_kind e"

text \<open>
  A \<^verbatim>\<open>Job\<close> is a shared closure. The library stores, clones and replaces it but only
  \<^verbatim>\<open>io_process\<close> calls it, so a job is known by its identity: \<open>NullJob\<close> is the empty
  closure \<^verbatim>\<open>|_| {}\<close> the library puts where no job is wanted, \<open>UserJob\<close> a closure
  the caller passed in.
\<close>

datatype job = NullJob | UserJob nat

record job_entry =
  je_token_entry :: token_entry
  je_job :: job
  je_ready :: ready

section \<open>UnixReady\<close>

datatype unix_ready = UnixReady (unix_0: ready)

definition unix_aio :: unix_ready where [mio_defs]: "unix_aio = UnixReady (ready_from_usize AIO)"
definition unix_hup :: unix_ready where [mio_defs]: "unix_hup = UnixReady (ready_from_usize HUP)"
definition unix_error :: unix_ready where [mio_defs]: "unix_error = UnixReady (ready_from_usize ERROR)"
definition unix_priority :: unix_ready where
  [mio_defs]: "unix_priority = UnixReady (ready_from_usize PRI)"

definition unix_is_priority :: "unix_ready \<Rightarrow> bool" where
  [mio_defs]: "unix_is_priority u \<longleftrightarrow> ready_contains (unix_0 u) (ready_from_usize PRI)"

definition unix_is_error :: "unix_ready \<Rightarrow> bool" where
  [mio_defs]: "unix_is_error u \<longleftrightarrow> ready_contains (unix_0 u) (ready_from_usize ERROR)"

definition unix_from_ready :: "ready \<Rightarrow> unix_ready" where
  [mio_defs]: "unix_from_ready src = UnixReady src"

definition ready_from_unix :: "unix_ready \<Rightarrow> ready" where
  [mio_defs]: "ready_from_unix src = unix_0 src"

section \<open>Durations\<close>

record duration =
  dur_secs :: u64
  dur_nanos :: u32

text \<open>\<^verbatim>\<open>std::time::Duration\<close> keeps its nanoseconds below a second.\<close>

definition duration_ok :: "duration \<Rightarrow> bool" where
  "duration_ok d \<longleftrightarrow> unat (dur_nanos d) < 1000000000"

definition duration_nanos :: "duration \<Rightarrow> nat" where
  "duration_nanos d = unat (dur_secs d) * 1000000000 + unat (dur_nanos d)"

definition NANOS_PER_MILLI :: u32 where [mio_defs]: "NANOS_PER_MILLI = 1000000"
definition MILLIS_PER_SEC :: u64 where [mio_defs]: "MILLIS_PER_SEC = 1000"

definition millis :: "duration \<Rightarrow> u64" where
  "millis d =
     (let ms = (dur_nanos d + NANOS_PER_MILLI - 1) div NANOS_PER_MILLI
      in saturating_add (saturating_mul (dur_secs d) MILLIS_PER_SEC) (ucast ms))"

section \<open>Flag words as sets of flags\<close>

locale flag_set =
  fixes flags :: "'f \<Rightarrow> nat set"
    and none :: 'f
    and join :: "'f \<Rightarrow> 'f \<Rightarrow> 'f"
    and meet :: "'f \<Rightarrow> 'f \<Rightarrow> 'f"
    and diff :: "'f \<Rightarrow> 'f \<Rightarrow> 'f"
    and contains :: "'f \<Rightarrow> 'f \<Rightarrow> bool"
  assumes flags_inj: "flags a = flags b \<Longrightarrow> a = b"
    and flags_none: "flags none = {}"
    and flags_join: "flags (join a b) = flags a \<union> flags b"
    and flags_meet: "flags (meet a b) = flags a \<inter> flags b"
    and flags_diff: "flags (diff a b) = flags a - flags b"
    and contains_meet: "contains a b \<longleftrightarrow> meet a b = b"
begin

lemma flags_eq_iff: "a = b \<longleftrightarrow> flags a = flags b"
  using flags_inj by blast

lemma contains_iff: "contains a b \<longleftrightarrow> flags b \<subseteq> flags a"
  by (auto simp: contains_meet flags_eq_iff flags_meet)

lemma contains_refl: "contains a a"
  by (simp add: contains_iff)

lemma contains_trans: "contains a b \<Longrightarrow> contains b c \<Longrightarrow> contains a c"
  by (auto simp: contains_iff)

lemma contains_antisym: "contains a b \<Longrightarrow> contains b a \<Longrightarrow> a = b"
  by (auto simp: contains_iff flags_eq_iff)

lemma contains_insert: "contains (join a b) b"
  by (auto simp: contains_iff flags_join)

lemma contains_diff: "contains (diff a b) c \<longleftrightarrow> contains a c \<and> meet c b = none"
  by (auto simp: contains_iff flags_diff flags_eq_iff flags_meet flags_none)

lemma join_diff: "join (diff a b) b = join a b"
  by (auto simp: flags_eq_iff flags_join flags_diff)

lemma diff_join: "diff (join a b) b = diff a b"
  by (auto simp: flags_eq_iff flags_join flags_diff)

lemma join_contained: "contains a b \<Longrightarrow> join a b = a"
  by (auto simp: contains_iff flags_eq_iff flags_join)

end

definition ready_flags :: "ready \<Rightarrow> nat set" where
  "ready_flags r = {n. bit (ready_0 r) n}"

definition opt_flags :: "poll_opt \<Rightarrow> nat set" where
  "opt_flags a = {n. bit (opt_0 a) n}"

interpretation ready: flag_set ready_flags ready_empty ready_bitor ready_bitand ready_sub
    ready_contains
proof
  show "a = b" if "ready_flags a = ready_flags b" for a b
    using that by (auto simp: ready_flags_def set_eq_iff intro!: ready.expand word_64_eqI)
qed (auto simp: ready_flags_def mio_defs bit_simps dest: bit_imp_le_length)

interpretation opt: flag_set opt_flags opt_empty opt_bitor opt_bitand opt_sub opt_contains
proof
  show "a = b" if "opt_flags a = opt_flags b" for a b
    using that by (auto simp: opt_flags_def set_eq_iff intro!: poll_opt.expand word_64_eqI)
qed (auto simp: opt_flags_def mio_defs bit_simps dest: bit_imp_le_length)

lemma ready_insert_bitor: "ready_insert = ready_bitor"
  and ready_remove_sub: "ready_remove = ready_sub"
  by (simp_all add: mio_defs fun_eq_iff)

text \<open>
  Inserting flags makes them contained, removing and re-inserting them is inserting
  them, inserting and then removing them is removing them, and after a removal exactly
  the flags that were contained and share no bit with the removed ones are contained.
\<close>

lemma ready_insert_remove:
  "ready_contains (ready_insert r f) f \<and>
   ready_insert (ready_remove r f) f = ready_insert r f \<and>
   ready_remove (ready_insert r f) f = ready_remove r f \<and>
   (ready_contains (ready_remove r f) g \<longleftrightarrow>
      ready_contains r g \<and> ready_bitand g f = ready_empty)"
  by (simp add: ready_insert_bitor ready_remove_sub ready.join_diff ready.diff_join
      ready.contains_diff ready.contains_insert)

text \<open>
  The unix priority flag shares the bit of \<^verbatim>\<open>HUP\<close>: a readiness that carries only
  the priority flag answers \<^verbatim>\<open>is_hup\<close>, and a word with \<^verbatim>\<open>HUP\<close> alone does not answer
  \<^verbatim>\<open>is_priority\<close>.
\<close>

lemma unix_priority_is_hup:
  "ready_is_hup (ready_from_unix unix_priority) \<and>
   \<not> unix_is_priority (unix_from_ready ready_hup)"
  by (simp add: mio_defs)

lemma ready_flags_single: "k < 64 \<Longrightarrow> ready_flags (Ready (2 ^ k)) = {k}"
  by (auto simp: ready_flags_def bit_exp_iff)

lemma ready_queries [simp]:
  "ready_is_readable r \<longleftrightarrow> 0 \<in> ready_flags r"
  "ready_is_writable r \<longleftrightarrow> 1 \<in> ready_flags r"
  "ready_is_error r \<longleftrightarrow> 2 \<in> ready_flags r"
  "ready_is_hup r \<longleftrightarrow> 3 \<in> ready_flags r"
  using ready_flags_single [of 0] ready_flags_single [of 1] ready_flags_single [of 2]
    ready_flags_single [of 3]
  by (simp_all add: ready_is_readable_def ready_is_writable_def ready_is_error_def
      ready_is_hup_def ready.contains_iff ready_readable_def ready_writable_def
      READABLE_def WRITABLE_def ERROR_def HUP_def)

definition join_bar :: "string list \<Rightarrow> string" where
  "join_bar ms = (case ms of [] \<Rightarrow> '''' | m # rest \<Rightarrow> m @ concat (map (\<lambda>x. '' | '' @ x) rest))"

definition string_sink :: "(unit, string) writer" where
  "string_sink s w = Inr (w @ s)"

lemma fmt_flags_after:
  "fmt_flags string_sink has flags True w =
     Inr (w @ concat (map (\<lambda>x. '' | '' @ snd x) (filter (has \<circ> fst) flags)))"
  by (induction flags arbitrary: w) (auto simp: string_sink_def fmt_flag_def)

lemma fmt_flags_string:
  "fmt_flags string_sink has flags False w =
     Inr (w @ (let ms = map snd (filter (has \<circ> fst) flags)
               in if ms = [] then ''(empty)'' else join_bar ms))"
  by (induction flags arbitrary: w)
    (auto simp: string_sink_def fmt_flag_def fmt_flags_after join_bar_def o_def)

text \<open>
  Written to a string, the \<^verbatim>\<open>Debug\<close> output of a readiness is the names of the
  contained flags in the order of the table, separated by bars, or \<^verbatim>\<open>(empty)\<close>.
\<close>

lemma ready_fmt_string:
  "ready_fmt string_sink r w =
     Inr (w @ (let ms = (if ready_is_readable r then [''Readable''] else []) @
                        (if ready_is_writable r then [''Writable''] else []) @
                        (if ready_is_error r then [''Error''] else []) @
                        (if ready_is_hup r then [''HUP''] else [])
               in if ms = [] then ''(empty)'' else join_bar ms))"
  unfolding ready_fmt_def fmt_flags_string
  by (simp add: ready_is_readable_def ready_is_writable_def ready_is_error_def
      ready_is_hup_def del: ready_queries)

lemma ms_unat:
  assumes "duration_ok d"
  shows "unat ((dur_nanos d + NANOS_PER_MILLI - 1) div NANOS_PER_MILLI) =
     (unat (dur_nanos d) + 999999) div 1000000"
proof -
  have "unat (dur_nanos d + 999999) = unat (dur_nanos d) + 999999"
    using assms by (subst unat_add_lem [THEN iffD1]) (simp_all add: duration_ok_def)
  then show ?thesis
    by (simp add: NANOS_PER_MILLI_def unat_div_distrib add_diff_eq [symmetric])
qed

lemma unat_ucast_32_64: "unat (ucast (x :: 32 word) :: 64 word) = unat x"
proof -
  have "unat x < 2 ^ LENGTH(32)" by (rule unsigned_less)
  then have "unat x < 2 ^ 64" by simp
  then show ?thesis by (simp add: unsigned_ucast_eq take_bit_nat_eq_self)
qed

lemma unat_millis:
  assumes "duration_ok d"
  shows "unat (millis d) = min (2 ^ 64 - 1) ((duration_nanos d + 999999) div 1000000)"
proof -
  let ?s = "unat (dur_secs d)" and ?n = "unat (dur_nanos d)"
  have "(duration_nanos d + 999999) div 1000000 = ?s * 1000 + (?n + 999999) div 1000000"
    by (simp add: duration_nanos_def)
  moreover have "unat (millis d) = min (2 ^ 64 - 1) (min (2 ^ 64 - 1) (?s * 1000) + (?n + 999999) div 1000000)"
    by (simp add: millis_def Let_def unat_saturating_add unat_saturating_mul ms_unat [OF assms]
        unat_ucast_32_64 MILLIS_PER_SEC_def)
  ultimately show ?thesis by (simp add: min_def)
qed

text \<open>
  \<^verbatim>\<open>millis\<close> is the number of milliseconds of a duration rounded up, capped at
  \<^verbatim>\<open>u64::MAX\<close>: a positive duration never becomes zero and no intermediate step wraps.
\<close>

lemma millis_rounds_up:
  assumes "duration_ok d"
  shows "unat (millis d) = min (2 ^ 64 - 1) ((duration_nanos d + 999999) div 1000000)"
  using assms by (rule unat_millis)

lemma millis_rounds_up_example:
  "duration_ok \<lparr>dur_secs = 2, dur_nanos = 1\<rparr> \<and>
   unat (millis \<lparr>dur_secs = 2, dur_nanos = 1\<rparr>) = 2001"
proof -
  have ok: "duration_ok \<lparr>dur_secs = 2, dur_nanos = 1\<rparr>" by (simp add: duration_ok_def)
  show ?thesis using ok millis_rounds_up [OF ok] by (simp add: duration_nanos_def)
qed

end
