(* ===== verification/Timer_Wheel.thy ===== *)
theory Timer_Wheel
  imports Lazy_Cell Event_Imp
begin

text \<open>
  The hashed timer wheel of \<^verbatim>\<open>src/timer.rs\<close>: timeouts are entries of a slab, doubly
  linked per slot of the wheel. Arithmetic on ticks is checked, as in a debug build: an
  overflow is a panic, \<open>None\<close>. The slab is a crate: its operations are an argument, its
  documented laws the predicate \<open>slab_laws\<close>. The clock, and what setting the readiness
  of the timer does to the rest of the program, are arguments too.
\<close>

section \<open>Entries\<close>

type_synonym tick = u64

record timeout =
  to_token :: token
  to_tick :: tick

record entry_links =
  el_tick :: tick
  el_prev :: token
  el_next :: token

record 'a entry =
  en_state :: 'a
  en_links :: entry_links

definition EMPTY :: token where "EMPTY = Token usize_max"

definition entry_new :: "'a \<Rightarrow> tick \<Rightarrow> token \<Rightarrow> 'a entry" where
  "entry_new state tick next =
     \<lparr>en_state = state, en_links = \<lparr>el_tick = tick, el_prev = EMPTY, el_next = next\<rparr>\<rparr>"

record wheel_entry =
  we_next_tick :: tick
  we_head :: token

definition TICK_MAX :: tick where "TICK_MAX = u64_max"

text \<open>
  The slab with keys of type \<^verbatim>\<open>usize\<close>: \<open>sl_insert\<close> chooses the key and fails when memory
  does; \<open>sl_set\<close> is the assignment through \<^verbatim>\<open>index_mut\<close>.
\<close>

record ('s, 'e) slab_ops =
  sl_new :: "usize \<Rightarrow> 's"
  sl_insert :: "'s \<Rightarrow> 'e \<Rightarrow> (usize \<times> 's) option"
  sl_get :: "'s \<Rightarrow> usize \<Rightarrow> 'e option"
  sl_set :: "'s \<Rightarrow> usize \<Rightarrow> 'e \<Rightarrow> 's"
  sl_remove :: "'s \<Rightarrow> usize \<Rightarrow> 's"

section \<open>The timer\<close>

text \<open>
  \<open>ti_unparks\<close> counts the wake-ups of the thread; the registration and the
  \<^verbatim>\<open>SetReadiness\<close> are handles.
\<close>

record timer_inner =
  ti_registration :: nat
  ti_set_readiness :: nat
  ti_wakeup_state :: usize
  ti_unparks :: nat

record 's timer =
  tm_tick_ms :: u64
  tm_entries :: 's
  tm_wheel :: "wheel_entry list"
  tm_tick :: tick
  tm_next :: token
  tm_mask :: u64
  tm_inner :: "timer_inner lazycell"

definition duration_to_tick :: "duration \<Rightarrow> u64 \<Rightarrow> tick option" where
  "duration_to_tick elapsed tick_ms =
     (let elapsed_ms = millis elapsed in
      if tick_ms = 0 then None
      else Some (saturating_add elapsed_ms (tick_ms div 2) div tick_ms))"

text \<open>\<open>elapsed\<close> is what the clock says has passed since the start.\<close>

definition current_tick :: "duration \<Rightarrow> u64 \<Rightarrow> tick option" where
  "current_tick elapsed tick_ms = duration_to_tick elapsed tick_ms"

text \<open>\<^verbatim>\<open>next_power_of_two\<close> panics when the result does not fit.\<close>

fun pow2_from :: "nat \<Rightarrow> nat \<Rightarrow> nat \<Rightarrow> nat option" where
  "pow2_from 0 p n = None"
| "pow2_from (Suc bits) p n = (if n \<le> p then Some p else pow2_from bits (2 * p) n)"

definition next_power_of_two :: "usize \<Rightarrow> usize option" where
  "next_power_of_two n = map_option word_of_nat (pow2_from 64 1 (unat n))"

definition timer_new :: "('s, 'e) slab_ops \<Rightarrow> u64 \<Rightarrow> usize \<Rightarrow> usize \<Rightarrow> 's timer option" where
  "timer_new sl tick_ms num_slots capacity = do {
     num_slots \<leftarrow> next_power_of_two num_slots;
     capacity \<leftarrow> next_power_of_two capacity;
     let mask = num_slots - 1;
     let wheel = replicate (unat num_slots) \<lparr>we_next_tick = TICK_MAX, we_head = EMPTY\<rparr>;
     Some \<lparr>tm_tick_ms = tick_ms, tm_entries = sl_new sl capacity, tm_wheel = wheel,
       tm_tick = 0, tm_next = EMPTY, tm_mask = mask, tm_inner = lc_new\<rparr>
   }"

text \<open>Reading and writing a slot; out of range is the panic of the index.\<close>

definition wheel_get :: "'s timer \<Rightarrow> usize \<Rightarrow> wheel_entry option" where
  "wheel_get t slot =
     (if unat slot < length (tm_wheel t) then Some (tm_wheel t ! unat slot) else None)"

definition wheel_set :: "'s timer \<Rightarrow> usize \<Rightarrow> (wheel_entry \<Rightarrow> wheel_entry) \<Rightarrow> 's timer option" where
  "wheel_set t slot f =
     (if unat slot < length (tm_wheel t)
      then Some (t\<lparr>tm_wheel := (tm_wheel t)[unat slot := f (tm_wheel t ! unat slot)]\<rparr>)
      else None)"

definition entry_set ::
  "('s, 'a entry) slab_ops \<Rightarrow> 's timer \<Rightarrow> token \<Rightarrow> (entry_links \<Rightarrow> entry_links) \<Rightarrow> 's timer option" where
  "entry_set sl t k f = do {
     e \<leftarrow> sl_get sl (tm_entries t) (token_0 k);
     Some (t\<lparr>tm_entries := sl_set sl (tm_entries t) (token_0 k)
       (e\<lparr>en_links := f (en_links e)\<rparr>)\<rparr>)
   }"

definition slot_for :: "'s timer \<Rightarrow> tick \<Rightarrow> usize" where
  "slot_for t tick = tm_mask t AND tick"

text \<open>
  The loop of \<^verbatim>\<open>schedule_readiness\<close> on the wake-up state, run without interference of the
  thread; the loop with it is the subject of \<open>Wakeup_Thread\<close>.
\<close>

definition schedule_body :: "tick \<Rightarrow> usize \<Rightarrow> (unit + usize) option" where
  "schedule_body tick cur = Some (if cur \<le> tick then Inl () else Inr tick)"

definition schedule_readiness :: "'s timer \<Rightarrow> tick \<Rightarrow> 's timer option" where
  "schedule_readiness t tick =
     (case lc_borrow (tm_inner t) of
        None \<Rightarrow> Some t
      | Some inner \<Rightarrow> do {
          word \<leftarrow> cas_loop (schedule_body tick) (ti_wakeup_state inner) [];
          (case word of
             Inl _ \<Rightarrow> Some t
           | Inr (_, next) \<Rightarrow>
               Some (t\<lparr>tm_inner := \<lparr>lc_inner = Some (inner\<lparr>ti_wakeup_state := next,
                 ti_unparks := Suc (ti_unparks inner)\<rparr>)\<rparr>\<rparr>))
        })"

definition next_tick :: "('s, 'a entry) slab_ops \<Rightarrow> 's timer \<Rightarrow> tick option option" where
  "next_tick sl t = do {
     now \<leftarrow>
       (if tm_next t \<noteq> EMPTY then do {
          e \<leftarrow> sl_get sl (tm_entries t) (token_0 (tm_next t));
          w \<leftarrow> wheel_get t (slot_for t (el_tick (en_links e)));
          Some (we_next_tick w = tm_tick t)
        }
        else Some False);
     if now then Some (Some (tm_tick t))
     else Some (case map we_next_tick (tm_wheel t) of
            [] \<Rightarrow> None
          | ticks \<Rightarrow> Some (Min (set ticks)))
   }"

definition timer_insert ::
  "('s, 'a entry) slab_ops \<Rightarrow> 's timer \<Rightarrow> tick \<Rightarrow> 'a \<Rightarrow> (timeout \<times> 's timer) option" where
  "timer_insert sl t tick state = do {
     let slot = tick AND tm_mask t;
     cur \<leftarrow> wheel_get t slot;
     let e = entry_new state tick (we_head cur);
     (key, entries) \<leftarrow> sl_insert sl (tm_entries t) e;
     let token = Token key;
     let t = t\<lparr>tm_entries := entries\<rparr>;
     t \<leftarrow> (if we_head cur \<noteq> EMPTY
          then entry_set sl t (we_head cur) (\<lambda>l. l\<lparr>el_prev := token\<rparr>) else Some t);
     t \<leftarrow> wheel_set t slot (\<lambda>_.
       \<lparr>we_next_tick = min tick (we_next_tick cur), we_head = token\<rparr>);
     t \<leftarrow> schedule_readiness t tick;
     Some (\<lparr>to_token = token, to_tick = tick\<rparr>, t)
   }"

definition set_timeout_at ::
  "('s, 'a entry) slab_ops \<Rightarrow> 's timer \<Rightarrow> duration \<Rightarrow> 'a \<Rightarrow> (timeout \<times> 's timer) option" where
  "set_timeout_at sl t delay_from_start state = do {
     tick \<leftarrow> duration_to_tick delay_from_start (tm_tick_ms t);
     tick \<leftarrow> (if tick < tm_tick t then checked_add (tm_tick t) 1 else Some tick);
     timer_insert sl t tick state
   }"

text \<open>\<^verbatim>\<open>Duration + Duration\<close> panics on overflow of the seconds.\<close>

definition duration_add :: "duration \<Rightarrow> duration \<Rightarrow> duration option" where
  "duration_add a b = do {
     secs \<leftarrow> checked_add (dur_secs a) (dur_secs b);
     let nanos = dur_nanos a + dur_nanos b;
     if 1000000000 \<le> nanos then do {
       secs \<leftarrow> checked_add secs 1;
       Some \<lparr>dur_secs = secs, dur_nanos = nanos - 1000000000\<rparr>
     }
     else Some \<lparr>dur_secs = secs, dur_nanos = nanos\<rparr>
   }"

definition set_timeout ::
  "('s, 'a entry) slab_ops \<Rightarrow> 's timer \<Rightarrow> duration \<Rightarrow> duration \<Rightarrow> 'a \<Rightarrow>
   (timeout \<times> 's timer) option" where
  "set_timeout sl t elapsed delay_from_now state = do {
     delay_from_start \<leftarrow> duration_add elapsed delay_from_now;
     set_timeout_at sl t delay_from_start state
   }"

definition timer_unlink ::
  "('s, 'a entry) slab_ops \<Rightarrow> 's timer \<Rightarrow> entry_links \<Rightarrow> token \<Rightarrow> 's timer option" where
  "timer_unlink sl t links token = do {
     t \<leftarrow> (if el_prev links = EMPTY
          then wheel_set t (slot_for t (el_tick links)) (\<lambda>w. w\<lparr>we_head := el_next links\<rparr>)
          else entry_set sl t (el_prev links) (\<lambda>l. l\<lparr>el_next := el_next links\<rparr>));
     if el_next links \<noteq> EMPTY then do {
       t \<leftarrow> entry_set sl t (el_next links) (\<lambda>l. l\<lparr>el_prev := el_prev links\<rparr>);
       Some (if token = tm_next t then t\<lparr>tm_next := el_next links\<rparr> else t)
     }
     else Some (if token = tm_next t then t\<lparr>tm_next := EMPTY\<rparr> else t)
   }"

text \<open>\<^verbatim>\<open>Slab::remove\<close> panics on a vacant key.\<close>

definition timer_remove ::
  "('s, 'a entry) slab_ops \<Rightarrow> 's timer \<Rightarrow> token \<Rightarrow> ('a \<times> 's timer) option" where
  "timer_remove sl t k = do {
     e \<leftarrow> sl_get sl (tm_entries t) (token_0 k);
     Some (en_state e, t\<lparr>tm_entries := sl_remove sl (tm_entries t) (token_0 k)\<rparr>)
   }"

definition cancel_timeout ::
  "('s, 'a entry) slab_ops \<Rightarrow> 's timer \<Rightarrow> timeout \<Rightarrow> ('a option \<times> 's timer) option" where
  "cancel_timeout sl t timeout =
     (case sl_get sl (tm_entries t) (token_0 (to_token timeout)) of
        None \<Rightarrow> Some (None, t)
      | Some e \<Rightarrow>
          (let links = en_links e in
           if el_tick links \<noteq> to_tick timeout then Some (None, t)
           else do {
             t \<leftarrow> timer_unlink sl t links (to_token timeout);
             (state, t) \<leftarrow> timer_remove sl t (to_token timeout);
             Some (Some state, t)
           }))"

text \<open>The loop of \<^verbatim>\<open>poll_to\<close>; \<open>Inl\<close> is the return from within.\<close>

partial_function (option) poll_to_loop ::
  "('s, 'a entry) slab_ops \<Rightarrow> tick \<Rightarrow> 's timer \<Rightarrow> (('a \<times> 's timer) + 's timer) option" where
  "poll_to_loop sl target t =
     (if \<not> tm_tick t \<le> target then Some (Inr t)
      else if tm_next t = EMPTY then
        Option.bind (checked_add (tm_tick t) 1) (\<lambda>tick.
        let t = t\<lparr>tm_tick := tick\<rparr>; slot = slot_for t tick in
        Option.bind (wheel_get t slot) (\<lambda>w.
        let t = t\<lparr>tm_next := we_head w\<rparr> in
        Option.bind
          (if tm_next t = EMPTY then wheel_set t slot (\<lambda>w. w\<lparr>we_next_tick := TICK_MAX\<rparr>)
           else Some t)
          (poll_to_loop sl target)))
      else
        let cur = tm_next t; slot = slot_for t (tm_tick t) in
        Option.bind (wheel_get t slot) (\<lambda>w.
        Option.bind
          (if cur = we_head w then wheel_set t slot (\<lambda>w. w\<lparr>we_next_tick := TICK_MAX\<rparr>)
           else Some t) (\<lambda>t.
        Option.bind (sl_get sl (tm_entries t) (token_0 cur)) (\<lambda>e.
        let links = en_links e in
        if el_tick links \<le> tm_tick t then
          Option.bind (timer_unlink sl t links cur) (\<lambda>t.
          Option.bind (timer_remove sl t cur) (\<lambda>(state, t). Some (Inl (state, t))))
        else
          Option.bind (wheel_set t slot (\<lambda>w. w\<lparr>we_next_tick :=
            min (we_next_tick w) (el_tick links)\<rparr>)) (\<lambda>t.
          poll_to_loop sl target (t\<lparr>tm_next := el_next links\<rparr>))))))"

declare poll_to_loop.simps [code]

text \<open>
  \<open>setr p r w\<close> sets readiness \<open>r\<close> through the handle \<open>p\<close>, its result ignored.
\<close>

definition poll_to ::
  "('s, 'a entry) slab_ops \<Rightarrow> (nat \<Rightarrow> ready \<Rightarrow> 'w \<Rightarrow> 'w option) \<Rightarrow> tick \<Rightarrow> 's timer \<Rightarrow> 'w \<Rightarrow>
   ('a option \<times> 's timer \<times> 'w) option" where
  "poll_to sl setr target t w = do {
     let target = (if target < tm_tick t then tm_tick t else target);
     res \<leftarrow> poll_to_loop sl target t;
     (case res of
        Inl (state, t) \<Rightarrow> Some (Some state, t, w)
      | Inr t \<Rightarrow>
          (case lc_borrow (tm_inner t) of
             None \<Rightarrow> Some (None, t, w)
           | Some inner \<Rightarrow> do {
               w \<leftarrow> setr (ti_set_readiness inner) ready_empty w;
               nt \<leftarrow> next_tick sl t;
               t \<leftarrow> (case nt of Some tick \<Rightarrow> schedule_readiness t tick | None \<Rightarrow> Some t);
               Some (None, t, w)
             }))
   }"

definition timer_poll ::
  "('s, 'a entry) slab_ops \<Rightarrow> (nat \<Rightarrow> ready \<Rightarrow> 'w \<Rightarrow> 'w option) \<Rightarrow> duration \<Rightarrow> 's timer \<Rightarrow> 'w \<Rightarrow>
   ('a option \<times> 's timer \<times> 'w) option" where
  "timer_poll sl setr elapsed t w = do {
     target \<leftarrow> current_tick elapsed (tm_tick_ms t);
     poll_to sl setr target t w
   }"

section \<open>The slab\<close>

definition slab_laws :: "('s, 'e) slab_ops \<Rightarrow> bool" where
  "slab_laws sl \<longleftrightarrow>
     (\<forall>c k. sl_get sl (sl_new sl c) k = None) \<and>
     (\<forall>s e k s'. sl_insert sl s e = Some (k, s') \<longrightarrow>
        sl_get sl s k = None \<and> k \<noteq> usize_max \<and>
        (\<forall>j. sl_get sl s' j = (if j = k then Some e else sl_get sl s j))) \<and>
     (\<forall>s k e j. sl_get sl s k \<noteq> None \<longrightarrow>
        sl_get sl (sl_set sl s k e) j = (if j = k then Some e else sl_get sl s j)) \<and>
     (\<forall>s k j. sl_get sl s k \<noteq> None \<longrightarrow>
        sl_get sl (sl_remove sl s k) j = (if j = k then None else sl_get sl s j))"

lemma slab_lawsD:
  assumes "slab_laws sl"
  shows "sl_get sl (sl_new sl c) = Map.empty"
    "sl_insert sl s e = Some (k, s') \<Longrightarrow>
       sl_get sl s k = None \<and> k \<noteq> usize_max \<and> sl_get sl s' = (sl_get sl s)(k \<mapsto> e)"
    "sl_get sl s k \<noteq> None \<Longrightarrow> sl_get sl (sl_set sl s k e) = (sl_get sl s)(k \<mapsto> e)"
    "sl_get sl s k \<noteq> None \<Longrightarrow> sl_get sl (sl_remove sl s k) = (sl_get sl s)(k := None)"
  using assms by (auto simp: slab_laws_def fun_eq_iff)

end
