(* ===== verification/Timer_Links.thy ===== *)
theory Timer_Links
  imports Timer_Wheel
begin

text \<open>
  The doubly linked slots of the timer wheel: what a list of keys linked in the slab is,
  and what writing one entry and taking one out do to it.
\<close>

section \<open>Doubly linked slots\<close>

fun first :: "usize list \<Rightarrow> token" where
  "first [] = EMPTY"
| "first (k # _) = Token k"

text \<open>The entries from a token on, each linked to its neighbours; \<open>p\<close> is what comes before.\<close>

fun dll :: "(usize \<rightharpoonup> 'a entry) \<Rightarrow> token \<Rightarrow> usize list \<Rightarrow> bool" where
  "dll g p [] = True"
| "dll g p (k # ks) =
     (\<exists>e. g k = Some e \<and> el_prev (en_links e) = p \<and> el_next (en_links e) = first ks \<and>
        dll g (Token k) ks)"

definition upd_links ::
  "(usize \<rightharpoonup> 'a entry) \<Rightarrow> usize \<Rightarrow> (entry_links \<Rightarrow> entry_links) \<Rightarrow> usize \<rightharpoonup> 'a entry" where
  "upd_links g k f =
     (case g k of None \<Rightarrow> g | Some e \<Rightarrow> g(k \<mapsto> e\<lparr>en_links := f (en_links e)\<rparr>))"

text \<open>What the slab holds, without the links: the pending timeouts.\<close>

definition pend :: "(usize \<rightharpoonup> 'a entry) \<Rightarrow> usize \<rightharpoonup> tick \<times> 'a" where
  "pend g k = map_option (\<lambda>e. (el_tick (en_links e), en_state e)) (g k)"

definition keeps_tick :: "(entry_links \<Rightarrow> entry_links) \<Rightarrow> bool" where
  "keeps_tick f \<longleftrightarrow> (\<forall>l. el_tick (f l) = el_tick l)"

lemma keeps_tick_simps [simp]:
  "keeps_tick (\<lambda>l. l\<lparr>el_prev := p\<rparr>)" "keeps_tick (\<lambda>l. l\<lparr>el_next := n\<rparr>)"
  by (simp_all add: keeps_tick_def)

lemma pend_upd_links [simp]: "keeps_tick f \<Longrightarrow> pend (upd_links g k f) = pend g"
  by (auto simp: pend_def upd_links_def keeps_tick_def fun_eq_iff split: option.splits)

lemma pend_upd [simp]:
  "pend (g(k \<mapsto> e)) = (pend g)(k \<mapsto> (el_tick (en_links e), en_state e))"
  "pend (g(k := None)) = (pend g)(k := None)"
  by (auto simp: pend_def)

lemma pend_None: "pend g k = None \<longleftrightarrow> g k = None"
  by (simp add: pend_def)

lemma upd_links_other [simp]: "j \<noteq> k \<Longrightarrow> upd_links g k f j = g j"
  by (simp add: upd_links_def split: option.splits)

lemma upd_links_same: "g k = Some e \<Longrightarrow> upd_links g k f k = Some (e\<lparr>en_links := f (en_links e)\<rparr>)"
  by (simp add: upd_links_def)

lemma dll_cong: "(\<And>k. k \<in> set ks \<Longrightarrow> g' k = g k) \<Longrightarrow> dll g' p ks = dll g p ks"
  by (induction ks arbitrary: p) auto

lemma dll_upd [simp]: "k \<notin> set ks \<Longrightarrow> dll (g(k := v)) p ks = dll g p ks"
  by (rule dll_cong) auto

lemma dll_upd_links [simp]: "k \<notin> set ks \<Longrightarrow> dll (upd_links g k f) p ks = dll g p ks"
  by (rule dll_cong) (metis upd_links_other)

lemma dll_prev:
  "dll g q ks \<Longrightarrow> distinct ks \<Longrightarrow> ks \<noteq> [] \<Longrightarrow> dll (upd_links g (hd ks) (\<lambda>l. l\<lparr>el_prev := p\<rparr>)) p ks"
  by (cases ks) (auto simp: upd_links_same)

lemma dll_elem: "dll g p ks \<Longrightarrow> k \<in> set ks \<Longrightarrow> g k \<noteq> None"
  by (induction ks arbitrary: p) auto

text \<open>Taking an entry out: the neighbours \<open>xs\<close> and \<open>ys\<close> are linked to each other.\<close>

definition relink :: "(usize \<rightharpoonup> 'a entry) \<Rightarrow> usize list \<Rightarrow> usize list \<Rightarrow> token \<Rightarrow> usize \<rightharpoonup> 'a entry" where
  "relink g xs ys p =
     (let g = (if xs = [] then g else upd_links g (last xs) (\<lambda>l. l\<lparr>el_next := first ys\<rparr>)) in
      if ys = [] then g else upd_links g (hd ys) (\<lambda>l. l\<lparr>el_prev := p\<rparr>))"

lemma pend_relink [simp]: "pend (relink g xs ys p) = pend g"
  by (simp add: relink_def Let_def)

lemma relink_other:
  assumes "k \<notin> set xs" "k \<notin> set ys"
  shows "relink g xs ys p k = g k"
proof -
  have "xs \<noteq> [] \<Longrightarrow> k \<noteq> last xs" "ys \<noteq> [] \<Longrightarrow> k \<noteq> hd ys"
    using assms last_in_set [of xs] hd_in_set [of ys] by metis+
  then show ?thesis by (simp add: relink_def)
qed

lemma dll_append:
  "dll g p (xs @ ys) \<Longrightarrow> dll g (if xs = [] then p else Token (last xs)) ys"
  by (induction xs arbitrary: p) (auto split: if_splits)

lemma dll_entry_prev:
  assumes "dll g p (xs @ k # ys)" "g k = Some e"
  shows "el_prev (en_links e) = (if xs = [] then p else Token (last xs))"
    "el_next (en_links e) = first ys"
  using dll_append [OF assms(1)] assms(2) by auto

lemma dll_relink:
  "dll g p (xs @ k # ys) \<Longrightarrow> distinct (xs @ k # ys) \<Longrightarrow> g k = Some e \<Longrightarrow>
     dll (relink g xs ys (el_prev (en_links e))) p (xs @ ys)"
proof (induction xs arbitrary: p)
  case Nil
  then show ?case by (cases "ys = []") (auto simp: relink_def Let_def intro: dll_prev)
next
  case (Cons x xs)
  obtain ex where ex: "g x = Some ex" "el_prev (en_links ex) = p"
    "el_next (en_links ex) = first (xs @ k # ys)" "dll g (Token x) (xs @ k # ys)"
    using Cons.prems(1) by auto
  have d: "x \<notin> set xs" "x \<notin> set ys" "x \<noteq> k" "distinct (xs @ k # ys)" using Cons.prems(2) by auto
  note ep = dll_entry_prev [OF ex(4) Cons.prems(3)]
  show ?case
  proof (cases "xs = []")
    case True
    let ?g = "upd_links g x (\<lambda>l. l\<lparr>el_next := first ys\<rparr>)"
    have p: "el_prev (en_links e) = Token x" using ep True by simp
    have ys: "dll ?g (Token k) ys" using ex(4) True d(2) by auto
    show ?thesis
    proof (cases "ys = []")
      case True
      then show ?thesis using \<open>xs = []\<close> ex by (simp add: relink_def upd_links_same)
    next
      case False
      then have "dll (upd_links ?g (hd ys) (\<lambda>l. l\<lparr>el_prev := Token x\<rparr>)) (Token x) ys"
        using dll_prev [OF ys] d(4) \<open>xs = []\<close> by simp
      moreover have "x \<noteq> hd ys" using False d(2) hd_in_set by metis
      ultimately show ?thesis
        using \<open>xs = []\<close> False ex p by (simp add: relink_def upd_links_same)
    qed
  next
    case False
    have r: "relink g (x # xs) ys (el_prev (en_links e)) = relink g xs ys (el_prev (en_links e))"
      using False by (simp add: relink_def)
    have "relink g xs ys (el_prev (en_links e)) x = g x" using d by (intro relink_other)
    moreover have "first (xs @ ys) = first (xs @ k # ys)" using False by (cases xs) auto
    ultimately show ?thesis
      using Cons.IH [OF ex(4) d(4) Cons.prems(3)] ex by (simp add: r)
  qed
qed

end
