(* ===== verification/Timer_Inv.thy ===== *)
theory Timer_Inv
  imports Timer_Links
begin

text \<open>
  The invariant of the timer: every slot of the wheel is a doubly linked list of exactly
  the entries of the slab that hash to it, and the cursor points into the current slot.
  It is kept, without a panic, by inserting, by taking out and by moving the cursor.
\<close>

section \<open>The invariant\<close>

abbreviation tm_get :: "('s, 'a entry) slab_ops \<Rightarrow> 's timer \<Rightarrow> usize \<rightharpoonup> 'a entry" where
  "tm_get sl t \<equiv> sl_get sl (tm_entries t)"

text \<open>\<open>L i\<close> lists the keys of slot \<open>i\<close>; of the current one, \<open>xs\<close> is behind the cursor.\<close>

definition wheel_inv ::
  "('s, 'a entry) slab_ops \<Rightarrow> 's timer \<Rightarrow> (nat \<Rightarrow> usize list) \<Rightarrow> usize list \<Rightarrow> usize list \<Rightarrow> bool" where
  "wheel_inv sl t L xs ys \<longleftrightarrow>
     Suc (unat (tm_mask t)) = length (tm_wheel t) \<and>
     tm_get sl t usize_max = None \<and>
     (\<forall>i. distinct (L i) \<and> dll (tm_get sl t) EMPTY (L i)) \<and>
     (\<forall>k i. k \<in> set (L i) \<longleftrightarrow>
        (\<exists>e. tm_get sl t k = Some e \<and> unat (slot_for t (el_tick (en_links e))) = i)) \<and>
     (\<forall>i < length (tm_wheel t). we_head (tm_wheel t ! i) = first (L i)) \<and>
     L (unat (slot_for t (tm_tick t))) = xs @ ys \<and> tm_next t = first ys"

lemma wheel_invD:
  assumes "wheel_inv sl t L xs ys"
  shows "Suc (unat (tm_mask t)) = length (tm_wheel t)" "tm_get sl t usize_max = None"
    "distinct (L i)" "dll (tm_get sl t) EMPTY (L i)"
    "k \<in> set (L i) \<longleftrightarrow>
       (\<exists>e. tm_get sl t k = Some e \<and> unat (slot_for t (el_tick (en_links e))) = i)"
    "i < length (tm_wheel t) \<Longrightarrow> we_head (tm_wheel t ! i) = first (L i)"
    "L (unat (slot_for t (tm_tick t))) = xs @ ys" "tm_next t = first ys"
  using assms unfolding wheel_inv_def by blast+

lemma slot_bound:
  assumes "Suc (unat (tm_mask t)) = length (tm_wheel t)"
  shows "unat (slot_for t tick) < length (tm_wheel t)"
proof -
  have "slot_for t tick \<le> tm_mask t" by (simp add: slot_for_def word_and_le2)
  then show ?thesis using assms by (simp add: word_le_nat_alt)
qed

lemma slot_for_cong [simp]:
  "slot_for (t\<lparr>tm_entries := s\<rparr>) = slot_for t" "slot_for (t\<lparr>tm_wheel := w\<rparr>) = slot_for t"
  "slot_for (t\<lparr>tm_next := n\<rparr>) = slot_for t" "slot_for (t\<lparr>tm_tick := k\<rparr>) = slot_for t"
  "slot_for (t\<lparr>tm_inner := x\<rparr>) = slot_for t"
  by (simp_all add: slot_for_def fun_eq_iff)

lemma first_EMPTY [simp]: "usize_max \<notin> set ks \<Longrightarrow> (first ks = EMPTY) = (ks = [])"
  by (cases ks) (auto simp: EMPTY_def)

lemma wheel_inv_not_max: "wheel_inv sl t L xs ys \<Longrightarrow> usize_max \<notin> set (L i)"
  using wheel_invD(2,5) by fastforce

lemma wheel_inv_parts:
  assumes "wheel_inv sl t L xs ys"
  shows "usize_max \<notin> set xs" "usize_max \<notin> set ys" "distinct xs" "distinct ys"
    "set xs \<inter> set ys = {}"
  using wheel_inv_not_max [OF assms, of "unat (slot_for t (tm_tick t))"]
    wheel_invD(3) [OF assms, of "unat (slot_for t (tm_tick t))"] wheel_invD(7) [OF assms]
  by auto

section \<open>Writing an entry\<close>

lemma entry_set_eq:
  assumes "slab_laws sl" "tm_get sl t k = Some e"
  obtains s where "entry_set sl t (Token k) f = Some (t\<lparr>tm_entries := s\<rparr>)"
    "sl_get sl s = upd_links (tm_get sl t) k f"
  using assms slab_lawsD(3) [OF assms(1), of "tm_entries t" k "e\<lparr>en_links := f (en_links e)\<rparr>"]
  by (auto simp: entry_set_def upd_links_def)

lemma wheel_set_eq:
  "unat i < length (tm_wheel t) \<Longrightarrow>
     wheel_set t i f = Some (t\<lparr>tm_wheel := (tm_wheel t)[unat i := f (tm_wheel t ! unat i)]\<rparr>)"
  by (simp add: wheel_set_def)

text \<open>\<^verbatim>\<open>unlink\<close> of an entry between \<open>as\<close> and \<open>bs\<close> in its slot.\<close>

definition unlinked :: "'s timer \<Rightarrow> 's \<Rightarrow> usize \<Rightarrow> nat \<Rightarrow> usize list \<Rightarrow> usize list \<Rightarrow> 's timer" where
  "unlinked t s k i as bs = t\<lparr>tm_entries := s,
     tm_wheel := (if as = [] then (tm_wheel t)[i := (tm_wheel t ! i)\<lparr>we_head := first bs\<rparr>]
                  else tm_wheel t),
     tm_next := (if Token k = tm_next t then first bs else tm_next t)\<rparr>"

lemma upd_links_some [simp]: "(\<exists>y. upd_links g j f k = Some y) = (\<exists>y. g k = Some y)"
  by (auto simp: upd_links_def split: option.splits)

lemma timer_unlink_eq:
  assumes laws: "slab_laws sl" and inv: "wheel_inv sl t L xs ys"
    and e: "tm_get sl t k = Some e"
    and L: "L (unat (slot_for t (el_tick (en_links e)))) = as @ k # bs"
  obtains s where
    "timer_unlink sl t (en_links e) (Token k) =
       Some (unlinked t s k (unat (slot_for t (el_tick (en_links e)))) as bs)"
    "sl_get sl s = relink (tm_get sl t) as bs (el_prev (en_links e))"
proof -
  let ?i = "unat (slot_for t (el_tick (en_links e)))"
  let ?g = "tm_get sl t"
  have d: "dll ?g EMPTY (as @ k # bs)" using wheel_invD(4) [OF inv, of ?i] L by simp
  have nm: "usize_max \<notin> set as" "usize_max \<notin> set bs"
    using wheel_inv_not_max [OF inv, of ?i] L by auto
  note l = dll_entry_prev [OF d e]
  have prev: "(el_prev (en_links e) = EMPTY) = (as = [])"
    unfolding l(1) EMPTY_def using nm(1) by (metis last_in_set token.inject)
  have elem: "\<And>j. j \<in> set as \<union> set bs \<Longrightarrow> ?g j \<noteq> None"
    using dll_elem [OF d] by auto
  have bnd: "?i < length (tm_wheel t)" using slot_bound [OF wheel_invD(1) [OF inv]] .
  obtain t1 where t1: "(if el_prev (en_links e) = EMPTY
      then wheel_set t (slot_for t (el_tick (en_links e))) (\<lambda>w. w\<lparr>we_head := el_next (en_links e)\<rparr>)
      else entry_set sl t (el_prev (en_links e)) (\<lambda>l. l\<lparr>el_next := el_next (en_links e)\<rparr>)) = Some t1"
    "tm_get sl t1 = (if as = [] then ?g else upd_links ?g (last as) (\<lambda>l. l\<lparr>el_next := first bs\<rparr>))"
    "t1 = t\<lparr>tm_entries := tm_entries t1,
       tm_wheel := (if as = [] then (tm_wheel t)[?i := (tm_wheel t ! ?i)\<lparr>we_head := first bs\<rparr>]
                  else tm_wheel t)\<rparr>"
  proof (cases "as = []")
    case True
    then show ?thesis using that prev l bnd by (simp add: wheel_set_eq)
  next
    case False
    then obtain ep where "?g (last as) = Some ep" using elem last_in_set by blast
    from entry_set_eq [OF laws this, of "\<lambda>l. l\<lparr>el_next := el_next (en_links e)\<rparr>"] obtain s where
      "entry_set sl t (Token (last as)) (\<lambda>l. l\<lparr>el_next := el_next (en_links e)\<rparr>) =
         Some (t\<lparr>tm_entries := s\<rparr>)"
      "sl_get sl s = upd_links ?g (last as) (\<lambda>l. l\<lparr>el_next := el_next (en_links e)\<rparr>)" .
    then show ?thesis using that [of "t\<lparr>tm_entries := s\<rparr>"] False prev l by simp
  qed
  show ?thesis
  proof (cases "bs = []")
    case True
    have "tm_next t1 = tm_next t" by (subst t1(3)) simp
    then have "timer_unlink sl t (en_links e) (Token k) = Some (unlinked t (tm_entries t1) k ?i as bs)"
      using True l(2) t1(3) unfolding timer_unlink_def t1(1) by (auto simp: unlinked_def)
    moreover have "tm_get sl t1 = relink ?g as bs (el_prev (en_links e))"
      using True t1(2) by (simp add: relink_def)
    ultimately show ?thesis using that by blast
  next
    case False
    have "tm_get sl t1 (hd bs) \<noteq> None"
      unfolding t1(2) using elem [of "hd bs"] False
      by auto
    then obtain en where "tm_get sl t1 (hd bs) = Some en" by blast
    from entry_set_eq [OF laws this, of "\<lambda>l. l\<lparr>el_prev := el_prev (en_links e)\<rparr>"] obtain s where
      s: "entry_set sl t1 (Token (hd bs)) (\<lambda>l. l\<lparr>el_prev := el_prev (en_links e)\<rparr>) =
         Some (t1\<lparr>tm_entries := s\<rparr>)"
      "sl_get sl s = upd_links (tm_get sl t1) (hd bs) (\<lambda>l. l\<lparr>el_prev := el_prev (en_links e)\<rparr>)" .
    have fb: "el_next (en_links e) = Token (hd bs)" "first bs = Token (hd bs)" "Token (hd bs) \<noteq> EMPTY"
      using False l(2) nm(2) by (cases bs; auto simp: EMPTY_def)+
    have "tm_next t1 = tm_next t" by (subst t1(3)) simp
    moreover have "t1\<lparr>tm_entries := s\<rparr> = t\<lparr>tm_entries := s,
       tm_wheel := (if as = [] then (tm_wheel t)[?i := (tm_wheel t ! ?i)\<lparr>we_head := first bs\<rparr>]
                  else tm_wheel t)\<rparr>" by (subst t1(3)) simp
    ultimately have "timer_unlink sl t (en_links e) (Token k) = Some (unlinked t s k ?i as bs)"
      using fb s(1) unfolding timer_unlink_def t1(1) by (auto simp: unlinked_def)
    moreover have "sl_get sl s = relink ?g as bs (el_prev (en_links e))"
      using False s(2) t1(2) by (simp add: relink_def)
    ultimately show ?thesis using that by blast
  qed
qed

section \<open>Taking an entry out\<close>

lemma timer_remove_eq:
  assumes "slab_laws sl" "tm_get sl t k = Some e"
  obtains s where "timer_remove sl t (Token k) = Some (en_state e, t\<lparr>tm_entries := s\<rparr>)"
    "sl_get sl s = (tm_get sl t)(k := None)"
  using assms slab_lawsD(4) [OF assms(1), of "tm_entries t" k]
  by (auto simp: timer_remove_def)

text \<open>\<^verbatim>\<open>unlink\<close> then \<^verbatim>\<open>remove\<close>, as \<^verbatim>\<open>cancel_timeout\<close> and \<^verbatim>\<open>poll_to\<close> do.\<close>

definition take_out :: "('s, 'a entry) slab_ops \<Rightarrow> 's timer \<Rightarrow> entry_links \<Rightarrow> token \<Rightarrow> ('a \<times> 's timer) option" where
  "take_out sl t links k = do {t \<leftarrow> timer_unlink sl t links k; timer_remove sl t k}"

lemma pend_eqD: "pend g = pend g' \<Longrightarrow>
   (\<exists>e. g k = Some e \<and> P (el_tick (en_links e))) = (\<exists>e. g' k = Some e \<and> P (el_tick (en_links e)))"
  by (drule fun_cong [where x = k]) (cases "g k"; cases "g' k"; auto simp: pend_def)

lemma first_remove1:
  "distinct ys \<Longrightarrow> (if Token k = first ys then first (tl ys) else first ys) = first (remove1 k ys)
     \<or> first ys = EMPTY"
  by (cases ys) auto

lemma take_out_ok:
  assumes laws: "slab_laws sl" and inv: "wheel_inv sl t L xs ys"
    and e: "tm_get sl t k = Some e"
  obtains t' where "take_out sl t (en_links e) (Token k) = Some (en_state e, t')"
    "wheel_inv sl t' (\<lambda>i. remove1 k (L i)) (remove1 k xs) (remove1 k ys)"
    "pend (tm_get sl t') = (pend (tm_get sl t))(k := None)"
    "map we_next_tick (tm_wheel t') = map we_next_tick (tm_wheel t)"
    "tm_tick t' = tm_tick t" "tm_inner t' = tm_inner t" "tm_tick_ms t' = tm_tick_ms t"
    "tm_mask t' = tm_mask t"
proof -
  let ?i = "unat (slot_for t (el_tick (en_links e)))"
  let ?g = "tm_get sl t"
  have bnd: "?i < length (tm_wheel t)" using slot_bound [OF wheel_invD(1) [OF inv]] .
  have "k \<in> set (L ?i)" using wheel_invD(5) [OF inv] e by blast
  then obtain as bs where L: "L ?i = as @ k # bs" using split_list by metis
  have dis: "distinct (as @ k # bs)" using wheel_invD(3) [OF inv, of ?i] L by simp
  have other: "k \<notin> set (L i)" if "i \<noteq> ?i" for i using that wheel_invD(5) [OF inv, of k i] e by auto
  obtain s where s: "timer_unlink sl t (en_links e) (Token k) = Some (unlinked t s k ?i as bs)"
    "sl_get sl s = relink ?g as bs (el_prev (en_links e))"
    using timer_unlink_eq [OF laws inv e L] .
  let ?u = "unlinked t s k ?i as bs"
  have gu: "tm_get sl ?u = relink ?g as bs (el_prev (en_links e))" by (simp add: unlinked_def s)
  have "tm_get sl ?u k = Some e" 
    unfolding gu using dis e by (subst relink_other) auto
  from timer_remove_eq [OF laws this] obtain s' where
    r: "timer_remove sl ?u (Token k) = Some (en_state e, ?u\<lparr>tm_entries := s'\<rparr>)"
    "sl_get sl s' = (relink ?g as bs (el_prev (en_links e)))(k := None)" unfolding gu .
  let ?t = "?u\<lparr>tm_entries := s'\<rparr>"
  let ?L = "\<lambda>i. remove1 k (L i)"
  have pend: "pend (tm_get sl ?t) = (pend ?g)(k := None)" by (simp add: r)
  have Li: "?L ?i = as @ bs" using dis by (simp add: L remove1_append)
  have dll: "dll (tm_get sl ?t) EMPTY (?L i)" for i
  proof (cases "i = ?i")
    case True
    have "dll (relink ?g as bs (el_prev (en_links e))) EMPTY (as @ bs)"
      using dll_relink [where g = "tm_get sl t" and xs = as and ys = bs and p = EMPTY and k = k and e = e]
        wheel_invD(4) [OF inv, of ?i] L dis e by simp
    then show ?thesis using dis by (simp add: r True Li)
  next
    case False
    have ne: "j \<notin> set as \<and> j \<notin> set bs" if "j \<in> set (L i)" for j
    proof -
      have "j \<notin> set (L ?i)" using that False wheel_invD(5) [OF inv, of j] by auto
      then show ?thesis by (simp add: L)
    qed
    moreover have "k \<notin> set (L i)" using other [OF False] .
    ultimately have ne: "\<And>j. j \<in> set (L i) \<Longrightarrow> j \<notin> set as \<and> j \<notin> set bs \<and> j \<noteq> k" by blast
    then have "dll (tm_get sl ?t) EMPTY (L i) = dll ?g EMPTY (L i)"
      by (intro dll_cong) (simp add: r relink_other)
    then show ?thesis using wheel_invD(4) [OF inv] other [OF False] by (simp add: remove1_idem)
  qed
  have mem: "j \<in> set (?L i) \<longleftrightarrow>
      (\<exists>e. tm_get sl ?t j = Some e \<and> unat (slot_for ?t (el_tick (en_links e))) = i)" for j i
  proof -
    have "(\<exists>e. tm_get sl ?t j = Some e \<and> unat (slot_for ?t (el_tick (en_links e))) = i) \<longleftrightarrow>
       j \<noteq> k \<and> (\<exists>e. ?g j = Some e \<and> unat (slot_for t (el_tick (en_links e))) = i)"
      using pend_eqD [of "relink ?g as bs (el_prev (en_links e))" ?g j
        "\<lambda>tick. unat (slot_for t tick) = i"]
      by (simp add: r unlinked_def)
    also have "\<dots> \<longleftrightarrow> j \<in> set (?L i)"
      using wheel_invD(5) [OF inv, of j i] wheel_invD(3) [OF inv, of i] by auto
    finally show ?thesis by simp
  qed
  have heads: "we_head (tm_wheel ?t ! i) = first (?L i)" if "i < length (tm_wheel ?t)" for i
  proof (cases "i = ?i")
    case True
    have "we_head (tm_wheel t ! ?i) = first (as @ k # bs)" using wheel_invD(6) [OF inv bnd] L by simp
    then show ?thesis unfolding True Li using bnd by (cases as) (auto simp: unlinked_def)
  next
    case False
    then show ?thesis using wheel_invD(6) [OF inv] that other [OF False]
      by (auto simp: unlinked_def remove1_idem split: if_splits)
  qed
  have cur: "?L (unat (slot_for ?t (tm_tick ?t))) = remove1 k xs @ remove1 k ys"
  proof -
    have "k \<in> set xs \<Longrightarrow> k \<notin> set ys" using wheel_inv_parts(5) [OF inv] by blast
    then show ?thesis using wheel_invD(7) [OF inv]
      by (simp add: unlinked_def remove1_append remove1_idem)
  qed
  have "tm_next ?t = first (remove1 k ys)"
  proof (cases "Token k = first ys")
    case True
    then obtain zs where ys: "ys = k # zs" using wheel_invD(2) [OF inv] e by (cases ys) (auto simp: EMPTY_def)
    then have "?i = unat (slot_for t (tm_tick t))"
      using wheel_invD(7) [OF inv] other by (metis in_set_conv_decomp)
    then have "as @ k # bs = xs @ k # zs" using L wheel_invD(7) [OF inv] ys by simp
    then have "bs = zs" using dis by (metis append_Cons_eq_iff distinct_append distinct.simps(2)
      not_distinct_conv_prefix disjoint_iff list.set_intros(1))
    then show ?thesis using ys True wheel_invD(8) [OF inv] by (simp add: unlinked_def)
  next
    case False
    then have "first (remove1 k ys) = first ys" by (cases ys) auto
    then show ?thesis using False wheel_invD(8) [OF inv] by (simp add: unlinked_def)
  qed
  moreover have "tm_get sl ?t usize_max = None"
    using wheel_invD(2) [OF inv] unfolding pend_None [symmetric] pend by simp
  ultimately have "wheel_inv sl ?t ?L (remove1 k xs) (remove1 k ys)"
    unfolding wheel_inv_def using dll mem heads cur wheel_invD(1,3) [OF inv]
    by (simp add: unlinked_def)
  moreover have "map we_next_tick (tm_wheel ?t) = map we_next_tick (tm_wheel t)"
    using bnd by (auto simp: unlinked_def intro: nth_equalityI simp: nth_list_update)
  moreover have "take_out sl t (en_links e) (Token k) = Some (en_state e, ?t)"
    by (simp add: take_out_def s(1) r(1))
  ultimately show ?thesis using that [of ?t] pend by (simp add: unlinked_def)
qed

section \<open>Scheduling the wake-up\<close>

definition woken :: "tick \<Rightarrow> timer_inner lazycell \<Rightarrow> timer_inner lazycell" where
  "woken tick c =
     (case lc_inner c of
        None \<Rightarrow> c
      | Some inner \<Rightarrow>
          if ti_wakeup_state inner \<le> tick then c
          else \<lparr>lc_inner = Some (inner\<lparr>ti_wakeup_state := tick,
             ti_unparks := Suc (ti_unparks inner)\<rparr>)\<rparr>)"

lemma schedule_readiness_eq:
  "schedule_readiness t tick = Some (t\<lparr>tm_inner := woken tick (tm_inner t)\<rparr>)"
  by (simp add: schedule_readiness_def woken_def lc_borrow_def cas_loop_alone schedule_body_def
      split: option.split)

lemma woken_word:
  "lc_inner c = Some inner \<Longrightarrow>
     \<exists>inner'. lc_inner (woken tick c) = Some inner' \<and>
       ti_wakeup_state inner' = min tick (ti_wakeup_state inner) \<and>
       ti_set_readiness inner' = ti_set_readiness inner \<and>
       ti_registration inner' = ti_registration inner"
  by (auto simp: woken_def min_def)

lemma woken_None [simp]: "lc_inner (woken tick c) = None \<longleftrightarrow> lc_inner c = None"
  by (simp add: woken_def split: option.split)

section \<open>Inserting\<close>

lemma wheel_inv_inner [simp]: "wheel_inv sl (t\<lparr>tm_inner := x\<rparr>) L xs ys = wheel_inv sl t L xs ys"
  by (simp add: wheel_inv_def)

lemma dll_link_head:
  assumes "dll g EMPTY ks" "distinct (k # ks)" "g k = None"
  shows "dll (if ks = [] then g(k \<mapsto> entry_new st tick (first ks))
     else upd_links (g(k \<mapsto> entry_new st tick (first ks))) (hd ks) (\<lambda>l. l\<lparr>el_prev := Token k\<rparr>))
     EMPTY (k # ks)"
proof (cases "ks = []")
  case True
  then show ?thesis by (simp add: entry_new_def)
next
  case False
  let ?g = "g(k \<mapsto> entry_new st tick (first ks))"
  have "dll ?g EMPTY ks" using assms(1,2) by simp
  then have "dll (upd_links ?g (hd ks) (\<lambda>l. l\<lparr>el_prev := Token k\<rparr>)) (Token k) ks"
    using dll_prev assms(2) False by fastforce
  moreover have "k \<noteq> hd ks" using assms(2) False by (cases ks) auto
  ultimately show ?thesis using False by (simp add: entry_new_def)
qed

lemma timer_insert_ok:
  fixes tick :: tick and L :: "nat \<Rightarrow> usize list"
  assumes laws: "slab_laws sl" and inv: "wheel_inv sl t L xs ys"
  defines "i \<equiv> unat (slot_for t tick)"
  assumes ins: "sl_insert sl (tm_entries t) (entry_new st tick (first (L i))) = Some (k, s0)"
  obtains t' where "timer_insert sl t tick st = Some (\<lparr>to_token = Token k, to_tick = tick\<rparr>, t')"
    "wheel_inv sl t' (L(i := k # L i))
       (if i = unat (slot_for t (tm_tick t)) then k # xs else xs) ys"
    "tm_get sl t k = None" "pend (tm_get sl t') = (pend (tm_get sl t))(k \<mapsto> (tick, st))"
    "map we_next_tick (tm_wheel t') =
       (map we_next_tick (tm_wheel t))[i := min tick (we_next_tick (tm_wheel t ! i))]"
    "tm_tick t' = tm_tick t" "tm_inner t' = woken tick (tm_inner t)"
    "tm_tick_ms t' = tm_tick_ms t" "tm_mask t' = tm_mask t"
proof -
  let ?g = "tm_get sl t" and ?e = "entry_new st tick (first (L i))"
  have bnd: "i < length (tm_wheel t)" unfolding i_def using slot_bound [OF wheel_invD(1) [OF inv]] .
  note s0 = slab_lawsD(2) [OF laws ins]
  have fresh: "k \<notin> set (L j)" for j using wheel_invD(5) [OF inv] s0 by auto
  have nm: "usize_max \<notin> set (L i)" using wheel_inv_not_max [OF inv] .
  have head: "we_head (tm_wheel t ! i) = first (L i)" using wheel_invD(6) [OF inv bnd] .
  define g' where "g' = (if L i = [] then ?g(k \<mapsto> ?e)
     else upd_links (?g(k \<mapsto> ?e)) (hd (L i)) (\<lambda>l. l\<lparr>el_prev := Token k\<rparr>))"
  obtain s where s: "(if we_head (tm_wheel t ! i) \<noteq> EMPTY
      then entry_set sl (t\<lparr>tm_entries := s0\<rparr>) (we_head (tm_wheel t ! i)) (\<lambda>l. l\<lparr>el_prev := Token k\<rparr>)
      else Some (t\<lparr>tm_entries := s0\<rparr>)) = Some (t\<lparr>tm_entries := s\<rparr>)" "sl_get sl s = g'"
  proof (cases "L i")
    case Nil
    then show ?thesis using that [of s0] s0 head by (simp add: g'_def)
  next
    case (Cons h hs)
    then have "h \<noteq> k" using fresh [of i] by auto
    moreover obtain eh where "?g h = Some eh" using wheel_invD(4) [OF inv, of i] Cons by auto
    ultimately have "tm_get sl (t\<lparr>tm_entries := s0\<rparr>) h = Some eh" using s0 by simp
    from entry_set_eq [OF laws this, of "\<lambda>l. l\<lparr>el_prev := Token k\<rparr>"] obtain s where
      "entry_set sl (t\<lparr>tm_entries := s0\<rparr>) (Token h) (\<lambda>l. l\<lparr>el_prev := Token k\<rparr>) =
         Some (t\<lparr>tm_entries := s0, tm_entries := s\<rparr>)"
      "sl_get sl s = upd_links (?g(k \<mapsto> ?e)) h (\<lambda>l. l\<lparr>el_prev := Token k\<rparr>)"
      using s0 by auto
    then show ?thesis using that [of s] head Cons nm by (auto simp: g'_def EMPTY_def)
  qed
  let ?w = "(tm_wheel t)[i := \<lparr>we_next_tick = min tick (we_next_tick (tm_wheel t ! i)), we_head = Token k\<rparr>]"
  define t' where "t' = t\<lparr>tm_entries := s, tm_wheel := ?w\<rparr>"
  have i': "unat (tick AND tm_mask t) = i" by (simp add: i_def slot_for_def and.commute)
  have run: "timer_insert sl t tick st =
      Some (\<lparr>to_token = Token k, to_tick = tick\<rparr>, t'\<lparr>tm_inner := woken tick (tm_inner t)\<rparr>)"
    using bnd ins s(1) head
    by (simp add: timer_insert_def i' wheel_get_def Let_def wheel_set_def schedule_readiness_eq t'_def)
  have pend: "pend g' = (pend ?g)(k \<mapsto> (tick, st))"
    by (simp add: g'_def entry_new_def)
  have dis: "distinct ((L(i := k # L i)) j)" for j using fresh [of i] wheel_invD(3) [OF inv] by simp
  have dll: "dll g' EMPTY ((L(i := k # L i)) j)" for j
  proof (cases "j = i")
    case True
    then show ?thesis using dll_link_head [of ?g "L i" k st tick] wheel_invD(4) [OF inv, of i] s0 dis [of i]
      by (simp add: g'_def)
  next
    case False
    have "L i \<noteq> [] \<Longrightarrow> hd (L i) \<notin> set (L j)"
      using wheel_invD(5) [OF inv, of "hd (L i)"] False hd_in_set [of "L i"] by auto
    then have "dll g' EMPTY (L j) = dll ?g EMPTY (L j)"
      unfolding g'_def using fresh [of j] by simp
    then show ?thesis using wheel_invD(4) [OF inv] False by simp
  qed
  have mem: "j \<in> set ((L(i := k # L i)) n) \<longleftrightarrow>
      (\<exists>e. g' j = Some e \<and> unat (slot_for t (el_tick (en_links e))) = n)" for j n
  proof -
    have "(\<exists>e. g' j = Some e \<and> unat (slot_for t (el_tick (en_links e))) = n) =
      (\<exists>e. (?g(k \<mapsto> ?e)) j = Some e \<and> unat (slot_for t (el_tick (en_links e))) = n)"
      using pend_eqD [of g' "?g(k \<mapsto> ?e)" j "\<lambda>tick. unat (slot_for t tick) = n"] pend
      by (simp add: entry_new_def)
    also have "\<dots> \<longleftrightarrow> j \<in> set ((L(i := k # L i)) n)"
      using wheel_invD(5) [OF inv, of j n] fresh [of n] by (auto simp: entry_new_def i_def)
    finally show ?thesis by simp
  qed
  have heads: "we_head (?w ! j) = first ((L(i := k # L i)) j)" if "j < length (tm_wheel t)" for j
    using that wheel_invD(6) [OF inv that] by (simp add: nth_list_update)
  have cur: "(L(i := k # L i)) (unat (slot_for t (tm_tick t))) =
      (if i = unat (slot_for t (tm_tick t)) then k # xs else xs) @ ys"
    using wheel_invD(7) [OF inv] by (cases "unat (slot_for t (tm_tick t)) = i") simp_all
  have "g' usize_max = None"
    using wheel_invD(2) [OF inv] s0 unfolding pend_None [symmetric] pend by auto
  then have "wheel_inv sl t' (L(i := k # L i)) (if i = unat (slot_for t (tm_tick t)) then k # xs else xs) ys"
    unfolding wheel_inv_def t'_def using dis dll mem heads cur wheel_invD(1,8) [OF inv]
    by (simp add: s(2) del: fun_upd_apply)
  then have inv': "wheel_inv sl (t'\<lparr>tm_inner := woken tick (tm_inner t)\<rparr>) (L(i := k # L i))
      (if i = unat (slot_for t (tm_tick t)) then k # xs else xs) ys" by simp
  show ?thesis
    by (rule that [OF run inv']) (use s0 pend in \<open>simp_all add: t'_def s(2) map_update\<close>)
qed

end
