(* ===== verification/Timer_Poll.thy ===== *)
theory Timer_Poll
  imports Timer_Inv
begin

text \<open>
  The cursor of the timer: one step of the loop of \<^verbatim>\<open>poll_to\<close>, and what the whole loop
  does. Next to the invariant of the wheel run the bounds on \<^verbatim>\<open>next_tick\<close> of the slots and
  the promise that nothing due is behind the cursor.
\<close>

section \<open>Bounds carried along\<close>

type_synonym 'a pending = "usize \<rightharpoonup> tick \<times> 'a"

abbreviation pending :: "('s, 'a entry) slab_ops \<Rightarrow> 's timer \<Rightarrow> 'a pending" where
  "pending sl t \<equiv> pend (tm_get sl t)"

abbreviation slot_ticks :: "'s timer \<Rightarrow> tick list" where
  "slot_ticks t \<equiv> map we_next_tick (tm_wheel t)"

abbreviation cur_slot :: "'s timer \<Rightarrow> nat" where
  "cur_slot t \<equiv> unat (slot_for t (tm_tick t))"

text \<open>The tick kept in a slot bounds its timeouts from below, but for the keys in \<open>S\<close>.\<close>

definition tick_bound :: "('s, 'a entry) slab_ops \<Rightarrow> 's timer \<Rightarrow> usize set \<Rightarrow> bool" where
  "tick_bound sl t S \<longleftrightarrow>
     (\<forall>k tick a. pending sl t k = Some (tick, a) \<and> k \<notin> S \<longrightarrow>
        we_next_tick (tm_wheel t ! unat (slot_for t tick)) \<le> tick)"

text \<open>Every timeout is ahead: of a later tick, or of this one and not yet passed.\<close>

definition ahead :: "('s, 'a entry) slab_ops \<Rightarrow> 's timer \<Rightarrow> usize list \<Rightarrow> bool" where
  "ahead sl t ys \<longleftrightarrow>
     (\<forall>k tick a. pending sl t k = Some (tick, a) \<longrightarrow>
        tm_tick t < tick \<or> tick = tm_tick t \<and> k \<in> set ys)"

lemma tick_bound_mono: "tick_bound sl t S \<Longrightarrow> S \<subseteq> S' \<Longrightarrow> tick_bound sl t S'"
  unfolding tick_bound_def by blast

lemma aheadD:
  assumes "ahead sl t ys" "pending sl t k = Some (tick, a)" "\<not> tm_tick t < tick"
  shows "tick = tm_tick t" "k \<in> set ys"
  using assms unfolding ahead_def by blast+

lemma pending_slot:
  assumes "wheel_inv sl t L xs ys" "pending sl t k = Some (tick, a)"
  shows "k \<in> set (L (unat (slot_for t tick)))"
  using assms(2) wheel_invD(5) [OF assms(1)] by (auto simp: pend_def)

lemma slot_pending:
  assumes "wheel_inv sl t L xs ys" "k \<in> set (L i)"
  obtains tick a where "pending sl t k = Some (tick, a)" "unat (slot_for t tick) = i"
  using assms(2) wheel_invD(5) [OF assms(1)] by (auto simp: pend_def)

section \<open>Steps of the loop\<close>

lemma wheel_inv_next_tick:
  assumes "wheel_inv sl t L xs ys"
  shows "wheel_inv sl (t\<lparr>tm_wheel := (tm_wheel t)[i := (tm_wheel t ! i)\<lparr>we_next_tick := v\<rparr>]\<rparr>) L xs ys"
  using assms unfolding wheel_inv_def
  by (cases "i < length (tm_wheel t)") (auto simp: nth_list_update list_update_beyond)

lemma poll_loop_stop: "target < tm_tick t \<Longrightarrow> poll_to_loop sl target t = Some (Inr t)"
  by (subst poll_to_loop.simps) (simp add: not_le)

lemma first_Nil [simp]: "first [] = EMPTY"
  by simp

lemma poll_loop_advance:
  assumes inv: "wheel_inv sl t L xs []" and le: "tm_tick t \<le> target" "target < u64_max"
  obtains t' where "poll_to_loop sl target t = poll_to_loop sl target t'"
    "wheel_inv sl t' L [] (L (cur_slot t'))" "tm_tick t' = tm_tick t + 1"
    "unat (tm_tick t') = Suc (unat (tm_tick t))" "tm_entries t' = tm_entries t"
    "tm_inner t' = tm_inner t" "tm_mask t' = tm_mask t" "tm_tick_ms t' = tm_tick_ms t"
    "tm_wheel t' = (if L (cur_slot t') = [] then (tm_wheel t)[cur_slot t' :=
       (tm_wheel t ! cur_slot t')\<lparr>we_next_tick := TICK_MAX\<rparr>] else tm_wheel t)"
proof -
  let ?i = "unat (slot_for t (tm_tick t + 1))"
  have lt: "unat (tm_tick t) + 1 < 2 ^ 64"
    using le by (simp add: word_le_nat_alt word_less_nat_alt unat_u64_max)
  then have add: "checked_add (tm_tick t) 1 = Some (tm_tick t + 1)" by (simp add: checked_add_def)
  have suc: "unat (tm_tick t + 1) = Suc (unat (tm_tick t))"
    using lt by (simp add: unat_word_ariths)
  have bnd: "?i < length (tm_wheel t)" using slot_bound [OF wheel_invD(1) [OF inv]] .
  have head: "we_head (tm_wheel t ! ?i) = first (L ?i)" using wheel_invD(6) [OF inv bnd] .
  have emp: "(first (L ?i) = EMPTY) = (L ?i = [])" using wheel_inv_not_max [OF inv] by simp
  let ?t = "t\<lparr>tm_tick := tm_tick t + 1, tm_next := first (L ?i)\<rparr>"
  let ?w = "if L ?i = [] then (tm_wheel t)[?i := (tm_wheel t ! ?i)\<lparr>we_next_tick := TICK_MAX\<rparr>] else tm_wheel t"
  have moved: "wheel_inv sl ?t L [] (L ?i)"
    using inv unfolding wheel_inv_def by simp
  have run: "poll_to_loop sl target t = poll_to_loop sl target (?t\<lparr>tm_wheel := ?w\<rparr>)"
    using le(1) wheel_invD(8) [OF inv] add bnd head emp
    by (subst poll_to_loop.simps) (simp add: wheel_get_def wheel_set_def Let_def)
  have "wheel_inv sl (?t\<lparr>tm_wheel := ?w\<rparr>) L [] (L ?i)"
    using wheel_inv_next_tick [OF moved, of ?i TICK_MAX] moved by (cases "L ?i = []") simp_all
  then show ?thesis by (intro that [OF run]) (simp_all add: suc)
qed

text \<open>Reaching the head of the slot resets its tick.\<close>

definition reset :: "'s timer \<Rightarrow> usize list \<Rightarrow> 's timer" where
  "reset t xs = t\<lparr>tm_wheel := (if xs = [] then (tm_wheel t)[cur_slot t :=
     (tm_wheel t ! cur_slot t)\<lparr>we_next_tick := TICK_MAX\<rparr>] else tm_wheel t)\<rparr>"

lemma wheel_inv_reset: "wheel_inv sl t L xs ys \<Longrightarrow> wheel_inv sl (reset t as) L xs ys"
  using wheel_inv_next_tick [of sl t L xs ys "cur_slot t" TICK_MAX] by (simp add: reset_def)

lemma reset_simps [simp]:
  "tm_entries (reset t xs) = tm_entries t" "tm_tick (reset t xs) = tm_tick t"
  "tm_next (reset t xs) = tm_next t" "tm_inner (reset t xs) = tm_inner t"
  "tm_mask (reset t xs) = tm_mask t" "tm_tick_ms (reset t xs) = tm_tick_ms t"
  "slot_for (reset t xs) = slot_for t" "length (tm_wheel (reset t xs)) = length (tm_wheel t)"
  by (simp_all add: reset_def)

lemma poll_loop_visit:
  assumes inv: "wheel_inv sl t L xs (k # zs)" and le: "tm_tick t \<le> target"
    and e: "tm_get sl t k = Some e"
  shows "poll_to_loop sl target t =
     (if el_tick (en_links e) \<le> tm_tick t
      then map_option Inl (take_out sl (reset t xs) (en_links e) (Token k))
      else poll_to_loop sl target ((reset t xs)\<lparr>tm_wheel := (tm_wheel (reset t xs))[cur_slot t :=
        (tm_wheel (reset t xs) ! cur_slot t)\<lparr>we_next_tick :=
           min (we_next_tick (tm_wheel (reset t xs) ! cur_slot t)) (el_tick (en_links e))\<rparr>],
        tm_next := el_next (en_links e)\<rparr>))"
proof -
  have bnd: "cur_slot t < length (tm_wheel t)" using slot_bound [OF wheel_invD(1) [OF inv]] .
  have nm: "Token k \<noteq> EMPTY" using wheel_inv_parts(2) [OF inv] by (auto simp: EMPTY_def)
  have nx: "tm_next t = Token k" using wheel_invD(8) [OF inv] by simp
  have "distinct (xs @ k # zs)" using wheel_invD(3,7) [OF inv] by metis
  then have head: "(Token k = we_head (tm_wheel t ! cur_slot t)) = (xs = [])"
    using wheel_invD(6) [OF inv bnd] wheel_invD(7) [OF inv] by (cases xs) auto
  have r: "(if Token k = we_head (tm_wheel t ! cur_slot t)
      then wheel_set t (slot_for t (tm_tick t)) (\<lambda>w. w\<lparr>we_next_tick := TICK_MAX\<rparr>) else Some t) =
    Some (reset t xs)"
    using bnd by (simp add: head reset_def wheel_set_def)
  show ?thesis
    using le nm bnd e
    by (subst poll_to_loop.simps)
      (simp add: nx Let_def wheel_get_def r take_out_def wheel_set_def
        case_prod_beta split: Option.bind_splits)
qed

lemma tick_bound_reset:
  assumes "wheel_inv sl t L xs ys" "tick_bound sl t (set ys)"
  shows "tick_bound sl (reset t xs) (set ys)"
proof (cases "xs = []")
  case True
  have "we_next_tick (tm_wheel (reset t xs) ! unat (slot_for t tick)) \<le> tick"
    if p: "pending sl t k = Some (tick, a)" "k \<notin> set ys" for k tick a
  proof -
    have "unat (slot_for t tick) \<noteq> cur_slot t"
      using pending_slot [OF assms(1) p(1)] p(2) wheel_invD(7) [OF assms(1)] True by auto
    then show ?thesis using assms(2) p by (auto simp: tick_bound_def reset_def)
  qed
  then show ?thesis by (auto simp: tick_bound_def)
next
  case False
  then show ?thesis using assms(2) by (simp add: reset_def tick_bound_def)
qed

lemma poll_loop_pass:
  assumes inv: "wheel_inv sl t L xs (k # zs)" and le: "tm_tick t \<le> target"
    and p: "pending sl t k = Some (tick, a)" and late: "tm_tick t < tick"
  obtains t' where "poll_to_loop sl target t = poll_to_loop sl target t'"
    "wheel_inv sl t' L (xs @ [k]) zs" "tm_tick t' = tm_tick t"
    "tm_entries t' = tm_entries t" "tm_inner t' = tm_inner t" "tm_mask t' = tm_mask t"
    "tm_tick_ms t' = tm_tick_ms t"
    "tick_bound sl t (set (k # zs)) \<Longrightarrow> tick_bound sl t' (set zs)"
    "ahead sl t (k # zs) \<Longrightarrow> ahead sl t' zs"
proof -
  obtain e where e: "tm_get sl t k = Some e" "el_tick (en_links e) = tick"
    using p by (auto simp: pend_def)
  let ?i = "cur_slot t" and ?r = "reset t xs"
  let ?v = "min (we_next_tick (tm_wheel ?r ! ?i)) tick"
  let ?u = "?r\<lparr>tm_wheel := (tm_wheel ?r)[?i := (tm_wheel ?r ! ?i)\<lparr>we_next_tick := ?v\<rparr>]\<rparr>"
  let ?t = "?u\<lparr>tm_next := el_next (en_links e)\<rparr>"
  have bnd: "?i < length (tm_wheel t)" using slot_bound [OF wheel_invD(1) [OF inv]] .
  have run: "poll_to_loop sl target t = poll_to_loop sl target ?t"
    using poll_loop_visit [OF inv le e(1)] e(2) late [unfolded not_le [symmetric]] by (simp only: if_False)
  have "el_next (en_links e) = first zs"
    using dll_entry_prev(2) [of "tm_get sl t" EMPTY xs k zs e] wheel_invD(4) [OF inv, of ?i]
      wheel_invD(7) [OF inv] e(1) by simp
  then have inv': "wheel_inv sl ?t L (xs @ [k]) zs"
    using wheel_inv_next_tick [OF wheel_inv_reset [OF inv]] unfolding wheel_inv_def by simp
  have "tick_bound sl ?t (set zs)" if b: "tick_bound sl t (set (k # zs))"
  proof -
    have "we_next_tick (tm_wheel ?t ! unat (slot_for t u)) \<le> u"
      if q: "pending sl t j = Some (u, c)" "j \<notin> set zs" for j u c
    proof (cases "j = k")
      case True
      have "unat (slot_for t tick) = ?i" "u = tick"
        using wheel_invD(5) [OF inv, of k ?i] wheel_invD(7) [OF inv] e True q p by auto
      then show ?thesis using bnd by simp
    next
      case False
      have "we_next_tick (tm_wheel ?r ! unat (slot_for t u)) \<le> u"
        using tick_bound_reset [OF inv b] q False by (auto simp: tick_bound_def)
      then show ?thesis using bnd by (simp add: nth_list_update min.coboundedI1)
    qed
    then show ?thesis unfolding tick_bound_def by auto
  qed
  moreover have "ahead sl ?t zs" if "ahead sl t (k # zs)"
  proof -
    have "j \<in> set zs" "u = tm_tick t"
      if q: "pending sl t j = Some (u, c)" "\<not> tm_tick t < u" for j u c
      using aheadD [OF \<open>ahead sl t (k # zs)\<close> q] p q late by auto
    then show ?thesis unfolding ahead_def by auto
  qed
  ultimately show ?thesis by (intro that [OF run inv']) simp_all
qed

lemma poll_loop_due:
  assumes laws: "slab_laws sl" and inv: "wheel_inv sl t L xs (k # zs)" and le: "tm_tick t \<le> target"
    and p: "pending sl t k = Some (tick, a)" and due: "tick \<le> tm_tick t"
  obtains t' where "poll_to_loop sl target t = Some (Inl (a, t'))"
    "wheel_inv sl t' (\<lambda>i. remove1 k (L i)) xs zs" "pending sl t' = (pending sl t)(k := None)"
    "tm_tick t' = tm_tick t" "tm_inner t' = tm_inner t" "tm_mask t' = tm_mask t"
    "tm_tick_ms t' = tm_tick_ms t"
    "tick_bound sl t (set (k # zs)) \<Longrightarrow> tick_bound sl t' (set zs)"
    "ahead sl t (k # zs) \<Longrightarrow> ahead sl t' zs"
proof -
  obtain e where e: "tm_get sl t k = Some e" "el_tick (en_links e) = tick" "en_state e = a"
    using p by (auto simp: pend_def)
  have "tm_get sl (reset t xs) k = Some e" using e(1) by simp
  from take_out_ok [OF laws wheel_inv_reset [OF inv] this] obtain t' where t':
    "take_out sl (reset t xs) (en_links e) (Token k) = Some (en_state e, t')"
    "wheel_inv sl t' (\<lambda>i. remove1 k (L i)) (remove1 k xs) (remove1 k (k # zs))"
    "pending sl t' = (pending sl t)(k := None)"
    "slot_ticks t' = slot_ticks (reset t xs)"
    "tm_tick t' = tm_tick t" "tm_inner t' = tm_inner t" "tm_tick_ms t' = tm_tick_ms t"
    "tm_mask t' = tm_mask t" by (metis reset_simps)
  have run: "poll_to_loop sl target t = Some (Inl (a, t'))"
    using poll_loop_visit [OF inv le e(1)] due e t'(1) by simp
  have "k \<notin> set xs" using wheel_inv_parts(5) [OF inv] by auto
  then have inv': "wheel_inv sl t' (\<lambda>i. remove1 k (L i)) xs zs"
    using t'(2) by (simp add: remove1_idem)
  have bound: "tick_bound sl t' (set zs)" if b: "tick_bound sl t (set (k # zs))"
  proof -
    have "we_next_tick (tm_wheel t' ! unat (slot_for t' u)) \<le> u"
      if q: "pending sl t' j = Some (u, c)" "j \<notin> set zs" for j u c
    proof -
      have "we_next_tick (tm_wheel (reset t xs) ! unat (slot_for t u)) \<le> u"
        using tick_bound_reset [OF inv b] q by (auto simp: tick_bound_def t'(3) split: if_splits)
      moreover have "slot_for t' = slot_for t" by (simp add: slot_for_def t'(8) fun_eq_iff)
      moreover have "unat (slot_for t u) < length (tm_wheel t)"
        using slot_bound [OF wheel_invD(1) [OF inv]] .
      moreover have "we_next_tick (tm_wheel t' ! i) = we_next_tick (tm_wheel (reset t xs) ! i)"
        if "i < length (tm_wheel t)" for i
        using t'(4) that by (metis length_map nth_map reset_simps(8))
      ultimately show ?thesis by simp
    qed
    then show ?thesis by (auto simp: tick_bound_def)
  qed
  have "ahead sl t' zs" if "ahead sl t (k # zs)"
    using that by (auto simp: ahead_def t')
  then show ?thesis by (intro that [OF run inv' t'(3) t'(5,6,8,7)]) (simp_all add: bound)
qed

lemma poll_loop_next:
  assumes inv: "wheel_inv sl t L xs []" and le: "tm_tick t \<le> target" "target < u64_max"
  obtains t' where "poll_to_loop sl target t = poll_to_loop sl target t'"
    "wheel_inv sl t' L [] (L (cur_slot t'))" "tm_tick t' = tm_tick t + 1"
    "unat (tm_tick t') = Suc (unat (tm_tick t))" "tm_entries t' = tm_entries t"
    "tm_inner t' = tm_inner t" "tm_mask t' = tm_mask t" "tm_tick_ms t' = tm_tick_ms t"
    "tick_bound sl t {} \<Longrightarrow> tick_bound sl t' {}"
    "ahead sl t [] \<Longrightarrow> ahead sl t' (L (cur_slot t'))"
proof -
  obtain t' where t': "poll_to_loop sl target t = poll_to_loop sl target t'"
    "wheel_inv sl t' L [] (L (cur_slot t'))" "tm_tick t' = tm_tick t + 1"
    "unat (tm_tick t') = Suc (unat (tm_tick t))" "tm_entries t' = tm_entries t"
    "tm_inner t' = tm_inner t" "tm_mask t' = tm_mask t" "tm_tick_ms t' = tm_tick_ms t"
    "tm_wheel t' = (if L (cur_slot t') = [] then (tm_wheel t)[cur_slot t' :=
       (tm_wheel t ! cur_slot t')\<lparr>we_next_tick := TICK_MAX\<rparr>] else tm_wheel t)"
    using poll_loop_advance [OF assms] .
  have sf: "slot_for t' = slot_for t" by (simp add: slot_for_def t'(7) fun_eq_iff)
  have "tick_bound sl t' {}" if b: "tick_bound sl t {}"
  proof -
    have "we_next_tick (tm_wheel t' ! unat (slot_for t u)) \<le> u"
      if q: "pending sl t k = Some (u, c)" for k u c
    proof -
      have "L (cur_slot t') = [] \<Longrightarrow> unat (slot_for t u) \<noteq> cur_slot t'"
        using pending_slot [OF inv q] by auto
      moreover have "we_next_tick (tm_wheel t ! unat (slot_for t u)) \<le> u"
        using b q unfolding tick_bound_def by blast
      ultimately show ?thesis by (cases "L (cur_slot t') = []") (auto simp: t'(9))
    qed
    then show ?thesis by (simp add: tick_bound_def sf t'(5))
  qed
  moreover have "ahead sl t' (L (cur_slot t'))" if b: "ahead sl t []"
  proof -
    have "tm_tick t' < u \<or> u = tm_tick t' \<and> k \<in> set (L (cur_slot t'))"
      if q: "pending sl t k = Some (u, c)" for k u c
    proof -
      have "unat (tm_tick t) < unat u" using b q by (auto simp: ahead_def word_less_nat_alt)
      then have "tm_tick t' \<le> u" using t'(4) by (simp add: word_le_nat_alt)
      then show ?thesis using pending_slot [OF inv q] sf by (auto simp: le_less)
    qed
    then show ?thesis by (simp add: ahead_def t'(5))
  qed
  ultimately show ?thesis using that t'(1-8) by blast
qed

section \<open>The whole loop\<close>

text \<open>
  What the loop of \<^verbatim>\<open>poll_to\<close> leaves behind, from a timer \<open>t\<close> with lists \<open>L\<close> and the part
  \<open>ys\<close> of the current slot ahead of the cursor.
\<close>

definition poll_result ::
  "('s, 'a entry) slab_ops \<Rightarrow> tick \<Rightarrow> 's timer \<Rightarrow> (nat \<Rightarrow> usize list) \<Rightarrow> usize list \<Rightarrow>
   ('a \<times> 's timer) + 's timer \<Rightarrow> bool" where
  "poll_result sl target t L ys r \<longleftrightarrow>
     (case r of
        Inr t' \<Rightarrow> \<exists>xs' ys'. wheel_inv sl t' L xs' ys' \<and> pending sl t' = pending sl t \<and>
          unat (tm_tick t') = Suc (unat target) \<and> tm_inner t' = tm_inner t \<and> tm_mask t' = tm_mask t \<and>
          tm_tick_ms t' = tm_tick_ms t \<and>
          (tick_bound sl t (set ys) \<longrightarrow> tick_bound sl t' {}) \<and>
          (ahead sl t ys \<longrightarrow> ahead sl t' ys')
      | Inl (a, t') \<Rightarrow> \<exists>k tick xs' ys'. pending sl t k = Some (tick, a) \<and>
          tick \<le> tm_tick t' \<and> tm_tick t \<le> tm_tick t' \<and> tm_tick t' \<le> target \<and>
          wheel_inv sl t' (\<lambda>i. remove1 k (L i)) xs' ys' \<and>
          pending sl t' = (pending sl t)(k := None) \<and>
          tm_inner t' = tm_inner t \<and> tm_mask t' = tm_mask t \<and> tm_tick_ms t' = tm_tick_ms t \<and>
          (tick_bound sl t (set ys) \<longrightarrow> tick_bound sl t' (set ys')) \<and>
          (ahead sl t ys \<longrightarrow> ahead sl t' ys'))"

lemma poll_result_step:
  assumes "poll_result sl target t' L ys' r" "pending sl t' = pending sl t"
    "tm_tick t \<le> tm_tick t'" "tm_inner t' = tm_inner t" "tm_mask t' = tm_mask t"
    "tm_tick_ms t' = tm_tick_ms t"
    "tick_bound sl t (set ys) \<Longrightarrow> tick_bound sl t' (set ys')"
    "ahead sl t ys \<Longrightarrow> ahead sl t' ys'"
  shows "poll_result sl target t L ys r"
proof (cases r)
  case (Inl p)
  obtain a u where p: "p = (a, u)" by (cases p)
  obtain k tick xs zs where q: "pending sl t' k = Some (tick, a)" "tick \<le> tm_tick u"
    "tm_tick t' \<le> tm_tick u" "tm_tick u \<le> target" "wheel_inv sl u (\<lambda>i. remove1 k (L i)) xs zs"
    "pending sl u = (pending sl t')(k := None)" "tm_inner u = tm_inner t'" "tm_mask u = tm_mask t'"
    "tm_tick_ms u = tm_tick_ms t'" "tick_bound sl t' (set ys') \<longrightarrow> tick_bound sl u (set zs)"
    "ahead sl t' ys' \<longrightarrow> ahead sl u zs"
    using assms(1) unfolding poll_result_def Inl p by auto
  have "tm_tick t \<le> tm_tick u" using assms(3) q(3) by simp
  then show ?thesis unfolding poll_result_def Inl p sum.case prod.case
    using q assms(2,4-8) by (intro exI [of _ k] exI [of _ tick] exI [of _ xs] exI [of _ zs]) simp
next
  case (Inr u)
  then show ?thesis using assms unfolding poll_result_def by force
qed

lemma poll_to_loop_ok:
  assumes "slab_laws sl" "wheel_inv sl t L xs ys" "tm_tick t \<le> target" "target < u64_max"
  shows "\<exists>r. poll_to_loop sl target t = Some r \<and> poll_result sl target t L ys r"
  using assms(2,3)
proof (induction "(unat target - unat (tm_tick t), length ys)" arbitrary: t xs ys
    rule: wf_induct_rule [OF wf_lex_prod [OF wf_less_than wf_less_than]])
  case (1 t ys xs)
  show ?case
  proof (cases ys)
    case Nil
    then obtain t' where t': "poll_to_loop sl target t = poll_to_loop sl target t'"
      "wheel_inv sl t' L [] (L (cur_slot t'))" "tm_tick t' = tm_tick t + 1"
      "unat (tm_tick t') = Suc (unat (tm_tick t))" "tm_entries t' = tm_entries t"
      "tm_inner t' = tm_inner t" "tm_mask t' = tm_mask t" "tm_tick_ms t' = tm_tick_ms t"
      "tick_bound sl t {} \<Longrightarrow> tick_bound sl t' {}"
      "ahead sl t [] \<Longrightarrow> ahead sl t' (L (cur_slot t'))"
      using poll_loop_next [of sl t L xs target] "1.prems" assms(4) by blast
    show ?thesis
    proof (cases "tm_tick t' \<le> target")
      case True
      have "((unat target - unat (tm_tick t'), length (L (cur_slot t'))),
          unat target - unat (tm_tick t), length ys) \<in> less_than <*lex*> less_than"
        using True t'(4) by (auto simp: word_le_nat_alt)
      from "1.hyps" [OF this t'(2) True] obtain r where
        r: "poll_to_loop sl target t' = Some r" "poll_result sl target t' L (L (cur_slot t')) r"
        by blast
      have "poll_result sl target t L ys r"
      proof (rule poll_result_step [OF r(2)])
        show "tm_tick t \<le> tm_tick t'" using t'(4) by (simp add: word_le_nat_alt)
        show "tick_bound sl t (set ys) \<Longrightarrow> tick_bound sl t' (set (L (cur_slot t')))"
          using t'(9) Nil by (auto intro: tick_bound_mono)
        show "ahead sl t ys \<Longrightarrow> ahead sl t' (L (cur_slot t'))" using t'(10) Nil by blast
      qed (simp_all only: t'(5-8))
      then show ?thesis using t'(1) r(1) by auto
    next
      case False
      then have "poll_to_loop sl target t = Some (Inr t')" using poll_loop_stop t'(1) by (simp add: not_le)
      moreover have exit: "unat (tm_tick t') = Suc (unat target)"
        using False t'(4) "1.prems"(2) by (simp add: word_le_nat_alt)
      moreover have "poll_result sl target t L ys (Inr t')"
        unfolding poll_result_def sum.case using exit t'(2,5-10) Nil
        by (intro exI [of _ "[]"] exI [of _ "L (cur_slot t')"]) simp
      ultimately show ?thesis by blast
    qed
  next
    case (Cons k zs)
    have inv: "wheel_inv sl t L xs (k # zs)" using "1.prems" Cons by simp
    have "k \<in> set (L (cur_slot t))" using wheel_invD(7) [OF inv] by simp
    then obtain tick a where p: "pending sl t k = Some (tick, a)"
      by (rule slot_pending [OF inv])
    show ?thesis
    proof (cases "tick \<le> tm_tick t")
      case True
      obtain t' where t': "poll_to_loop sl target t = Some (Inl (a, t'))"
        "wheel_inv sl t' (\<lambda>i. remove1 k (L i)) xs zs" "pending sl t' = (pending sl t)(k := None)"
        "tm_tick t' = tm_tick t" "tm_inner t' = tm_inner t" "tm_mask t' = tm_mask t"
        "tm_tick_ms t' = tm_tick_ms t"
        "tick_bound sl t (set (k # zs)) \<Longrightarrow> tick_bound sl t' (set zs)"
        "ahead sl t (k # zs) \<Longrightarrow> ahead sl t' zs"
        using poll_loop_due [OF assms(1) inv "1.prems"(2) p True] by blast
      have "poll_result sl target t L ys (Inl (a, t'))"
        unfolding poll_result_def sum.case prod.case using p True "1.prems"(2) t' Cons
        by (intro exI [of _ k] exI [of _ tick] exI [of _ xs] exI [of _ zs]) simp
      then show ?thesis using t'(1) by blast
    next
      case False
      then have late: "tm_tick t < tick" by simp
      obtain t' where t': "poll_to_loop sl target t = poll_to_loop sl target t'"
        "wheel_inv sl t' L (xs @ [k]) zs" "tm_tick t' = tm_tick t"
        "tm_entries t' = tm_entries t" "tm_inner t' = tm_inner t" "tm_mask t' = tm_mask t"
        "tm_tick_ms t' = tm_tick_ms t"
        "tick_bound sl t (set (k # zs)) \<Longrightarrow> tick_bound sl t' (set zs)"
        "ahead sl t (k # zs) \<Longrightarrow> ahead sl t' zs"
        using poll_loop_pass [OF inv "1.prems"(2) p late] by blast
      have "((unat target - unat (tm_tick t'), length zs),
          unat target - unat (tm_tick t), length ys) \<in> less_than <*lex*> less_than"
        using t'(3) Cons by simp
      from "1.hyps" [OF this t'(2)] "1.prems"(2) t'(3) obtain r where
        r: "poll_to_loop sl target t' = Some r" "poll_result sl target t' L zs r" by auto
      have "poll_result sl target t L ys r"
        by (rule poll_result_step [OF r(2)]) (use t'(8,9) Cons in \<open>simp_all add: t'(3-7)\<close>)
      then show ?thesis using t'(1) r(1) by auto
    qed
  qed
qed

section \<open>The next tick\<close>

text \<open>The tick at which to wake up is at or before every timeout.\<close>

definition not_after :: "('s, 'a entry) slab_ops \<Rightarrow> 's timer \<Rightarrow> tick \<Rightarrow> bool" where
  "not_after sl t n \<longleftrightarrow> (\<forall>k tick a. pending sl t k = Some (tick, a) \<longrightarrow> n \<le> tick)"

lemma ahead_not_after: "ahead sl t ys \<Longrightarrow> not_after sl t (tm_tick t)"
  unfolding ahead_def not_after_def by force

lemma slot_ticks_not_after:
  assumes "wheel_inv sl t L xs ys" "tick_bound sl t {}"
  shows "not_after sl t (Min (set (slot_ticks t)))"
proof -
  have "Min (set (slot_ticks t)) \<le> tick" if p: "pending sl t k = Some (tick, a)" for k tick a
  proof -
    let ?i = "unat (slot_for t tick)"
    have "?i < length (tm_wheel t)" using slot_bound [OF wheel_invD(1) [OF assms(1)]] .
    then have "Min (set (slot_ticks t)) \<le> we_next_tick (tm_wheel t ! ?i)" by (intro Min_le) simp_all
    also have "\<dots> \<le> tick" using assms(2) p unfolding tick_bound_def by blast
    finally show ?thesis .
  qed
  then show ?thesis unfolding not_after_def by blast
qed

lemma next_tick_ok:
  assumes inv: "wheel_inv sl t L xs ys"
  obtains n where "next_tick sl t = Some (Some n)"
    "tick_bound sl t {} \<Longrightarrow> not_after sl t (tm_tick t) \<Longrightarrow> not_after sl t n"
proof -
  have "length (tm_wheel t) \<noteq> 0" using wheel_invD(1) [OF inv] by arith
  then have ne: "slot_ticks t \<noteq> []" by simp
  let ?m = "Min (set (slot_ticks t))"
  have "next_tick sl t = Some (Some ?m) \<or> next_tick sl t = Some (Some (tm_tick t))"
  proof (cases ys)
    case Nil
    then show ?thesis using ne wheel_invD(8) [OF inv] by (auto simp: next_tick_def split: list.split)
  next
    case (Cons k zs)
    then have "Token k \<noteq> EMPTY" using wheel_inv_parts(2) [OF inv] by (auto simp: EMPTY_def)
    moreover obtain e where "tm_get sl t k = Some e"
      using wheel_invD(5) [OF inv, of k "cur_slot t"] wheel_invD(7) [OF inv] Cons by auto
    ultimately show ?thesis
      using ne wheel_invD(8) [OF inv] Cons slot_bound [OF wheel_invD(1) [OF inv]]
      by (auto simp: next_tick_def wheel_get_def split: list.split)
  qed
  then show ?thesis using that slot_ticks_not_after [OF inv] by blast
qed

section \<open>The operations\<close>

text \<open>\<open>timer_ok\<close> holds of every timer; \<open>timer_prompt\<close> while no timeout has been missed.\<close>

definition timer_ok :: "('s, 'a entry) slab_ops \<Rightarrow> 's timer \<Rightarrow> bool" where
  "timer_ok sl t \<longleftrightarrow> (\<exists>L xs ys. wheel_inv sl t L xs ys \<and> tick_bound sl t (set ys))"

definition timer_prompt :: "('s, 'a entry) slab_ops \<Rightarrow> 's timer \<Rightarrow> bool" where
  "timer_prompt sl t \<longleftrightarrow>
     (\<exists>L xs ys. wheel_inv sl t L xs ys \<and> tick_bound sl t (set ys) \<and> ahead sl t ys)"

text \<open>A registered timer is woken up at or before its next timeout.\<close>

definition wake_ok :: "('s, 'a entry) slab_ops \<Rightarrow> 's timer \<Rightarrow> bool" where
  "wake_ok sl t \<longleftrightarrow>
     (case lc_inner (tm_inner t) of None \<Rightarrow> True | Some inner \<Rightarrow> not_after sl t (ti_wakeup_state inner))"

lemma prompt_ok: "timer_prompt sl t \<Longrightarrow> timer_ok sl t"
  unfolding timer_ok_def timer_prompt_def by blast

lemma not_after_le: "not_after sl t n \<Longrightarrow> m \<le> n \<Longrightarrow> not_after sl t m"
  unfolding not_after_def by force

lemma not_after_cong: "pending sl t = pending sl t' \<Longrightarrow> not_after sl t = not_after sl t'"
  by (simp add: not_after_def fun_eq_iff)

lemma wake_ok_woken:
  assumes "not_after sl t n"
  shows "wake_ok sl (t\<lparr>tm_inner := woken n (tm_inner t)\<rparr>)"
proof (cases "lc_inner (tm_inner t)")
  case (Some inner)
  from woken_word [OF this, of n] obtain i where
    "lc_inner (woken n (tm_inner t)) = Some i" "ti_wakeup_state i = min n (ti_wakeup_state inner)" by blast
  then show ?thesis using not_after_le [OF assms] by (simp add: wake_ok_def not_after_def)
qed (simp add: wake_ok_def woken_def)

lemma inner_update_simps [simp]:
  "tick_bound sl (t\<lparr>tm_inner := x\<rparr>) S = tick_bound sl t S"
  "ahead sl (t\<lparr>tm_inner := x\<rparr>) ys = ahead sl t ys"
  "timer_ok sl (t\<lparr>tm_inner := x\<rparr>) = timer_ok sl t"
  "timer_prompt sl (t\<lparr>tm_inner := x\<rparr>) = timer_prompt sl t"
  by (simp_all add: tick_bound_def ahead_def timer_ok_def timer_prompt_def)

lemma poll_to_ok:
  assumes laws: "slab_laws sl"
    and setr: "\<And>inner. lc_inner (tm_inner t) = Some inner \<Longrightarrow>
      setr (ti_set_readiness inner) ready_empty w \<noteq> None"
    and ok: "timer_ok sl t" and lt: "target < u64_max" "tm_tick t < u64_max"
  obtains res t' w' where "poll_to sl setr target t w = Some (res, t', w')"
    "timer_ok sl t'" "timer_prompt sl t \<Longrightarrow> timer_prompt sl t'"
    "case res of
       Some a \<Rightarrow> (\<exists>k tick. pending sl t k = Some (tick, a) \<and> tick \<le> max target (tm_tick t) \<and>
         pending sl t' = (pending sl t)(k := None)) \<and> tm_tick t' \<le> max target (tm_tick t)
     | None \<Rightarrow> pending sl t' = pending sl t \<and>
         unat (tm_tick t') = Suc (unat (max target (tm_tick t))) \<and>
         (timer_prompt sl t \<longrightarrow> wake_ok sl t')"
    "tm_tick_ms t' = tm_tick_ms t" "tm_tick t \<le> tm_tick t'"
    "case res of Some _ \<Rightarrow> w' = w
      | None \<Rightarrow> (case lc_inner (tm_inner t) of None \<Rightarrow> w' = w
          | Some inner \<Rightarrow> setr (ti_set_readiness inner) ready_empty w = Some w')"
proof -
  have main: "\<exists>res t' w'. poll_to sl setr target t w = Some (res, t', w') \<and>
      timer_ok sl t' \<and> (ahead sl t ys \<longrightarrow> timer_prompt sl t') \<and>
      (case res of
         Some a \<Rightarrow> (\<exists>k tick. pending sl t k = Some (tick, a) \<and> tick \<le> max target (tm_tick t) \<and>
           pending sl t' = (pending sl t)(k := None)) \<and> tm_tick t' \<le> max target (tm_tick t)
       | None \<Rightarrow> pending sl t' = pending sl t \<and>
         unat (tm_tick t') = Suc (unat (max target (tm_tick t))) \<and>
           (ahead sl t ys \<longrightarrow> wake_ok sl t')) \<and>
      tm_tick_ms t' = tm_tick_ms t \<and> tm_tick t \<le> tm_tick t' \<and>
      (case res of Some _ \<Rightarrow> w' = w
       | None \<Rightarrow> (case lc_inner (tm_inner t) of None \<Rightarrow> w' = w
           | Some inner \<Rightarrow> setr (ti_set_readiness inner) ready_empty w = Some w'))"
    if inv: "wheel_inv sl t L xs ys" and b: "tick_bound sl t (set ys)" for L xs ys
  proof -
    let ?tg = "if target < tm_tick t then tm_tick t else target"
    have tg: "?tg = max target (tm_tick t)" by (auto simp: max_def)
    have "tm_tick t \<le> ?tg" "?tg < u64_max" using lt by auto
    from poll_to_loop_ok [OF laws inv this] obtain r where
      r: "poll_to_loop sl ?tg t = Some r" "poll_result sl ?tg t L ys r" by blast
    show ?thesis
    proof (cases r)
      case (Inl p)
      obtain a t' where p: "p = (a, t')" by (cases p)
      obtain k tick as bs where q: "pending sl t k = Some (tick, a)" "tick \<le> tm_tick t'"
        "tm_tick t \<le> tm_tick t'" "tm_tick t' \<le> ?tg" "wheel_inv sl t' (\<lambda>i. remove1 k (L i)) as bs"
        "pending sl t' = (pending sl t)(k := None)" "tm_tick_ms t' = tm_tick_ms t"
        "tick_bound sl t' (set bs)" "ahead sl t ys \<longrightarrow> ahead sl t' bs"
        using r(2) b unfolding Inl p poll_result_def sum.case prod.case by blast
      have "tick \<le> ?tg" using q(2,4) by (rule order_trans)
      then have "\<exists>k tick. pending sl t k = Some (tick, a) \<and> tick \<le> ?tg \<and>
          pending sl t' = (pending sl t)(k := None)" using q(1,6) by blast
      moreover have "timer_ok sl t'" "ahead sl t ys \<longrightarrow> timer_prompt sl t'"
        unfolding timer_ok_def timer_prompt_def using q(5,8,9) by blast+
      moreover have "poll_to sl setr target t w = Some (Some a, t', w)"
        using r(1) Inl p by (simp add: poll_to_def Let_def)
      ultimately show ?thesis unfolding tg [symmetric] using q(3,4,7) by auto
    next
      case (Inr u)
      obtain as bs where u: "wheel_inv sl u L as bs" "pending sl u = pending sl t" "unat (tm_tick u) = Suc (unat ?tg)"
        "tm_inner u = tm_inner t" "tm_tick_ms u = tm_tick_ms t" "tick_bound sl u {}"
        "ahead sl t ys \<longrightarrow> ahead sl u bs"
        using r(2) b unfolding Inr poll_result_def sum.case by blast
      have tick: "unat (tm_tick u) = Suc (unat (max target (tm_tick t)))" "tm_tick t \<le> tm_tick u"
        using u(3) unfolding tg by (simp_all add: word_le_nat_alt max_def)
      have ok: "timer_ok sl u" "ahead sl t ys \<longrightarrow> timer_prompt sl u"
        using u(1,6,7) tick_bound_mono [OF u(6), of "set bs"]
        unfolding timer_ok_def timer_prompt_def by blast+
      show ?thesis
      proof (cases "lc_inner (tm_inner t)")
        case None
        have "poll_to sl setr target t w = Some (None, u, w)"
          using r(1) Inr None u(4) by (simp add: poll_to_def Let_def lc_borrow_def)
        moreover have "wake_ok sl u" using None u(4) by (simp add: wake_ok_def)
        ultimately show ?thesis using u(2,5) ok tick None
          by (intro exI [of _ None] exI [of _ u] exI [of _ w]) simp
      next
        case (Some inner)
        obtain w' where w': "setr (ti_set_readiness inner) ready_empty w = Some w'"
          using setr [OF Some] by blast
        obtain n where n: "next_tick sl u = Some (Some n)"
          "tick_bound sl u {} \<Longrightarrow> not_after sl u (tm_tick u) \<Longrightarrow> not_after sl u n"
          by (rule next_tick_ok [OF u(1)]) blast
        let ?u = "u\<lparr>tm_inner := woken n (tm_inner u)\<rparr>"
        have "poll_to sl setr target t w = Some (None, ?u, w')"
          using r(1) Inr Some u(4) w' n(1)
          by (simp add: poll_to_def Let_def lc_borrow_def schedule_readiness_eq)
        moreover have "ahead sl t ys \<longrightarrow> wake_ok sl ?u"
          using wake_ok_woken n(2) [OF u(6)] u(7) ahead_not_after by blast
        ultimately show ?thesis using u(2,5) ok tick Some w'
          by (intro exI [of _ None] exI [of _ ?u] exI [of _ w']) simp
      qed
    qed
  qed
  obtain L xs ys where i: "wheel_inv sl t L xs ys" "tick_bound sl t (set ys)"
    and im: "timer_prompt sl t \<longrightarrow> ahead sl t ys"
    using ok unfolding timer_ok_def timer_prompt_def by blast
  from main [OF i] obtain res t' w' where m: "poll_to sl setr target t w = Some (res, t', w')"
    "timer_ok sl t'" "ahead sl t ys \<longrightarrow> timer_prompt sl t'"
    "case res of
       Some a \<Rightarrow> (\<exists>k tick. pending sl t k = Some (tick, a) \<and> tick \<le> max target (tm_tick t) \<and>
         pending sl t' = (pending sl t)(k := None)) \<and> tm_tick t' \<le> max target (tm_tick t)
     | None \<Rightarrow> pending sl t' = pending sl t \<and>
         unat (tm_tick t') = Suc (unat (max target (tm_tick t))) \<and>
         (ahead sl t ys \<longrightarrow> wake_ok sl t')"
    "tm_tick_ms t' = tm_tick_ms t" "tm_tick t \<le> tm_tick t'"
    "case res of Some _ \<Rightarrow> w' = w
      | None \<Rightarrow> (case lc_inner (tm_inner t) of None \<Rightarrow> w' = w
          | Some inner \<Rightarrow> setr (ti_set_readiness inner) ready_empty w = Some w')" by blast
  show ?thesis
  proof (cases res)
    case None
    show ?thesis by (rule that [OF m(1,2) _ _ m(5,6,7)]) (use m(3,4) im None in simp_all)
  next
    case (Some a)
    show ?thesis
      by (rule that [OF m(1,2) _ _ m(5,6,7)]) (use m(3) im in blast, use m(4) Some in \<open>simp only: option.case\<close>)
  qed
qed

end
