(* ===== verification/Timer_Spec.thy ===== *)
theory Timer_Spec
  imports Timer_Poll "HOL-Library.Multiset"
begin

text \<open>
  What the timer promises, on the map \<open>pending\<close> of its timeouts: setting one adds it,
  cancelling one removes exactly that one, polling gives out what is due, all of it when
  repeated, and the thread is asked to wake up in time.
\<close>

section \<open>Setting and cancelling\<close>

lemma tick_bound_insert:
  assumes b: "tick_bound sl t S" and inv: "wheel_inv sl t L xs ys"
    and p: "pending sl t' = (pending sl t)(k \<mapsto> (tick, a))" and m: "tm_mask t' = tm_mask t"
    and w: "slot_ticks t' = (slot_ticks t)[unat (slot_for t tick) :=
      min tick (we_next_tick (tm_wheel t ! unat (slot_for t tick)))]"
  shows "tick_bound sl t' S"
proof -
  let ?i = "unat (slot_for t tick)"
  have bnd: "unat (slot_for t u) < length (tm_wheel t)" for u
    using slot_bound [OF wheel_invD(1) [OF inv]] .
  have sf: "slot_for t' = slot_for t" by (simp add: slot_for_def m fun_eq_iff)
  have len: "length (tm_wheel t') = length (tm_wheel t)"
    using arg_cong [OF w, of length] by simp
  have nt: "we_next_tick (tm_wheel t' ! j) =
      (if j = ?i then min tick (we_next_tick (tm_wheel t ! ?i)) else we_next_tick (tm_wheel t ! j))"
    if "j < length (tm_wheel t)" for j
    using that bnd len arg_cong [OF w, of "\<lambda>xs. xs ! j"] by (simp add: nth_list_update)
  have "we_next_tick (tm_wheel t' ! unat (slot_for t u)) \<le> u"
    if q: "pending sl t' j = Some (u, c)" "j \<notin> S" for j u c
  proof (cases "j = k")
    case True
    then show ?thesis using q p bnd nt by simp
  next
    case False
    then have "we_next_tick (tm_wheel t ! unat (slot_for t u)) \<le> u"
      using b q p unfolding tick_bound_def by auto
    then show ?thesis using bnd nt by (auto simp: min.coboundedI2)
  qed
  then show ?thesis unfolding tick_bound_def sf by blast
qed

lemma timer_insert_total:
  assumes laws: "slab_laws sl" and ok: "timer_ok sl t"
  shows "timer_insert sl t tick st = None \<longleftrightarrow>
    sl_insert sl (tm_entries t)
      (entry_new st tick (we_head (tm_wheel t ! unat (slot_for t tick)))) = None"
proof -
  obtain L xs ys where inv: "wheel_inv sl t L xs ys" using ok unfolding timer_ok_def by blast
  let ?i = "unat (slot_for t tick)"
  have bnd: "?i < length (tm_wheel t)" using slot_bound [OF wheel_invD(1) [OF inv]] .
  then have head: "we_head (tm_wheel t ! ?i) = first (L ?i)" by (rule wheel_invD(6) [OF inv])
  show ?thesis
  proof (cases "sl_insert sl (tm_entries t) (entry_new st tick (first (L ?i)))")
    case None
    moreover have "unat (tick AND tm_mask t) = ?i" by (simp add: slot_for_def and.commute)
    ultimately show ?thesis using head bnd by (simp add: timer_insert_def wheel_get_def)
  next
    case (Some p)
    obtain k s0 where "p = (k, s0)" by (cases p)
    with Some have ins: "sl_insert sl (tm_entries t) (entry_new st tick (first (L ?i))) = Some (k, s0)"
      by simp
    then have "timer_insert sl t tick st \<noteq> None"
      by (rule timer_insert_ok [OF laws inv]) simp
    then show ?thesis using ins head by simp
  qed
qed

lemma timer_insert_spec:
  assumes laws: "slab_laws sl" and run: "timer_insert sl t tick st = Some (to, t')"
    and ok: "timer_ok sl t"
  obtains k where "to = \<lparr>to_token = Token k, to_tick = tick\<rparr>" "pending sl t k = None"
    "pending sl t' = (pending sl t)(k \<mapsto> (tick, st))" "timer_ok sl t'"
    "timer_prompt sl t \<Longrightarrow> tm_tick t < tick \<Longrightarrow> timer_prompt sl t'"
    "wake_ok sl t \<Longrightarrow> wake_ok sl t'" "tm_tick t' = tm_tick t" "tm_tick_ms t' = tm_tick_ms t"
proof -
  obtain L xs ys where i: "wheel_inv sl t L xs ys" "tick_bound sl t (set ys)"
    and im: "timer_prompt sl t \<longrightarrow> ahead sl t ys"
    using ok unfolding timer_ok_def timer_prompt_def by blast
  let ?i = "unat (slot_for t tick)"
  have "timer_insert sl t tick st \<noteq> None" using run by simp
  then have "sl_insert sl (tm_entries t)
      (entry_new st tick (we_head (tm_wheel t ! unat (slot_for t tick)))) \<noteq> None"
    unfolding timer_insert_total [OF laws ok] .
  moreover have "we_head (tm_wheel t ! ?i) = first (L ?i)"
    by (rule wheel_invD(6) [OF i(1) slot_bound [OF wheel_invD(1) [OF i(1)]]])
  ultimately obtain k s0 where
    ins: "sl_insert sl (tm_entries t) (entry_new st tick (first (L ?i))) = Some (k, s0)" by auto
  obtain xs' L' where t': "to = \<lparr>to_token = Token k, to_tick = tick\<rparr>" "wheel_inv sl t' L' xs' ys"
    "tm_get sl t k = None" "pending sl t' = (pending sl t)(k \<mapsto> (tick, st))"
    "slot_ticks t' = (slot_ticks t)[?i := min tick (we_next_tick (tm_wheel t ! ?i))]"
    "tm_tick t' = tm_tick t" "tm_inner t' = woken tick (tm_inner t)"
    "tm_tick_ms t' = tm_tick_ms t" "tm_mask t' = tm_mask t"
    by (rule timer_insert_ok [OF laws i(1) ins]) (use run in simp)
  have b: "tick_bound sl t' (set ys)" by (rule tick_bound_insert [OF i(2,1) t'(4,9,5)])
  have ok': "timer_ok sl t'" using t'(2) b unfolding timer_ok_def by blast
  have prompt: "timer_prompt sl t'" if "timer_prompt sl t" "tm_tick t < tick"
  proof -
    have "ahead sl t ys" using im that by blast
    then have "ahead sl t' ys" using that(2) by (auto simp: ahead_def t'(4,6))
    then show ?thesis using t'(2) b unfolding timer_prompt_def by blast
  qed
  have wake: "wake_ok sl t'" if "wake_ok sl t"
  proof (cases "lc_inner (tm_inner t)")
    case None
    then show ?thesis by (simp add: wake_ok_def t'(7) woken_def)
  next
    case (Some inner)
    then have n: "not_after sl t (ti_wakeup_state inner)" using that by (simp add: wake_ok_def)
    from woken_word [OF Some, of tick] obtain j where
      "lc_inner (tm_inner t') = Some j" "ti_wakeup_state j = min tick (ti_wakeup_state inner)"
      unfolding t'(7) by blast
    then show ?thesis using n
      by (auto simp: wake_ok_def not_after_def t'(4) min.coboundedI1 min.coboundedI2)
  qed
  show ?thesis by (rule that [OF t'(1) _ t'(4) ok' prompt wake t'(6,8)])
      (use t'(3) in \<open>simp_all add: pend_None\<close>)
qed

lemma cancel_timeout_spec:
  assumes laws: "slab_laws sl" and ok: "timer_ok sl t"
  defines "P \<equiv> pending sl t" and "k \<equiv> \<lambda>to. token_0 (to_token to)"
  obtains t' where "cancel_timeout sl t to = Some
      ((case P (k to) of Some (tick, a) \<Rightarrow> if tick = to_tick to then Some a else None | None \<Rightarrow> None), t')"
    "pending sl t' = (case P (k to) of
       Some (tick, a) \<Rightarrow> if tick = to_tick to then P(k to := None) else P | None \<Rightarrow> P)"
    "timer_ok sl t'" "timer_prompt sl t \<Longrightarrow> timer_prompt sl t'" "wake_ok sl t \<Longrightarrow> wake_ok sl t'"
    "tm_tick t' = tm_tick t" "tm_tick_ms t' = tm_tick_ms t"
proof (cases "\<exists>a. P (k to) = Some (to_tick to, a)")
  case False
  then have "cancel_timeout sl t to = Some (None, t)"
    by (cases "tm_get sl t (k to)") (auto simp: cancel_timeout_def k_def P_def pend_def)
  moreover have "(case P (k to) of Some (tick, a) \<Rightarrow> if tick = to_tick to then Some a else None
      | None \<Rightarrow> None) = None"
    "(case P (k to) of Some (tick, a) \<Rightarrow> if tick = to_tick to then P(k to := None) else P
      | None \<Rightarrow> P) = P" using False by (auto split: option.split)
  ultimately show ?thesis using that [of t] ok unfolding P_def by simp
next
  case True
  then obtain e where e: "tm_get sl t (k to) = Some e" "el_tick (en_links e) = to_tick to"
    by (auto simp: P_def pend_def)
  have tok: "to_token to = Token (k to)" by (cases "to_token to") (simp add: k_def)
  obtain L xs ys where i: "wheel_inv sl t L xs ys" "tick_bound sl t (set ys)"
    and im: "timer_prompt sl t \<longrightarrow> ahead sl t ys"
    using ok unfolding timer_ok_def timer_prompt_def by blast
  obtain t' where t': "take_out sl t (en_links e) (Token (k to)) = Some (en_state e, t')"
    "wheel_inv sl t' (\<lambda>i. remove1 (k to) (L i)) (remove1 (k to) xs) (remove1 (k to) ys)"
    "pending sl t' = P(k to := None)" "slot_ticks t' = slot_ticks t"
    "tm_tick t' = tm_tick t" "tm_inner t' = tm_inner t" "tm_tick_ms t' = tm_tick_ms t"
    "tm_mask t' = tm_mask t"
    unfolding P_def by (rule take_out_ok [OF laws i(1) e(1)])
  have run: "cancel_timeout sl t to = Some (Some (en_state e), t')"
    using t'(1) e by (auto simp: cancel_timeout_def take_out_def tok [symmetric] k_def Let_def
        split: Option.bind_splits)
  have P: "P (k to) = Some (to_tick to, en_state e)" using e by (simp add: P_def pend_def)
  have sf: "slot_for t' = slot_for t" by (simp add: slot_for_def t'(8) fun_eq_iff)
  have "length (tm_wheel t') = length (tm_wheel t)" using t'(4) by (metis length_map)
  then have nt: "i < length (tm_wheel t) \<Longrightarrow> we_next_tick (tm_wheel t' ! i) = we_next_tick (tm_wheel t ! i)" for i
    using t'(4) by (metis nth_map)
  have "we_next_tick (tm_wheel t' ! unat (slot_for t u)) \<le> u"
    if q: "pending sl t' j = Some (u, c)" "j \<notin> set (remove1 (k to) ys)" for j u c
  proof -
    have j: "j \<noteq> k to" "P j = Some (u, c)" using q(1) unfolding t'(3) by (auto split: if_splits)
    then have "j \<notin> set ys" using q(2) by (simp add: in_set_remove1)
    then show ?thesis
      using i(2) j(2) nt slot_bound [OF wheel_invD(1) [OF i(1)]] unfolding tick_bound_def P_def by auto
  qed
  then have b: "tick_bound sl t' (set (remove1 (k to) ys))" unfolding tick_bound_def sf by blast
  have ok': "timer_ok sl t'" using t'(2) b unfolding timer_ok_def by blast
  have prompt: "timer_prompt sl t'" if "timer_prompt sl t"
  proof -
    have "ahead sl t ys" using im that by blast
    then have "ahead sl t' (remove1 (k to) ys)"
      by (auto simp: ahead_def t'(3,5) P_def in_set_remove1)
    then show ?thesis using t'(2) b unfolding timer_prompt_def by blast
  qed
  have wake: "wake_ok sl t'" if "wake_ok sl t"
    using that by (auto simp: wake_ok_def t'(3,6) P_def not_after_def split: option.splits)
  show ?thesis by (rule that [of t']) (use run P t'(3,5,7) ok' prompt wake in simp_all)
qed

section \<open>Making a timer\<close>

lemma pow2_from_spec:
  "pow2_from bits (2 ^ i) n = Some p \<Longrightarrow> \<exists>j. p = 2 ^ j \<and> i \<le> j \<and> j < i + bits \<and> n \<le> p \<and>
     (\<forall>m. i \<le> m \<and> n \<le> 2 ^ m \<longrightarrow> j \<le> m)"
proof (induction bits arbitrary: i)
  case (Suc bits)
  show ?case
  proof (cases "n \<le> 2 ^ i")
    case True
    then show ?thesis using Suc.prems by auto
  next
    case False
    then have "pow2_from bits (2 ^ Suc i) n = Some p" using Suc.prems by simp
    from Suc.IH [OF this] obtain j where j: "p = 2 ^ j" "Suc i \<le> j" "j < Suc i + bits" "n \<le> p"
      "\<forall>m. Suc i \<le> m \<and> n \<le> 2 ^ m \<longrightarrow> j \<le> m" by blast
    have "j \<le> m" if "i \<le> m" "n \<le> 2 ^ m" for m
      using j(5) that False by (metis le_neq_implies_less Suc_leI)
    then show ?thesis using j by (intro exI [of _ j]) auto
  qed
qed simp

lemma pow2_from_None: "pow2_from bits (2 ^ i) n = None \<Longrightarrow> 0 < bits \<Longrightarrow> 2 ^ (i + bits - 1) < n"
proof (induction bits arbitrary: i)
  case (Suc bits)
  have n: "\<not> n \<le> 2 ^ i" "pow2_from bits (2 ^ Suc i) n = None"
    using Suc.prems(1) by (auto split: if_splits)
  then show ?case using Suc.IH [OF n(2)] by (cases "bits = 0") (auto simp: not_le)
qed simp

lemma next_power_of_two_spec:
  assumes "next_power_of_two n = Some p"
  obtains j where "p = word_of_nat (2 ^ j)" "j < 64" "unat p = 2 ^ j" "unat n \<le> 2 ^ j"
    "\<And>m. unat n \<le> 2 ^ m \<Longrightarrow> j \<le> m"
proof -
  obtain q where q: "pow2_from 64 1 (unat n) = Some q" "p = word_of_nat q"
    using assms by (auto simp: next_power_of_two_def simp del: pow2_from.simps)
  then have "pow2_from 64 (2 ^ 0) (unat n) = Some q" by (simp del: pow2_from.simps)
  from pow2_from_spec [OF this] obtain j where j: "q = 2 ^ j" "j < 64" "unat n \<le> q"
    "\<forall>m. unat n \<le> 2 ^ m \<longrightarrow> j \<le> m" by auto
  have "(2 :: nat) ^ j < 2 ^ 64" using j(2) by (intro power_strict_increasing) simp_all
  then have "unat p = 2 ^ j" unfolding q(2) j(1) unsigned_of_nat
    by (subst take_bit_nat_eq_self) simp_all
  then show ?thesis using that j q by blast
qed

lemma next_power_of_two_None: "next_power_of_two n = None \<Longrightarrow> 2 ^ 63 < unat n"
  using pow2_from_None [of 64 0 "unat n"]
  by (simp add: next_power_of_two_def del: pow2_from.simps)

lemma timer_new_spec:
  assumes laws: "slab_laws sl" and new: "timer_new sl tick_ms num_slots capacity = Some t"
  shows "timer_prompt sl t" "pending sl t = Map.empty" "tm_tick t = 0" "tm_tick_ms t = tick_ms"
    "lc_inner (tm_inner t) = None"
proof -
  obtain n c where n: "next_power_of_two num_slots = Some n" "next_power_of_two capacity = Some c"
    "t = \<lparr>tm_tick_ms = tick_ms, tm_entries = sl_new sl c,
       tm_wheel = replicate (unat n) \<lparr>we_next_tick = TICK_MAX, we_head = EMPTY\<rparr>,
       tm_tick = 0, tm_next = EMPTY, tm_mask = n - 1, tm_inner = lc_new\<rparr>"
    using new by (auto simp: timer_new_def Let_def split: Option.bind_splits)
  obtain j where "unat n = 2 ^ j" using next_power_of_two_spec [OF n(1)] by metis
  then have "0 < unat n" by simp
  then have "n \<noteq> 0" by auto
  then have len: "Suc (unat (n - 1)) = unat n" using \<open>0 < unat n\<close> by (simp add: unat_minus_one)
  have g: "tm_get sl t = Map.empty" by (simp add: n(3) slab_lawsD(1) [OF laws])
  then show p: "pending sl t = Map.empty" by (simp add: pend_def fun_eq_iff)
  have "wheel_inv sl t (\<lambda>_. []) [] []"
    unfolding wheel_inv_def g by (simp add: n(3) len)
  moreover have "tick_bound sl t (set [])" "ahead sl t []"
    unfolding tick_bound_def ahead_def p by simp_all
  ultimately show "timer_prompt sl t" unfolding timer_prompt_def by blast
  show "tm_tick t = 0" "tm_tick_ms t = tick_ms" "lc_inner (tm_inner t) = None"
    by (simp_all add: n(3) lc_new_def)
qed

section \<open>Polling until nothing is due\<close>

lemma pending_finite: "timer_ok sl t \<Longrightarrow> finite (dom (pending sl t))"
proof -
  assume "timer_ok sl t"
  then obtain L xs ys where inv: "wheel_inv sl t L xs ys" unfolding timer_ok_def by blast
  have "dom (pending sl t) \<subseteq> (\<Union>i < length (tm_wheel t). set (L i))"
  proof
    fix k assume "k \<in> dom (pending sl t)"
    then obtain tick a where "pending sl t k = Some (tick, a)" by auto
    from pending_slot [OF inv this] slot_bound [OF wheel_invD(1) [OF inv]]
    show "k \<in> (\<Union>i < length (tm_wheel t). set (L i))" by blast
  qed
  then show ?thesis by (rule finite_subset) simp
qed

fun poll_drain ::
  "('s, 'a entry) slab_ops \<Rightarrow> (nat \<Rightarrow> ready \<Rightarrow> 'w \<Rightarrow> 'w option) \<Rightarrow> tick \<Rightarrow> nat \<Rightarrow> 's timer \<Rightarrow> 'w \<Rightarrow>
   ('a list \<times> 's timer \<times> 'w) option" where
  "poll_drain sl setr target 0 t w = None"
| "poll_drain sl setr target (Suc n) t w =
     (case poll_to sl setr target t w of
        None \<Rightarrow> None
      | Some (None, t, w) \<Rightarrow> Some ([], t, w)
      | Some (Some a, t, w) \<Rightarrow>
          (case poll_drain sl setr target n t w of
             None \<Rightarrow> None
           | Some (as, t, w) \<Rightarrow> Some (a # as, t, w)))"

definition due_keys :: "'a pending \<Rightarrow> tick \<Rightarrow> usize set" where
  "due_keys P n = {k. \<exists>tick a. P k = Some (tick, a) \<and> tick \<le> n}"

definition due_states :: "'a pending \<Rightarrow> tick \<Rightarrow> 'a multiset" where
  "due_states P n = image_mset (\<lambda>k. snd (the (P k))) (mset_set (due_keys P n))"

lemma due_keys_dom: "due_keys P n \<subseteq> dom P"
  by (auto simp: due_keys_def)

lemma due_states_remove:
  assumes "finite (dom P)" "P k = Some (tick, a)" "tick \<le> n"
  shows "due_states P n = add_mset a (due_states (P(k := None)) n)"
    "card (due_keys (P(k := None)) n) < card (due_keys P n)"
proof -
  have fin: "finite (due_keys P n)" using assms(1) due_keys_dom finite_subset by blast
  have k: "k \<in> due_keys P n" using assms(2,3) by (auto simp: due_keys_def)
  have d: "due_keys (P(k := None)) n = due_keys P n - {k}" by (auto simp: due_keys_def)
  show "card (due_keys (P(k := None)) n) < card (due_keys P n)"
    unfolding d using fin k by (rule card_Diff1_less)
  have "due_keys P n = insert k (due_keys P n - {k})" using k by blast
  then have "mset_set (due_keys P n) = add_mset k (mset_set (due_keys P n - {k}))"
    using fin by (metis finite_Diff mset_set.insert insertCI Diff_iff)
  moreover have "image_mset (\<lambda>k. snd (the (P k))) (mset_set (due_keys P n - {k})) =
      image_mset (\<lambda>j. snd (the ((P(k := None)) j))) (mset_set (due_keys P n - {k}))"
    using fin by (intro image_mset_cong) auto
  ultimately show "due_states P n = add_mset a (due_states (P(k := None)) n)"
    unfolding due_states_def d using assms(2) by simp
qed

lemma prompt_not_after: "timer_prompt sl t \<Longrightarrow> not_after sl t (tm_tick t)"
  unfolding timer_prompt_def using ahead_not_after by blast

lemma poll_drain_ok:
  assumes laws: "slab_laws sl" and setr: "\<And>p r w. setr p r w \<noteq> None"
    and lt: "target < u64_max"
  shows "timer_prompt sl t \<Longrightarrow> tm_tick t \<le> target \<Longrightarrow>
    card (due_keys (pending sl t) target) < n \<Longrightarrow>
    \<exists>as t' w'. poll_drain sl setr target n t w = Some (as, t', w') \<and>
      mset as = due_states (pending sl t) target \<and>
      pending sl t' = pending sl t |` (- due_keys (pending sl t) target) \<and>
      timer_prompt sl t' \<and> wake_ok sl t' \<and> tm_tick t' = target + 1"
proof (induction n arbitrary: t w)
  case (Suc n)
  note ok = prompt_ok [OF Suc.prems(1)]
  have lt': "tm_tick t < u64_max" "max target (tm_tick t) = target"
    using Suc.prems(2) lt by (auto simp: max_def)
  obtain res t1 w1 where p: "poll_to sl setr target t w = Some (res, t1, w1)"
    "timer_prompt sl t1"
    "case res of
       Some a \<Rightarrow> (\<exists>k tick. pending sl t k = Some (tick, a) \<and> tick \<le> target \<and>
         pending sl t1 = (pending sl t)(k := None)) \<and> tm_tick t1 \<le> target
     | None \<Rightarrow> pending sl t1 = pending sl t \<and> unat (tm_tick t1) = Suc (unat target) \<and> wake_ok sl t1"
    by (rule poll_to_ok [where setr = setr and w = w, OF laws setr ok lt lt'(1)])
      (use Suc.prems(1) lt'(2) in \<open>auto split: option.splits\<close>)
  show ?case
  proof (cases res)
    case None
    note q = p(3) [unfolded None option.case]
    have "k \<notin> due_keys (pending sl t) target" for k
      using prompt_not_after [OF p(2)] q
      by (force simp: due_keys_def not_after_def word_le_nat_alt)
    then have "due_keys (pending sl t) target = {}" by blast
    moreover have "tm_tick t1 = target + 1"
      using q lt by (simp add: word_unat_eq_iff unat_word_ariths unat_u64_max word_less_nat_alt)
    ultimately show ?thesis using p q None
      by (intro exI [of _ "[]"] exI [of _ t1] exI [of _ w1]) (simp add: due_states_def)
  next
    case (Some a)
    obtain k tick where k: "pending sl t k = Some (tick, a)" "tick \<le> target"
      "pending sl t1 = (pending sl t)(k := None)" "tm_tick t1 \<le> target"
      using p(3) unfolding Some option.case by blast
    note rem = due_states_remove [OF pending_finite [OF ok] k(1,2), folded k(3)]
    from Suc.IH [OF p(2) k(4)] rem(2) Suc.prems(3) obtain as t' w' where
      r: "poll_drain sl setr target n t1 w1 = Some (as, t', w')"
      "mset as = due_states (pending sl t1) target"
      "pending sl t' = pending sl t1 |` (- due_keys (pending sl t1) target)"
      "timer_prompt sl t'" "wake_ok sl t'" "tm_tick t' = target + 1" by force
    have "pending sl t1 |` (- due_keys (pending sl t1) target) =
        pending sl t |` (- due_keys (pending sl t) target)"
      using k(1,2) unfolding k(3) by (auto simp: restrict_map_def due_keys_def fun_eq_iff)
    then show ?thesis using p(1) Some r rem(1)
      by (intro exI [of _ "a # as"] exI [of _ t'] exI [of _ w']) simp
  qed
qed simp

section \<open>Operations together\<close>

datatype 'a timer_op = Set_at duration 'a | Cancel timeout | Poll_to tick

datatype 'a timer_out = Was_set timeout | Cancelled "'a option" | Polled "'a option"

fun timer_exec ::
  "('s, 'a entry) slab_ops \<Rightarrow> (nat \<Rightarrow> ready \<Rightarrow> 'w \<Rightarrow> 'w option) \<Rightarrow> 'a timer_op \<Rightarrow> 's timer \<Rightarrow> 'w \<Rightarrow>
   ('a timer_out \<times> 's timer \<times> 'w) option" where
  "timer_exec sl setr (Set_at d a) t w =
     map_option (\<lambda>(to, t). (Was_set to, t, w)) (set_timeout_at sl t d a)"
| "timer_exec sl setr (Cancel to) t w =
     map_option (\<lambda>(r, t). (Cancelled r, t, w)) (cancel_timeout sl t to)"
| "timer_exec sl setr (Poll_to n) t w =
     map_option (\<lambda>(r, t, w). (Polled r, t, w)) (poll_to sl setr n t w)"

text \<open>
  The abstract timer: the map of the timeouts and the tick the cursor is at. A poll may
  give any due timeout, or say that it went past the target.
\<close>

fun timer_allows :: "u64 \<Rightarrow> 'a pending \<Rightarrow> tick \<Rightarrow> 'a timer_op \<Rightarrow> 'a timer_out \<Rightarrow> 'a pending \<Rightarrow> tick \<Rightarrow> bool" where
  "timer_allows ms P now (Set_at d a) (Was_set to) P' now' \<longleftrightarrow>
     P (token_0 (to_token to)) = None \<and>
     P' = P(token_0 (to_token to) \<mapsto> (to_tick to, a)) \<and>
     (\<exists>tick. duration_to_tick d ms = Some tick \<and>
        to_tick to = (if tick < now then now + 1 else tick)) \<and> now' = now"
| "timer_allows ms P now (Cancel to) (Cancelled r) P' now' \<longleftrightarrow>
     (case P (token_0 (to_token to)) of
        Some (tick, a) \<Rightarrow>
          if tick = to_tick to then r = Some a \<and> P' = P(token_0 (to_token to) := None)
          else r = None \<and> P' = P
      | None \<Rightarrow> r = None \<and> P' = P) \<and> now' = now"
| "timer_allows ms P now (Poll_to n) (Polled r) P' now' \<longleftrightarrow>
     (case r of
        Some a \<Rightarrow> now \<le> now' \<and> now' \<le> max n now \<and>
          (\<exists>k tick. P k = Some (tick, a) \<and> tick \<le> max n now \<and> P' = P(k := None))
      | None \<Rightarrow> P' = P \<and> unat now' = Suc (unat (max n now)))"
| "timer_allows ms P now _ _ P' now' \<longleftrightarrow> False"

lemma set_timeout_at_insert:
  assumes "tm_tick_ms t \<noteq> 0" "tm_tick t < u64_max"
  obtains tick where "duration_to_tick d (tm_tick_ms t) = Some tick"
    "set_timeout_at sl t d st =
       timer_insert sl t (if tick < tm_tick t then tm_tick t + 1 else tick) st"
proof -
  have "unat (tm_tick t) + 1 < 2 ^ 64" using assms(2) by (simp add: word_less_nat_alt unat_u64_max)
  then have "checked_add (tm_tick t) 1 = Some (tm_tick t + 1)" by (simp add: checked_add_def)
  moreover obtain tick where "duration_to_tick d (tm_tick_ms t) = Some tick"
    using assms(1) by (simp add: duration_to_tick_def Let_def)
  ultimately show ?thesis using that by (simp add: set_timeout_at_def)
qed

section \<open>A slab for the witnesses\<close>

definition demo_slab :: "((usize \<rightharpoonup> 'e) \<times> nat, 'e) slab_ops" where
  "demo_slab = \<lparr>sl_new = (\<lambda>_. (\<lambda>_. None, 0)),
     sl_insert = (\<lambda>(m, c) e. if c < 1000 \<and> m (word_of_nat c) = None
       then Some (word_of_nat c, m(word_of_nat c := Some e), Suc c) else None),
     sl_get = (\<lambda>(m, c) k. m k),
     sl_set = (\<lambda>(m, c) k e. (m(k := Some e), c)),
     sl_remove = (\<lambda>(m, c) k. (m(k := None), c))\<rparr>"

lemma demo_slab_laws: "slab_laws demo_slab"
proof -
  have "word_of_nat c \<noteq> u64_max" if "c < 1000" for c
  proof
    assume "word_of_nat c = u64_max"
    then have "unat (word_of_nat c :: u64) = 2 ^ 64 - 1" by (simp add: unat_u64_max)
    then show False using that by (simp add: unsigned_of_nat take_bit_nat_eq_self)
  qed
  then show ?thesis by (auto simp: slab_laws_def demo_slab_def split: if_splits)
qed

definition no_setr :: "nat \<Rightarrow> ready \<Rightarrow> unit \<Rightarrow> unit option" where
  "no_setr p r w = Some ()"

lemma no_setr_total: "no_setr p r w \<noteq> None"
  by (simp add: no_setr_def)

text \<open>A timer of four slots with a tick of 100 ms and timeouts at the ticks 2, 6 and 9.\<close>

definition demo_timer :: "((usize \<rightharpoonup> string entry) \<times> nat) timer option" where
  "demo_timer = do {
     t \<leftarrow> timer_new demo_slab 100 4 4;
     (_, t) \<leftarrow> timer_insert demo_slab t 2 ''a'';
     (_, t) \<leftarrow> timer_insert demo_slab t 6 ''b'';
     (_, t) \<leftarrow> timer_insert demo_slab t 9 ''c'';
     Some t
   }"

lemma demo_timer_ok:
  obtains t where "demo_timer = Some t" "timer_prompt demo_slab t" "tm_tick t = 0"
    "tm_tick_ms t = 100" "wake_ok demo_slab t"
    "\<exists>k1 k2 k3. pending demo_slab t = [k1 \<mapsto> (2, ''a''), k2 \<mapsto> (6, ''b''), k3 \<mapsto> (9, ''c'')]"
proof -
  have "demo_timer \<noteq> None" by code_simp
  then obtain t0 o1 t1 o2 t2 o3 t3 where t: "timer_new demo_slab 100 4 4 = Some t0"
    "timer_insert demo_slab t0 2 ''a'' = Some (o1, t1)"
    "timer_insert demo_slab t1 6 ''b'' = Some (o2, t2)"
    "timer_insert demo_slab t2 9 ''c'' = Some (o3, t3)" "demo_timer = Some t3"
    by (auto simp: demo_timer_def split: Option.bind_splits)
  note n = timer_new_spec [OF demo_slab_laws t(1)]
  have w0: "wake_ok demo_slab t0" using n(5) by (simp add: wake_ok_def)
  obtain k1 where p1: "timer_prompt demo_slab t1" "tm_tick t1 = 0" "tm_tick_ms t1 = 100"
    "wake_ok demo_slab t1" "pending demo_slab t1 = (pending demo_slab t0)(k1 \<mapsto> (2, ''a''))"
    by (rule timer_insert_spec [OF demo_slab_laws t(2) prompt_ok [OF n(1)]]) (use n w0 in simp)
  obtain k2 where p2: "timer_prompt demo_slab t2" "tm_tick t2 = 0" "tm_tick_ms t2 = 100"
    "wake_ok demo_slab t2" "pending demo_slab t2 = (pending demo_slab t1)(k2 \<mapsto> (6, ''b''))"
    by (rule timer_insert_spec [OF demo_slab_laws t(3) prompt_ok [OF p1(1)]]) (use p1 in simp)
  obtain k3 where p3: "timer_prompt demo_slab t3" "tm_tick t3 = 0" "tm_tick_ms t3 = 100"
    "wake_ok demo_slab t3" "pending demo_slab t3 = (pending demo_slab t2)(k3 \<mapsto> (9, ''c''))"
    by (rule timer_insert_spec [OF demo_slab_laws t(4) prompt_ok [OF p2(1)]]) (use p2 in simp)
  have "pending demo_slab t3 = [k1 \<mapsto> (2, ''a''), k2 \<mapsto> (6, ''b''), k3 \<mapsto> (9, ''c'')]"
    unfolding p3(5) p2(5) p1(5) n(2) ..
  then show ?thesis using that t(5) p3(1-4) by blast
qed

section \<open>Properties\<close>

text \<open>
  C9: Each operation of the timer refines the abstract timer, a map of the pending
  timeouts: setting a timeout adds it under a fresh key at the tick of its delay (the tick
  after the current one when that has passed), cancelling gives back and removes the
  timeout of this key and tick and nothing else, a poll removes one due timeout or goes past
  its target; the structure of the wheel is kept. Nothing panics, but for a slab that is
  full.
\<close>

theorem timer_refines:
  assumes "slab_laws sl" "\<And>p r w. setr p r w \<noteq> None" "timer_ok sl t"
    "tm_tick_ms t \<noteq> 0" "tm_tick t < u64_max" "\<And>n. op = Poll_to n \<Longrightarrow> n < u64_max"
  shows "case timer_exec sl setr op t w of
      None \<Rightarrow> (\<exists>d a e. op = Set_at d a \<and> sl_insert sl (tm_entries t) e = None)
    | Some (out, t', w') \<Rightarrow>
        timer_allows (tm_tick_ms t) (pending sl t) (tm_tick t) op out (pending sl t') (tm_tick t') \<and>
        timer_ok sl t' \<and> tm_tick_ms t' = tm_tick_ms t"
proof (cases op)
  case (Set_at d a)
  obtain tick where tick: "duration_to_tick d (tm_tick_ms t) = Some tick"
    "set_timeout_at sl t d a = timer_insert sl t (if tick < tm_tick t then tm_tick t + 1 else tick) a"
    by (rule set_timeout_at_insert [OF assms(4,5)])
  show ?thesis
  proof (cases "set_timeout_at sl t d a")
    case None
    then have ins: "timer_insert sl t (if tick < tm_tick t then tm_tick t + 1 else tick) a = None"
      using tick(2) by simp
    have "\<exists>e. sl_insert sl (tm_entries t) e = None"
      using ins unfolding timer_insert_total [OF assms(1,3)] by blast
    then show ?thesis using None Set_at by simp
  next
    case (Some p)
    obtain to t' where p: "p = (to, t')" by (cases p)
    then have run: "timer_insert sl t (if tick < tm_tick t then tm_tick t + 1 else tick) a =
        Some (to, t')" using Some tick(2) by simp
    show ?thesis
      by (rule timer_insert_spec [OF assms(1) run assms(3)])
        (use Some p Set_at tick(1) in \<open>simp split del: if_split\<close>)
  qed
next
  case (Cancel to)
  show ?thesis
    by (rule cancel_timeout_spec [OF assms(1,3), where to = to])
      (auto simp: Cancel split: option.splits if_splits)
next
  case (Poll_to n)
  show ?thesis
    by (rule poll_to_ok [where setr = setr and w = w, OF assms(1,2,3) assms(6) [OF Poll_to] assms(5)])
      (auto simp: Poll_to split: option.splits)
qed

lemma timer_refines_witness:
  "\<exists>t. demo_timer = Some t \<and>
    (case timer_exec demo_slab no_setr (Poll_to 7) t () of
       None \<Rightarrow> False
     | Some (out, t', w') \<Rightarrow>
         timer_allows 100 (pending demo_slab t) 0 (Poll_to 7) out (pending demo_slab t') (tm_tick t') \<and>
         timer_ok demo_slab t')"
proof -
  obtain t where t: "demo_timer = Some t" "timer_prompt demo_slab t" "tm_tick t = 0"
    "tm_tick_ms t = 100" using demo_timer_ok by metis
  have lt: "(0 :: u64) < u64_max" "(7 :: u64) < u64_max" by code_simp+
  show ?thesis
    using timer_refines [where setr = no_setr and op = "Poll_to 7" and w = "()",
      OF demo_slab_laws no_setr_total prompt_ok [OF t(2)]] t lt
    by (intro exI [of _ t]) (auto split: option.splits)
qed

text \<open>
  C8: No timeout is lost or late: as long as none was inserted at the tick being polled,
  polling until the timer has nothing returns exactly the states of the timeouts whose tick
  is at most the target, each once, leaves exactly the others, and, if the timer is
  registered, leaves a wake-up at or before the next one.
\<close>

theorem timer_drain_complete:
  assumes "slab_laws sl" "\<And>p r w. setr p r w \<noteq> None" "timer_prompt sl t"
    "target < u64_max" "tm_tick t \<le> target" "card (due_keys (pending sl t) target) < n"
  shows "\<exists>as t' w'. poll_drain sl setr target n t w = Some (as, t', w') \<and>
    mset as = due_states (pending sl t) target \<and>
    pending sl t' = pending sl t |` (- due_keys (pending sl t) target) \<and>
    timer_prompt sl t' \<and> wake_ok sl t' \<and> tm_tick t' = target + 1"
  by (rule poll_drain_ok [OF assms(1,2,4,3,5,6)])

lemma timer_drain_complete_witness:
  "\<exists>t as t' w'. demo_timer = Some t \<and> poll_drain demo_slab no_setr 7 3 t () = Some (as, t', w') \<and>
    mset as = due_states (pending demo_slab t) 7 \<and> tm_tick t' = 8"
proof -
  obtain t k1 k2 k3 where t: "demo_timer = Some t" "timer_prompt demo_slab t" "tm_tick t = 0"
    "pending demo_slab t = [k1 \<mapsto> (2, ''a''), k2 \<mapsto> (6, ''b''), k3 \<mapsto> (9, ''c'')]"
    using demo_timer_ok by metis
  have "due_keys (pending demo_slab t) 7 \<subseteq> {k1, k2}"
    unfolding t(4) by (auto simp: due_keys_def split: if_splits)
  then have "card (due_keys (pending demo_slab t) 7) \<le> card {k1, k2}" by (intro card_mono) simp_all
  also have "card {k1, k2} < 3" by (simp add: card_insert_if)
  finally have card: "card (due_keys (pending demo_slab t) 7) < 3" .
  have "(7 :: u64) < u64_max" by code_simp
  from timer_drain_complete [where setr = no_setr and w = "()",
      OF demo_slab_laws no_setr_total t(2) this _ card] t(1,3)
  show ?thesis by auto
qed

text \<open>Running operations one after the other, their results dropped.\<close>

fun timer_execs ::
  "('s, 'a entry) slab_ops \<Rightarrow> (nat \<Rightarrow> ready \<Rightarrow> 'w \<Rightarrow> 'w option) \<Rightarrow> 'a timer_op list \<Rightarrow> 's timer \<Rightarrow> 'w \<Rightarrow>
   ('s timer \<times> 'w) option" where
  "timer_execs sl setr [] t w = Some (t, w)"
| "timer_execs sl setr (op # ops) t w =
     (case timer_exec sl setr op t w of
        None \<Rightarrow> None
      | Some (_, t, w) \<Rightarrow> timer_execs sl setr ops t w)"

fun is_poll :: "'a timer_op \<Rightarrow> bool" where
  "is_poll (Poll_to _) = True"
| "is_poll _ = False"

text \<open>Setting a timeout at the tick the cursor is in puts it behind the cursor.\<close>

fun punctual :: "u64 \<Rightarrow> tick \<Rightarrow> 'a timer_op \<Rightarrow> bool" where
  "punctual ms now (Set_at d _) = (duration_to_tick d ms \<noteq> Some now)"
| "punctual ms now (Poll_to n) = (n < u64_max)"
| "punctual ms now (Cancel _) = True"

lemma tick_step: "tm_tick t < u64_max \<Longrightarrow> tm_tick t < tm_tick t + 1"
  by (simp add: word_less_nat_alt unat_word_ariths unat_u64_max)

lemma timer_exec_keeps:
  assumes laws: "slab_laws sl" and setr: "\<And>p r w. setr p r w \<noteq> None" and ok: "timer_ok sl t"
    and ms: "tm_tick_ms t \<noteq> 0" "tm_tick t < u64_max"
    and p: "is_poll op \<Longrightarrow> punctual (tm_tick_ms t) (tm_tick t) op"
    and run: "timer_exec sl setr op t w = Some (out, t', w')"
  shows "timer_ok sl t'" "tm_tick_ms t' = tm_tick_ms t"
    "\<not> is_poll op \<Longrightarrow> tm_tick t' = tm_tick t"
    "\<not> is_poll op \<Longrightarrow> wake_ok sl t \<Longrightarrow> wake_ok sl t'"
    "punctual (tm_tick_ms t) (tm_tick t) op \<Longrightarrow> timer_prompt sl t \<Longrightarrow> timer_prompt sl t'"
proof -
  have "timer_ok sl t' \<and> tm_tick_ms t' = tm_tick_ms t \<and>
    (\<not> is_poll op \<longrightarrow> tm_tick t' = tm_tick t \<and> (wake_ok sl t \<longrightarrow> wake_ok sl t')) \<and>
    (punctual (tm_tick_ms t) (tm_tick t) op \<longrightarrow> timer_prompt sl t \<longrightarrow> timer_prompt sl t')"
  proof (cases op)
    case (Set_at d a)
    obtain tick where tick: "duration_to_tick d (tm_tick_ms t) = Some tick"
      "set_timeout_at sl t d a = timer_insert sl t (if tick < tm_tick t then tm_tick t + 1 else tick) a"
      by (rule set_timeout_at_insert [OF ms])
    let ?tick = "if tick < tm_tick t then tm_tick t + 1 else tick"
    obtain to where ins: "timer_insert sl t ?tick a = Some (to, t')"
      using run tick(2) Set_at by (auto split del: if_split)
    have "tick \<noteq> tm_tick t \<Longrightarrow> tm_tick t < ?tick" using tick_step [OF ms(2)] by auto
    then have "punctual (tm_tick_ms t) (tm_tick t) op \<Longrightarrow> tm_tick t < ?tick"
      using tick(1) Set_at by (simp split del: if_split)
    then show ?thesis by (cases rule: timer_insert_spec [OF laws ins ok]) (use Set_at is_poll.simps in blast)
  next
    case (Cancel to)
    show ?thesis by (rule cancel_timeout_spec [OF laws ok, where to = to]) (use run Cancel in auto)
  next
    case (Poll_to n)
    then have "n < u64_max" using p by simp
    then show ?thesis
      by (rule poll_to_ok [where setr = setr and w = w, OF laws setr ok _ ms(2)])
        (use run Poll_to in auto)
  qed
  then show "timer_ok sl t'" "tm_tick_ms t' = tm_tick_ms t"
    "\<not> is_poll op \<Longrightarrow> tm_tick t' = tm_tick t"
    "\<not> is_poll op \<Longrightarrow> wake_ok sl t \<Longrightarrow> wake_ok sl t'"
    "punctual (tm_tick_ms t) (tm_tick t) op \<Longrightarrow> timer_prompt sl t \<Longrightarrow> timer_prompt sl t'"
    by blast+
qed

lemma timer_execs_wake:
  assumes laws: "slab_laws sl" and setr: "\<And>p r w. setr p r w \<noteq> None"
  shows "timer_execs sl setr ops t w = Some (t', w') \<Longrightarrow> \<forall>op \<in> set ops. \<not> is_poll op \<Longrightarrow>
    timer_ok sl t \<Longrightarrow> wake_ok sl t \<Longrightarrow> tm_tick_ms t \<noteq> 0 \<Longrightarrow> tm_tick t < u64_max \<Longrightarrow> wake_ok sl t'"
proof (induction ops arbitrary: t w)
  case (Cons op ops)
  obtain out t1 w1 where run: "timer_exec sl setr op t w = Some (out, t1, w1)"
    "timer_execs sl setr ops t1 w1 = Some (t', w')"
    using Cons.prems(1) by (auto split: option.splits)
  have np: "\<not> is_poll op" using Cons.prems(2) by simp
  note k = timer_exec_keeps [where setr = setr, OF laws setr Cons.prems(3,5,6) _ run(1)]
  have "timer_ok sl t1" "tm_tick_ms t1 = tm_tick_ms t" "tm_tick t1 = tm_tick t" "wake_ok sl t1"
    using k(1,2,3,4) np Cons.prems(4) by blast+
  then show ?case using Cons.IH [OF run(2)] Cons.prems by simp
qed simp

text \<open>
  C23: A registered timer never oversleeps: after a poll that found nothing, whatever
  timeouts are set and cancelled before the next poll, the wake-up tick the thread sees is
  at or before the tick of every pending timeout.
\<close>

theorem timer_wakes_in_time:
  assumes "slab_laws sl" "\<And>p r w. setr p r w \<noteq> None" "timer_prompt sl t" "tm_tick_ms t \<noteq> 0"
    "tm_tick t < u64_max" "target < u64_max - 1" "tm_tick t < u64_max - 1"
    "poll_to sl setr target t w = Some (None, t1, w1)"
    "timer_execs sl setr ops t1 w1 = Some (t2, w2)" "\<forall>op \<in> set ops. \<not> is_poll op"
    "lc_borrow (tm_inner t2) = Some inner" "pending sl t2 k = Some (tick, a)"
  shows "ti_wakeup_state inner \<le> tick"
proof -
  have max: "unat (u64_max - 1) = 2 ^ 64 - 2" by (simp add: u64_max_def)
  have "target < u64_max" using assms(6) max by (simp add: word_less_nat_alt unat_u64_max)
  have t1: "timer_ok sl t1 \<and> wake_ok sl t1 \<and> tm_tick_ms t1 = tm_tick_ms t \<and>
      unat (tm_tick t1) = Suc (unat (max target (tm_tick t)))"
    by (rule poll_to_ok [where setr = setr and w = w,
          OF assms(1,2) prompt_ok [OF assms(3)] \<open>target < u64_max\<close> assms(5)])
      (use assms(3,8) in auto)
  moreover have "tm_tick t1 < u64_max"
    using t1 assms(6,7) max by (auto simp: word_less_nat_alt unat_u64_max max_def split: if_splits)
  ultimately have "wake_ok sl t2"
    using timer_execs_wake [where setr = setr, OF assms(1,2,9,10)] assms(4) by simp
  then show ?thesis using assms(11,12) by (auto simp: wake_ok_def lc_borrow_def not_after_def)
qed

text \<open>The same timer, registered.\<close>

definition demo_registered :: "((usize \<rightharpoonup> string entry) \<times> nat) timer option" where
  "demo_registered = map_option (\<lambda>t. t\<lparr>tm_inner := \<lparr>lc_inner = Some \<lparr>ti_registration = 0,
     ti_set_readiness = 0, ti_wakeup_state = u64_max, ti_unparks = 0\<rparr>\<rparr>\<rparr>) demo_timer"

lemma timer_wakes_in_time_witness:
  "\<exists>t2 w2 inner. do {
      t \<leftarrow> demo_registered;
      (r, t1, w1) \<leftarrow> poll_to demo_slab no_setr 1 t ();
      timer_execs demo_slab no_setr [Set_at \<lparr>dur_secs = 0, dur_nanos = 500000000\<rparr> ''d'',
        Cancel \<lparr>to_token = Token 1, to_tick = 6\<rparr>] t1 w1
    } = Some (t2, w2) \<and> lc_borrow (tm_inner t2) = Some inner \<and> ti_wakeup_state inner \<le> 2"
proof -
  let ?ops = "[Set_at \<lparr>dur_secs = 0, dur_nanos = 500000000\<rparr> ''d'', Cancel \<lparr>to_token = Token 1, to_tick = 6\<rparr>]"
  have run: "do {
      t \<leftarrow> demo_registered;
      (r, t1, w1) \<leftarrow> poll_to demo_slab no_setr 1 t ();
      (t2, w2) \<leftarrow> timer_execs demo_slab no_setr ?ops t1 w1;
      inner \<leftarrow> lc_borrow (tm_inner t2);
      Some (r, pending demo_slab t2 0)
    } = Some (None, Some (2, ''a''))" by code_simp
  obtain t0 where t0: "demo_timer = Some t0" "timer_prompt demo_slab t0" "tm_tick t0 = 0"
    "tm_tick_ms t0 = 100" using demo_timer_ok by metis
  obtain t where t: "demo_registered = Some t" "timer_prompt demo_slab t" "tm_tick t = 0"
    "tm_tick_ms t = 100" using t0(2-4) unfolding demo_registered_def t0(1) by simp
  obtain t1 w1 where t1: "poll_to demo_slab no_setr 1 t () = Some (None, t1, w1)"
    and t2: "do {
      (t2, w2) \<leftarrow> timer_execs demo_slab no_setr ?ops t1 w1;
      inner \<leftarrow> lc_borrow (tm_inner t2);
      Some (None, pending demo_slab t2 0)
    } = Some (None :: string option, Some (2, ''a''))"
    using run unfolding t(1) by (auto simp del: timer_execs.simps timer_exec.simps split: Option.bind_splits)
  then obtain t2 w2 inner where e: "timer_execs demo_slab no_setr ?ops t1 w1 = Some (t2, w2)"
    "lc_borrow (tm_inner t2) = Some inner" "pending demo_slab t2 0 = Some (2, ''a'')"
    by (auto simp del: timer_execs.simps timer_exec.simps split: Option.bind_splits)
  have lt: "(0 :: u64) < u64_max" "(1 :: u64) < u64_max - 1" "(0 :: u64) < u64_max - 1" by code_simp+
  have "ti_wakeup_state inner \<le> 2"
    by (rule timer_wakes_in_time [where setr = no_setr, OF demo_slab_laws no_setr_total t(2) _ _ lt(2) _ t1 e(1) _ e(2,3)])
      (use t(3,4) lt in simp_all)
  then show ?thesis using t1 e(1,2) unfolding t(1) by (auto simp del: timer_execs.simps timer_exec.simps)
qed

text \<open>
  C24: No operation makes the timer miss a timeout, but one: a timeout whose delay rounds to
  the very tick the cursor is in.
\<close>

theorem timer_stays_prompt:
  assumes "slab_laws sl" "\<And>p r w. setr p r w \<noteq> None" "timer_prompt sl t" "tm_tick_ms t \<noteq> 0"
    "tm_tick t < u64_max" "punctual (tm_tick_ms t) (tm_tick t) op"
    "timer_exec sl setr op t w = Some (out, t', w')"
  shows "timer_prompt sl t'"
  using timer_exec_keeps(5) [where setr = setr, OF assms(1,2) prompt_ok [OF assms(3)] assms(4,5) _ assms(7)]
    assms(3,6) by blast

lemma timer_stays_prompt_witness:
  "\<exists>t out t' w'. demo_timer = Some t \<and>
    timer_exec demo_slab no_setr (Set_at \<lparr>dur_secs = 0, dur_nanos = 500000000\<rparr> ''d'') t () = Some (out, t', w') \<and>
    timer_prompt demo_slab t'"
proof -
  let ?op = "Set_at \<lparr>dur_secs = 0, dur_nanos = 500000000\<rparr> ''d''"
  have run: "do {t \<leftarrow> demo_timer; timer_exec demo_slab no_setr ?op t ()} \<noteq> None" by code_simp
  obtain t where t: "demo_timer = Some t" "timer_prompt demo_slab t" "tm_tick t = 0"
    "tm_tick_ms t = 100" using demo_timer_ok by metis
  obtain out t' w' where e: "timer_exec demo_slab no_setr ?op t () = Some (out, t', w')"
    using run unfolding t(1) by (auto simp del: timer_exec.simps)
  have "(0 :: u64) < u64_max" "duration_to_tick \<lparr>dur_secs = 0, dur_nanos = 500000000\<rparr> 100 \<noteq> Some 0"
    by code_simp+
  then have "timer_prompt demo_slab t'"
    by (intro timer_stays_prompt [where setr = no_setr, OF demo_slab_laws no_setr_total t(2) _ _ _ e])
      (use t(3,4) in simp_all)
  then show ?thesis using t(1) e by blast
qed

text \<open>
  A new timer has the least power of two of slots that holds the number asked for, is
  empty and at tick 0, and can be made unless a size exceeds \<open>2 ^ 63\<close>.
\<close>

lemma timer_new_fresh:
  assumes "slab_laws sl" "unat num_slots \<le> 2 ^ 63" "unat capacity \<le> 2 ^ 63"
  shows "\<exists>t n. timer_new sl tick_ms num_slots capacity = Some t \<and>
    length (tm_wheel t) = 2 ^ n \<and> unat num_slots \<le> 2 ^ n \<and> (\<forall>m. unat num_slots \<le> 2 ^ m \<longrightarrow> n \<le> m) \<and>
    (\<forall>tick. slot_for t tick = take_bit n tick) \<and>
    timer_prompt sl t \<and> pending sl t = Map.empty \<and> tm_tick t = 0"
proof -
  obtain s c where p: "next_power_of_two num_slots = Some s" "next_power_of_two capacity = Some c"
    using next_power_of_two_None [of num_slots] next_power_of_two_None [of capacity] assms(2,3)
    by (metis not_le not_Some_eq)
  then obtain t where t: "timer_new sl tick_ms num_slots capacity = Some t"
    "length (tm_wheel t) = unat s" "tm_mask t = s - 1"
    by (simp add: timer_new_def Let_def)
  obtain n where n: "s = word_of_nat (2 ^ n)" "n < 64" "unat s = 2 ^ n" "unat num_slots \<le> 2 ^ n"
    "\<And>m. unat num_slots \<le> 2 ^ m \<Longrightarrow> n \<le> m" using next_power_of_two_spec [OF p(1)] by metis
  have "s - 1 = mask n" using n(1) by (simp add: mask_eq_exp_minus_1)
  then have "slot_for t tick = take_bit n tick" for tick
    by (simp add: slot_for_def t(3) take_bit_eq_mask and.commute)
  then show ?thesis using t n timer_new_spec [OF assms(1) t(1)] by auto
qed

lemma timer_new_fresh_example:
  "\<exists>t n. timer_new (demo_slab :: (_, string entry) slab_ops) 100 5 4 = Some t \<and> length (tm_wheel t) = 2 ^ n \<and> (5 :: nat) \<le> 2 ^ n"
proof -
  have le: "unat (5 :: usize) \<le> 2 ^ 63" "unat (4 :: usize) \<le> 2 ^ 63" by simp_all
  obtain t n where "timer_new (demo_slab :: (_, string entry) slab_ops) 100 5 4 = Some t" "length (tm_wheel t) = 2 ^ n"
    "unat (5 :: usize) \<le> 2 ^ n"
    using timer_new_fresh [OF demo_slab_laws le, of 100] by blast
  then show ?thesis by (intro exI [of _ t] exI [of _ n]) simp
qed

text \<open>
  The tick of a delay is the delay rounded to the nearest multiple of the tick
  duration, half a tick rounding up, and never wraps: past the range it saturates.
\<close>

lemma duration_to_tick_rounds:
  assumes "duration_to_tick d tick_ms = Some tick"
    "unat (millis d) + unat tick_ms div 2 < 2 ^ 64"
  shows "unat tick * unat tick_ms \<le> unat (millis d) + unat tick_ms div 2 \<and>
    unat (millis d) + unat tick_ms div 2 < (unat tick + 1) * unat tick_ms"
proof -
  have ms: "0 < unat tick_ms" and
    tick: "tick = saturating_add (millis d) (tick_ms div 2) div tick_ms"
    using assms(1) by (auto simp: duration_to_tick_def Let_def unat_gt_0 split: if_splits)
  have "unat tick = (unat (millis d) + unat tick_ms div 2) div unat tick_ms"
    using assms(2) by (simp add: tick unat_div unat_saturating_add)
  then show ?thesis
    using ms div_times_less_eq_dividend [of "unat (millis d) + unat tick_ms div 2" "unat tick_ms"]
      dividend_less_div_times [OF ms, of "unat (millis d) + unat tick_ms div 2"] by simp
qed

lemma duration_to_tick_rounds_example:
  "duration_to_tick \<lparr>dur_secs = 1, dur_nanos = 260000000\<rparr> 100 = Some 13 \<and>
    (13 :: nat) * 100 \<le> 1260 + 50 \<and> 1260 + 50 < (13 + 1) * (100 :: nat)"
proof -
  have e: "duration_to_tick \<lparr>dur_secs = 1, dur_nanos = 260000000\<rparr> 100 = Some 13"
    "millis \<lparr>dur_secs = 1, dur_nanos = 260000000\<rparr> = 1260" by code_simp+
  show ?thesis using duration_to_tick_rounds [OF e(1)] e by simp
qed

end
