(* ===== verification/Wakeup_Thread.thy ===== *)
theory Wakeup_Thread
  imports Timer_Spec
begin

text \<open>
  The thread of a registered timer, \<^verbatim>\<open>spawn_wakeup_thread\<close> of \<^verbatim>\<open>src/timer.rs\<close>, running
  beside \<^verbatim>\<open>schedule_readiness\<close> and the drop of the timer. They share the wake-up word;
  each transition below is one atomic access to it, or one park or unpark.
\<close>

section \<open>The transitions\<close>

definition TERMINATE_THREAD :: usize where "TERMINATE_THREAD = 0"

text \<open>
  Where the thread is, with \<^verbatim>\<open>sleep_until_tick\<close>: before a load of the word; at the head of
  the loop; in \<^verbatim>\<open>park_timeout\<close> (\<open>Some\<close> milliseconds) or \<^verbatim>\<open>park\<close>, begun at some tick; before
  the \<^verbatim>\<open>compare_exchange\<close>, the clock being at some tick; before setting the readiness; gone.
\<close>

datatype wt_pc =
    Load
  | Top tick
  | Parked tick tick "u64 option"
  | Swap tick tick
  | Signal
  | Ended

text \<open>
  \<open>wt_permit\<close> is the token of \<^verbatim>\<open>park\<close>; \<open>wt_owed\<close> says that the other side has written the
  word and not yet called \<^verbatim>\<open>unpark\<close>; \<open>wt_fired\<close> counts the readiness set.
\<close>

record wt =
  wt_word :: usize
  wt_permit :: bool
  wt_owed :: bool
  wt_pc :: wt_pc
  wt_fired :: nat

definition wt_init :: wt where
  "wt_init = \<lparr>wt_word = usize_max, wt_permit = False, wt_owed = False, wt_pc = Load, wt_fired = 0\<rparr>"

definition thread_top :: "u64 \<Rightarrow> tick \<Rightarrow> tick \<Rightarrow> wt_pc" where
  "thread_top tick_ms now_tick sleep_until_tick =
     (if sleep_until_tick = TERMINATE_THREAD then Ended
      else if now_tick < sleep_until_tick
      then Parked sleep_until_tick now_tick (checked_mul tick_ms (sleep_until_tick - now_tick))
      else Swap sleep_until_tick now_tick)"

text \<open>One step of the thread, the clock being at \<open>now\<close>. A park may return at any time.\<close>

definition wt_step :: "u64 \<Rightarrow> tick \<Rightarrow> wt \<Rightarrow> wt" where
  "wt_step tick_ms now w =
     (case wt_pc w of
        Load \<Rightarrow> w\<lparr>wt_pc := Top (wt_word w)\<rparr>
      | Top s \<Rightarrow> w\<lparr>wt_pc := thread_top tick_ms now s\<rparr>
      | Parked s _ _ \<Rightarrow> w\<lparr>wt_pc := Load, wt_permit := False\<rparr>
      | Swap s _ \<Rightarrow>
          if wt_word w = s then w\<lparr>wt_word := usize_max, wt_pc := Signal\<rparr>
          else w\<lparr>wt_pc := Top (wt_word w)\<rparr>
      | Signal \<Rightarrow> w\<lparr>wt_fired := Suc (wt_fired w), wt_pc := Top usize_max\<rparr>
      | Ended \<Rightarrow> w)"

text \<open>The word as \<^verbatim>\<open>schedule_readiness\<close> leaves it, and the store of the drop.\<close>

definition wt_schedule :: "tick \<Rightarrow> wt \<Rightarrow> wt" where
  "wt_schedule tick w =
     (case schedule_body tick (wt_word w) of
        Some (Inr next) \<Rightarrow> w\<lparr>wt_word := next, wt_owed := True\<rparr>
      | _ \<Rightarrow> w)"

definition wt_unpark :: "wt \<Rightarrow> wt" where
  "wt_unpark w = w\<lparr>wt_owed := False, wt_permit := True\<rparr>"

definition inner_drop_store :: "wt \<Rightarrow> wt" where
  "inner_drop_store w = w\<lparr>wt_word := TERMINATE_THREAD, wt_owed := True\<rparr>"

inductive wt_trans :: "u64 \<Rightarrow> wt \<Rightarrow> wt \<Rightarrow> bool" for tick_ms :: u64 where
  thread: "wt_trans tick_ms w (wt_step tick_ms now w)"
| schedule: "\<not> wt_owed w \<Longrightarrow> wt_trans tick_ms w (wt_schedule tick w)"
| unpark: "wt_owed w \<Longrightarrow> wt_trans tick_ms w (wt_unpark w)"
| dropped: "\<not> wt_owed w \<Longrightarrow> wt_trans tick_ms w (inner_drop_store w)"

inductive_cases wt_transE: "wt_trans tick_ms w w'"

abbreviation wt_reach :: "u64 \<Rightarrow> wt \<Rightarrow> wt \<Rightarrow> bool" where
  "wt_reach tick_ms \<equiv> (wt_trans tick_ms)\<^sup>*\<^sup>*"

lemma wt_reach_intros:
  "wt_reach tick_ms u w \<Longrightarrow> wt_reach tick_ms u (wt_step tick_ms now w)"
  "wt_reach tick_ms u w \<Longrightarrow> \<not> wt_owed w \<Longrightarrow> wt_reach tick_ms u (wt_schedule tick w)"
  "wt_reach tick_ms u w \<Longrightarrow> wt_owed w \<Longrightarrow> wt_reach tick_ms u (wt_unpark w)"
  using rtranclp.rtrancl_into_rtrancl wt_trans.intros(1-3) by metis+

section \<open>Invariant\<close>

text \<open>
  The thread has seen the word as it is, or it will be woken up to look again. What it
  waits for or fires at is consistent with the clock.
\<close>

definition seen :: "wt \<Rightarrow> tick \<Rightarrow> bool" where
  "seen w s \<longleftrightarrow> wt_word w = s \<or> wt_owed w \<or> wt_permit w"

definition wt_inv :: "u64 \<Rightarrow> wt \<Rightarrow> bool" where
  "wt_inv tick_ms w \<longleftrightarrow>
     (case wt_pc w of
        Load \<Rightarrow> True
      | Top s \<Rightarrow> seen w s
      | Parked s now d \<Rightarrow> seen w s \<and> s \<noteq> TERMINATE_THREAD \<and> now < s \<and> d = checked_mul tick_ms (s - now)
      | Swap s now \<Rightarrow> seen w s \<and> s \<noteq> TERMINATE_THREAD \<and> s \<le> now
      | Signal \<Rightarrow> seen w usize_max
      | Ended \<Rightarrow> seen w TERMINATE_THREAD)"

lemma wt_inv_init: "wt_inv tick_ms wt_init"
  by (simp add: wt_inv_def wt_init_def)

lemma wt_inv_step: "wt_inv tick_ms w \<Longrightarrow> wt_inv tick_ms (wt_step tick_ms now w)"
  by (cases "wt_pc w")
    (auto simp: wt_inv_def wt_step_def thread_top_def seen_def)

lemma wt_inv_write:
  "wt_inv tick_ms w \<Longrightarrow> wt_inv tick_ms (w\<lparr>wt_word := v, wt_owed := True\<rparr>)"
  by (cases "wt_pc w") (auto simp: wt_inv_def seen_def)

lemma wt_inv_trans: "wt_trans tick_ms w w' \<Longrightarrow> wt_inv tick_ms w \<Longrightarrow> wt_inv tick_ms w'"
proof (induction rule: wt_trans.induct)
  case (schedule w tick)
  then show ?case
    using wt_inv_write by (simp add: wt_schedule_def schedule_body_def)
next
  case (unpark w)
  then show ?case by (cases "wt_pc w") (auto simp: wt_inv_def wt_unpark_def seen_def)
next
  case (dropped w)
  then show ?case using wt_inv_write by (simp add: inner_drop_store_def)
qed (rule wt_inv_step)

lemma wt_inv_reach: "wt_reach tick_ms wt_init w \<Longrightarrow> wt_inv tick_ms w"
  by (induction rule: rtranclp_induct) (auto intro: wt_inv_init wt_inv_trans)

lemma zero_word_trans:
  assumes "wt_trans tick_ms w w'" "wt_word w = TERMINATE_THREAD" "wt_pc w \<noteq> Signal"
    "\<forall>now. wt_pc w \<noteq> Swap TERMINATE_THREAD now"
  shows "wt_word w' = TERMINATE_THREAD \<and> wt_pc w' \<noteq> Signal \<and> wt_fired w' = wt_fired w \<and>
    (\<forall>now. wt_pc w' \<noteq> Swap TERMINATE_THREAD now)"
  using assms
proof (induction rule: wt_trans.induct)
  case (thread w now)
  then show ?case by (cases "wt_pc w") (auto simp: wt_step_def thread_top_def)
qed (auto simp: wt_schedule_def schedule_body_def inner_drop_store_def wt_unpark_def TERMINATE_THREAD_def)

lemma zero_word_reach:
  assumes "wt_reach tick_ms w w'" "wt_word w = TERMINATE_THREAD" "wt_pc w \<noteq> Signal"
    "\<forall>now. wt_pc w \<noteq> Swap TERMINATE_THREAD now"
  shows "wt_word w' = TERMINATE_THREAD \<and> wt_pc w' \<noteq> Signal \<and> wt_fired w' = wt_fired w \<and>
    (\<forall>now. wt_pc w' \<noteq> Swap TERMINATE_THREAD now)"
  using assms by (induction rule: rtranclp_induct) (auto dest: zero_word_trans)

section \<open>Properties\<close>

text \<open>
  C10: No wake-up is lost, whatever the interleaving: when the thread is parked with no
  \<^verbatim>\<open>unpark\<close> pending, it waits for exactly the tick in the shared word, with the remaining
  time as its timeout (unbounded only when that overflows); it sets the readiness only for
  a tick that has come; and it is gone only if it was told to end.
\<close>

theorem wakeup_not_lost:
  assumes "wt_reach tick_ms wt_init w"
  shows "(\<forall>s now d. wt_pc w = Parked s now d \<longrightarrow>
        (wt_owed w \<or> wt_permit w \<or> wt_word w = s) \<and> now < s \<and> d = checked_mul tick_ms (s - now)) \<and>
    (\<forall>s now. wt_pc w = Swap s now \<longrightarrow> s \<le> now \<and> (wt_owed w \<or> wt_permit w \<or> wt_word w = s)) \<and>
    (wt_pc w = Ended \<longrightarrow> wt_owed w \<or> wt_permit w \<or> wt_word w = TERMINATE_THREAD)"
  using wt_inv_reach [OF assms] by (auto simp: wt_inv_def seen_def)

lemma wakeup_not_lost_witness:
  "\<exists>v now d. wt_reach 100 wt_init v \<and> wt_pc v = Parked usize_max now d \<and> wt_word v = 5 \<and> wt_owed v \<and>
    now < usize_max \<and> d = checked_mul 100 (usize_max - now)"
proof -
  let ?w = "wt_step 100 2 (wt_step 100 1 wt_init)"
  let ?v = "wt_schedule 5 ?w"
  have "\<not> wt_owed ?w" by code_simp
  then have r: "wt_reach 100 wt_init ?v" by (intro wt_reach_intros rtranclp.rtrancl_refl)
  have p: "wt_pc ?v = Parked usize_max 2 (checked_mul 100 (usize_max - 2))" by code_simp
  have "wt_word ?v = 5" "wt_owed ?v" by code_simp+
  moreover have "(2 :: tick) < usize_max \<and>
      checked_mul 100 (usize_max - 2) = checked_mul (100 :: usize) (usize_max - 2)"
    using wakeup_not_lost [OF r] p by blast
  ultimately show ?thesis using r p by blast
qed

text \<open>
  C26: A timeout at tick 0 on a registered timer ends its thread for good: scheduling it
  writes the word that means termination, after which no scheduling, not even of another
  timeout, ever makes the thread set the readiness again.
\<close>

theorem tick_zero_ends_thread:
  assumes "wt_reach tick_ms wt_init w" "wt_pc w \<noteq> Signal" "wt_word w \<noteq> 0"
    "wt_reach tick_ms (wt_schedule 0 w) w'"
  shows "wt_word w' = TERMINATE_THREAD \<and> wt_fired w' = wt_fired w"
proof -
  let ?w = "wt_schedule 0 w"
  have w: "?w = w\<lparr>wt_word := 0, wt_owed := True\<rparr>"
    using assms(3) by (simp add: wt_schedule_def schedule_body_def)
  have "\<forall>now. wt_pc w \<noteq> Swap TERMINATE_THREAD now"
    using wt_inv_reach [OF assms(1)] by (auto simp: wt_inv_def)
  then show ?thesis
    using zero_word_reach [OF assms(4)] assms(2) by (simp add: w TERMINATE_THREAD_def)
qed

lemma tick_zero_ends_thread_witness:
  "wt_pc (wt_step 100 1 (wt_step 100 1 (wt_step 100 1 (wt_unpark (wt_schedule 0 (wt_step 100 1 (wt_step 100 1 wt_init))))))) = Ended \<and>
   wt_fired (wt_step 100 1 (wt_unpark (wt_schedule 0 (wt_step 100 1 wt_init)))) = 0"
proof -
  let ?w = "wt_step 100 1 wt_init"
  let ?v = "wt_step 100 1 (wt_unpark (wt_schedule 0 ?w))"
  have r: "wt_reach 100 wt_init ?w" by (intro wt_reach_intros rtranclp.rtrancl_refl)
  have o1: "wt_owed (wt_schedule 0 ?w)" by code_simp
  have "wt_reach 100 (wt_schedule 0 ?w) ?v"
    using o1 by (intro wt_reach_intros rtranclp.rtrancl_refl)
  moreover have "wt_pc ?w \<noteq> Signal" "wt_word ?w \<noteq> 0" by code_simp+
  ultimately have "wt_fired ?v = wt_fired ?w" using tick_zero_ends_thread [OF r] by blast
  moreover have "wt_fired ?w = 0" by code_simp
  moreover have "wt_pc (wt_step 100 1 (wt_step 100 1 (wt_step 100 1 (wt_unpark (wt_schedule 0 (wt_step 100 1 ?w)))))) = Ended"
    by code_simp
  ultimately show ?thesis by simp
qed

end
