(* ===== verification/Readiness_State.thy ===== *)
theory Readiness_State
  imports Event_Imp
begin

text \<open>
  The packed state word of a readiness node, \<^verbatim>\<open>ReadinessState\<close> and \<^verbatim>\<open>AtomicState\<close> of
  \<^verbatim>\<open>src/poll.rs\<close>: five bit fields and two flags in one \<^verbatim>\<open>usize\<close>. The word is kept as
  it is; \<open>rs_view\<close> reads it as a record of its fields, and the methods are shown to
  act on that record. A setter does not mask its argument, so the statements say for
  which arguments it stays within its field.
\<close>

section \<open>Constants\<close>

definition READINESS_SHIFT :: nat where [mio_defs]: "READINESS_SHIFT = 0"
definition INTEREST_SHIFT :: nat where [mio_defs]: "INTEREST_SHIFT = 4"
definition POLL_OPT_SHIFT :: nat where [mio_defs]: "POLL_OPT_SHIFT = 8"
definition TOKEN_RD_SHIFT :: nat where [mio_defs]: "TOKEN_RD_SHIFT = 12"
definition TOKEN_WR_SHIFT :: nat where [mio_defs]: "TOKEN_WR_SHIFT = 14"
definition QUEUED_SHIFT :: nat where [mio_defs]: "QUEUED_SHIFT = 16"
definition DROPPED_SHIFT :: nat where [mio_defs]: "DROPPED_SHIFT = 17"

definition MASK_2 :: usize where [mio_defs]: "MASK_2 = 4 - 1"
definition MASK_4 :: usize where [mio_defs]: "MASK_4 = 16 - 1"
definition QUEUED_MASK :: usize where [mio_defs]: "QUEUED_MASK = push_bit QUEUED_SHIFT 1"
definition DROPPED_MASK :: usize where [mio_defs]: "DROPPED_MASK = push_bit DROPPED_SHIFT 1"
definition MAX_REFCOUNT :: usize where [mio_defs]: "MAX_REFCOUNT = mask 63"

section \<open>ReadinessState\<close>

type_synonym readiness_state = usize

text \<open>The debug assertions on the arguments make \<open>rs_new\<close> partial.\<close>

definition rs_new :: "ready \<Rightarrow> poll_opt \<Rightarrow> readiness_state option" where
  "rs_new interest opt =
     (let interest = ready_as_usize interest; opt = opt_as_usize opt in
      if interest \<le> MASK_4 \<and> opt \<le> MASK_4
      then Some (push_bit INTEREST_SHIFT interest OR push_bit POLL_OPT_SHIFT opt)
      else None)"

definition rs_get :: "readiness_state \<Rightarrow> usize \<Rightarrow> nat \<Rightarrow> usize" where
  "rs_get s m shift = drop_bit shift s AND m"

definition rs_set :: "readiness_state \<Rightarrow> usize \<Rightarrow> usize \<Rightarrow> nat \<Rightarrow> readiness_state" where
  "rs_set s val m shift = (s AND NOT (push_bit shift m)) OR push_bit shift val"

definition rs_readiness :: "readiness_state \<Rightarrow> ready" where
  "rs_readiness s = ready_from_usize (rs_get s MASK_4 READINESS_SHIFT)"

definition rs_interest :: "readiness_state \<Rightarrow> ready" where
  "rs_interest s = ready_from_usize (rs_get s MASK_4 INTEREST_SHIFT)"

definition rs_poll_opt :: "readiness_state \<Rightarrow> poll_opt" where
  "rs_poll_opt s = opt_from_usize (rs_get s MASK_4 POLL_OPT_SHIFT)"

definition rs_effective_readiness :: "readiness_state \<Rightarrow> ready" where
  "rs_effective_readiness s = ready_bitand (rs_readiness s) (rs_interest s)"

definition rs_set_readiness :: "readiness_state \<Rightarrow> ready \<Rightarrow> readiness_state" where
  "rs_set_readiness s v = rs_set s (ready_as_usize v) MASK_4 READINESS_SHIFT"

definition rs_set_interest :: "readiness_state \<Rightarrow> ready \<Rightarrow> readiness_state" where
  "rs_set_interest s v = rs_set s (ready_as_usize v) MASK_4 INTEREST_SHIFT"

definition rs_set_poll_opt :: "readiness_state \<Rightarrow> poll_opt \<Rightarrow> readiness_state" where
  "rs_set_poll_opt s v = rs_set s (opt_as_usize v) MASK_4 POLL_OPT_SHIFT"

definition rs_disarm :: "readiness_state \<Rightarrow> readiness_state" where
  "rs_disarm s = rs_set_interest s ready_empty"

definition rs_is_queued :: "readiness_state \<Rightarrow> bool" where
  "rs_is_queued s \<longleftrightarrow> s AND QUEUED_MASK = QUEUED_MASK"

definition rs_is_dropped :: "readiness_state \<Rightarrow> bool" where
  "rs_is_dropped s \<longleftrightarrow> s AND DROPPED_MASK = DROPPED_MASK"

definition rs_set_queued :: "readiness_state \<Rightarrow> readiness_state option" where
  "rs_set_queued s = (if rs_is_dropped s then None else Some (s OR QUEUED_MASK))"

definition rs_set_dequeued :: "readiness_state \<Rightarrow> readiness_state option" where
  "rs_set_dequeued s = (if rs_is_queued s then Some (s AND NOT QUEUED_MASK) else None)"

definition rs_token_read_pos :: "readiness_state \<Rightarrow> usize" where
  "rs_token_read_pos s = rs_get s MASK_2 TOKEN_RD_SHIFT"

definition rs_token_write_pos :: "readiness_state \<Rightarrow> usize" where
  "rs_token_write_pos s = rs_get s MASK_2 TOKEN_WR_SHIFT"

definition rs_set_token_write_pos :: "readiness_state \<Rightarrow> usize \<Rightarrow> readiness_state" where
  "rs_set_token_write_pos s val = rs_set s val MASK_2 TOKEN_WR_SHIFT"

definition rs_update_token_read_pos :: "readiness_state \<Rightarrow> readiness_state" where
  "rs_update_token_read_pos s = rs_set s (rs_token_write_pos s) MASK_2 TOKEN_RD_SHIFT"

text \<open>The \<^verbatim>\<open>unreachable!()\<close> arms are \<open>None\<close>.\<close>

definition rs_next_token_pos :: "readiness_state \<Rightarrow> usize option" where
  "rs_next_token_pos s =
     (let rd = rs_token_read_pos s; wr = rs_token_write_pos s in
      if wr = 0 then
        (if rd = 1 then Some 2 else if rd = 2 then Some 1 else if rd = 0 then Some 1 else None)
      else if wr = 1 then
        (if rd = 0 then Some 2 else if rd = 2 then Some 0 else if rd = 1 then Some 2 else None)
      else if wr = 2 then
        (if rd = 0 then Some 1 else if rd = 1 then Some 0 else if rd = 2 then Some 0 else None)
      else None)"

section \<open>AtomicState\<close>

datatype ordering = Relaxed | Acquire | Release | AcqRel | SeqCst

text \<open>
  \<^verbatim>\<open>AtomicUsize::compare_exchange\<close> of the standard library: it panics on a failure
  ordering that stores, and otherwise returns the old value and the new content.
\<close>

definition compare_exchange ::
  "'a \<Rightarrow> 'a \<Rightarrow> 'a \<Rightarrow> ordering \<Rightarrow> ordering \<Rightarrow> (('a + 'a) \<times> 'a) option" where
  "compare_exchange cell current new success_order fail_order =
     (if fail_order \<in> {Release, AcqRel} then None
      else if cell = current then Some (Inr cell, new) else Some (Inl cell, cell))"

definition as_new :: "ready \<Rightarrow> poll_opt \<Rightarrow> usize option" where
  "as_new interest opt = rs_new interest opt"

definition as_compare_and_swap ::
  "usize \<Rightarrow> readiness_state \<Rightarrow> readiness_state \<Rightarrow> ordering \<Rightarrow> (readiness_state \<times> usize) option" where
  "as_compare_and_swap cell current new order =
     (let fail_order =
        (if order = Release then Relaxed else if order = AcqRel then Acquire else order)
      in case compare_exchange cell current new order fail_order of
           None \<Rightarrow> None
         | Some (Inr val, cell') \<Rightarrow> Some (val, cell')
         | Some (Inl val, cell') \<Rightarrow> Some (val, cell'))"

definition as_flag_as_dropped :: "usize \<Rightarrow> (bool \<times> usize) option" where
  "as_flag_as_dropped cell =
     (let prev = cell; cell' = cell OR (DROPPED_MASK OR QUEUED_MASK) in
      if rs_is_dropped prev then None else Some (\<not> rs_is_queued prev, cell'))"

section \<open>Fields of the word\<close>

lemma mask_consts: "MASK_2 = mask 2" "MASK_4 = mask 4"
  by (simp_all add: MASK_2_def MASK_4_def mask_eq_exp_minus_1)

lemma bit_rs_get [bit_rules]: "bit (rs_get s (mask w) k) n \<longleftrightarrow> bit s (k + n) \<and> n < w"
  by (auto simp: rs_get_def bit_simps dest: bit_imp_le_length)

lemma bit_rs_set [bit_rules]:
  assumes "n < 64"
  shows "bit (rs_set s v (mask w) k) n \<longleftrightarrow>
     (bit s n \<and> \<not> (k \<le> n \<and> n < k + w)) \<or> (k \<le> n \<and> bit v (n - k))"
  using assms by (auto simp: rs_set_def bit_simps)

lemma rs_get_less: "w < 64 \<Longrightarrow> rs_get s (mask w) k < 2 ^ w"
  unfolding rs_get_def by (rule and_mask_less') simp

lemma rs_get_set_other:
  assumes "v < 2 ^ w" "k + w \<le> k' \<or> k' + w' \<le> k"
  shows "rs_get (rs_set s v (mask w) k) (mask w') k' = rs_get s (mask w') k'"
proof (rule word_64_eqI)
  fix n :: nat
  show "bit (rs_get (rs_set s v (mask w) k) (mask w') k') n = bit (rs_get s (mask w') k') n"
  proof (cases "k' + n < 64")
    case True
    then show ?thesis
      using assms bit_small_word [of v w] by (force simp: bit_rules)
  next
    case False
    then show ?thesis by (auto simp: bit_rules dest: bit_imp_le_length)
  qed
qed


text \<open>
  Every field is read and written by the same two routines; what a client may rely on
  is the contract of a lens with a set of admissible values and of bit positions.
\<close>

locale word_field =
  fixes getf :: "usize \<Rightarrow> usize"
    and setf :: "usize \<Rightarrow> usize \<Rightarrow> usize"
    and fits :: "usize \<Rightarrow> bool"
    and slots :: "nat set"
  assumes get_set: "fits v \<Longrightarrow> getf (setf s v) = v"
    and set_get: "setf s (getf s) = s"
    and set_set: "fits v \<Longrightarrow> setf (setf s v) u = setf s u"
    and get_fits: "fits (getf s)"
    and set_frame: "fits v \<Longrightarrow> n \<notin> slots \<Longrightarrow> n < 64 \<Longrightarrow> bit (setf s v) n = bit s n"
    and get_local: "(\<And>n. n \<in> slots \<Longrightarrow> n < 64 \<Longrightarrow> bit s n = bit t n) \<Longrightarrow> getf s = getf t"
begin

lemma set_same: "getf s = v \<Longrightarrow> setf s v = s"
  using set_get by blast

lemma set_eq_iff_get: "fits v \<Longrightarrow> setf s v = s \<longleftrightarrow> getf s = v"
  using get_set set_get by metis

lemma set_agree:
  assumes "fits v" "\<And>n. n \<notin> slots \<Longrightarrow> n < 64 \<Longrightarrow> bit s n = bit t n" "getf t = v"
  shows "\<And>n. n \<notin> slots \<Longrightarrow> n < 64 \<Longrightarrow> bit (setf s v) n = bit t n"
  using assms set_frame by blast

end

lemma word_field_rs:
  assumes "w < 64" "k + w \<le> 64"
  shows "word_field (\<lambda>s. rs_get s (mask w) k) (\<lambda>s v. rs_set s v (mask w) k)
    (\<lambda>v. v < 2 ^ w) {k..<k + w}"
proof
  fix s t u v :: usize and n
  show "rs_get (rs_set s v (mask w) k) (mask w) k = v" if v: "v < 2 ^ w"
  proof (rule word_64_eqI)
    fix i :: nat assume "i < 64"
    then show "bit (rs_get (rs_set s v (mask w) k) (mask w) k) i = bit v i"
      using assms bit_small_word [OF v, of i] by (cases "k + i < 64") (auto simp: bit_rules)
  qed
  show "rs_set s (rs_get s (mask w) k) (mask w) k = s"
    by (rule word_64_eqI) (auto simp: bit_rules)
  show "rs_set (rs_set s v (mask w) k) u (mask w) k = rs_set s u (mask w) k"
    if v: "v < 2 ^ w"
    using bit_small_word [OF v] by (intro word_64_eqI) (force simp: bit_rules)
  show "rs_get s (mask w) k < 2 ^ w"
    using assms by (intro rs_get_less)
  show "bit (rs_set s v (mask w) k) n = bit s n"
    if v: "v < 2 ^ w" and "n \<notin> {k..<k + w}" "n < 64"
    using that bit_small_word [OF v] by (force simp: bit_rules)
  show "rs_get s (mask w) k = rs_get t (mask w) k"
    if "\<And>n. n \<in> {k..<k + w} \<Longrightarrow> n < 64 \<Longrightarrow> bit s n = bit t n"
    using that assms by (intro word_64_eqI) (auto simp: bit_rules)
qed

interpretation rdy: word_field "\<lambda>s. rs_get s (mask 4) 0" "\<lambda>s v. rs_set s v (mask 4) 0"
    "\<lambda>v. v < 2 ^ 4" "{0..<0 + 4}"
  by (rule word_field_rs) simp_all

interpretation intr: word_field "\<lambda>s. rs_get s (mask 4) 4" "\<lambda>s v. rs_set s v (mask 4) 4"
    "\<lambda>v. v < 2 ^ 4" "{4..<4 + 4}"
  by (rule word_field_rs) simp_all

interpretation popt: word_field "\<lambda>s. rs_get s (mask 4) 8" "\<lambda>s v. rs_set s v (mask 4) 8"
    "\<lambda>v. v < 2 ^ 4" "{8..<8 + 4}"
  by (rule word_field_rs) simp_all

interpretation tokrd: word_field "\<lambda>s. rs_get s (mask 2) 12" "\<lambda>s v. rs_set s v (mask 2) 12"
    "\<lambda>v. v < 2 ^ 2" "{12..<12 + 2}"
  by (rule word_field_rs) simp_all

interpretation tokwr: word_field "\<lambda>s. rs_get s (mask 2) 14" "\<lambda>s v. rs_set s v (mask 2) 14"
    "\<lambda>v. v < 2 ^ 2" "{14..<14 + 2}"
  by (rule word_field_rs) simp_all

section \<open>The word as a record of its fields\<close>

record rs_view =
  v_readiness :: ready
  v_interest :: ready
  v_opt :: poll_opt
  v_rd :: usize
  v_wr :: usize
  v_queued :: bool
  v_dropped :: bool

definition rs_view :: "readiness_state \<Rightarrow> rs_view" where
  "rs_view s = \<lparr>v_readiness = rs_readiness s, v_interest = rs_interest s, v_opt = rs_poll_opt s,
     v_rd = rs_token_read_pos s, v_wr = rs_token_write_pos s,
     v_queued = rs_is_queued s, v_dropped = rs_is_dropped s\<rparr>"

definition ready_fits :: "ready \<Rightarrow> bool" where
  "ready_fits r \<longleftrightarrow> ready_0 r \<le> 15"

definition opt_fits :: "poll_opt \<Rightarrow> bool" where
  "opt_fits a \<longleftrightarrow> opt_0 a \<le> 15"

lemma flag_mask_bit:
  fixes s :: usize
  assumes "k < 64"
  shows "s AND 2 ^ k = 2 ^ k \<longleftrightarrow> bit s k"
proof
  assume "s AND 2 ^ k = 2 ^ k"
  then have "bit (s AND 2 ^ k) k = bit (2 ^ k :: usize) k" by simp
  then show "bit s k" using assms by (simp add: bit_and_iff bit_exp_iff)
next
  assume "bit s k"
  then show "s AND 2 ^ k = 2 ^ k"
    by (intro word_64_eqI) (auto simp: bit_and_iff bit_exp_iff)
qed

lemma flag_masks: "QUEUED_MASK = 2 ^ 16" "DROPPED_MASK = 2 ^ 17"
  by (simp_all add: mio_defs)

lemma is_queued_bit: "rs_is_queued s \<longleftrightarrow> bit s 16"
  unfolding rs_is_queued_def flag_masks by (rule flag_mask_bit) simp

lemma is_dropped_bit: "rs_is_dropped s \<longleftrightarrow> bit s 17"
  unfolding rs_is_dropped_def flag_masks by (rule flag_mask_bit) simp

lemmas field_accessors = rs_readiness_def rs_interest_def rs_poll_opt_def
  rs_token_read_pos_def rs_token_write_pos_def ready_from_usize_def opt_from_usize_def
  READINESS_SHIFT_def INTEREST_SHIFT_def POLL_OPT_SHIFT_def TOKEN_RD_SHIFT_def
  TOKEN_WR_SHIFT_def mask_consts

lemmas field_setters = rs_set_readiness_def rs_set_interest_def rs_set_poll_opt_def
  rs_set_token_write_pos_def rs_update_token_read_pos_def ready_as_usize_def opt_as_usize_def

lemma bit_16_17_rs_set:
  assumes "v < 2 ^ w" "k + w \<le> 16"
  shows "bit (rs_set s v (mask w) k) 16 = bit s 16" "bit (rs_set s v (mask w) k) 17 = bit s 17"
  using assms bit_small_word [OF assms(1), of "16 - k"] bit_small_word [OF assms(1), of "17 - k"]
  by (auto simp: bit_rules)

lemmas field_reads = rdy.get_set intr.get_set popt.get_set tokrd.get_set tokwr.get_set
  rdy.get_fits intr.get_fits popt.get_fits tokrd.get_fits tokwr.get_fits
  rs_get_set_other bit_16_17_rs_set is_queued_bit is_dropped_bit

lemma view_set_readiness:
  "ready_fits r \<Longrightarrow> rs_view (rs_set_readiness s r) = (rs_view s)\<lparr>v_readiness := r\<rparr>"
  by (simp add: rs_view_def ready_fits_def word_le_15 field_accessors field_setters field_reads)

lemma view_set_interest:
  "ready_fits r \<Longrightarrow> rs_view (rs_set_interest s r) = (rs_view s)\<lparr>v_interest := r\<rparr>"
  by (simp add: rs_view_def ready_fits_def word_le_15 field_accessors field_setters field_reads)

lemma view_set_poll_opt:
  "opt_fits a \<Longrightarrow> rs_view (rs_set_poll_opt s a) = (rs_view s)\<lparr>v_opt := a\<rparr>"
  by (simp add: rs_view_def opt_fits_def word_le_15 field_accessors field_setters field_reads)

lemma view_set_token_write_pos:
  "p \<le> 3 \<Longrightarrow> rs_view (rs_set_token_write_pos s p) = (rs_view s)\<lparr>v_wr := p\<rparr>"
  by (simp add: rs_view_def word_le_3 field_accessors field_setters field_reads)

lemma view_update_token_read_pos:
  "rs_view (rs_update_token_read_pos s) = (rs_view s)\<lparr>v_rd := rs_token_write_pos s\<rparr>"
  by (simp add: rs_view_def field_accessors field_setters field_reads
      tokwr.get_fits [simplified])

lemma view_disarm: "rs_view (rs_disarm s) = (rs_view s)\<lparr>v_interest := ready_empty\<rparr>"
  unfolding rs_disarm_def
  by (rule view_set_interest) (simp add: ready_fits_def ready_empty_def)


lemma bit_lt_64: "bit (s :: usize) n \<Longrightarrow> n < 64"
  using bit_imp_le_length by force

lemma rs_get_flag:
  assumes "k + w \<le> j"
  shows "rs_get (s OR 2 ^ j) (mask w) k = rs_get s (mask w) k"
    and "rs_get (s AND NOT (2 ^ j)) (mask w) k = rs_get s (mask w) k"
  using assms by (auto intro!: word_64_eqI intro: bit_lt_64 simp: bit_rules bit_simps)

lemma bit_flag:
  fixes s :: usize
  assumes "j < 64" "k < 64"
  shows "bit (s OR 2 ^ j) k \<longleftrightarrow> bit s k \<or> k = j"
    and "bit (s AND NOT (2 ^ j)) k \<longleftrightarrow> bit s k \<and> k \<noteq> j"
  using assms by (auto simp: bit_simps)

lemmas flag_reads = rs_get_flag bit_flag is_queued_bit is_dropped_bit

lemma view_or_queued: "rs_view (s OR QUEUED_MASK) = (rs_view s)\<lparr>v_queued := True\<rparr>"
  unfolding flag_masks by (simp add: rs_view_def field_accessors flag_reads del: power_numeral)

lemma view_dequeued: "rs_view (s AND NOT QUEUED_MASK) = (rs_view s)\<lparr>v_queued := False\<rparr>"
  unfolding flag_masks by (simp add: rs_view_def field_accessors flag_reads del: power_numeral)

lemma view_or_dropped:
  "rs_view (s OR (DROPPED_MASK OR QUEUED_MASK)) =
     (rs_view s)\<lparr>v_queued := True, v_dropped := True\<rparr>"
proof -
  have "s OR (DROPPED_MASK OR QUEUED_MASK) = (s OR 2 ^ 17) OR 2 ^ 16"
    unfolding flag_masks by (simp add: or.assoc)
  then show ?thesis
    by (simp add: rs_view_def field_accessors flag_reads del: power_numeral)
qed

lemma set_queued_cases:
  "rs_set_queued s = Some t \<longleftrightarrow> \<not> rs_is_dropped s \<and> t = s OR QUEUED_MASK"
  by (auto simp: rs_set_queued_def)

lemma set_dequeued_cases:
  "rs_set_dequeued s = Some t \<longleftrightarrow> rs_is_queued s \<and> t = s AND NOT QUEUED_MASK"
  by (auto simp: rs_set_dequeued_def)

lemmas view_setters = view_set_readiness view_set_interest view_set_poll_opt
  view_set_token_write_pos view_update_token_read_pos view_disarm
  view_or_queued view_dequeued view_or_dropped

lemma view_reads:
  "v_readiness (rs_view s) = rs_readiness s" "v_interest (rs_view s) = rs_interest s"
  "v_opt (rs_view s) = rs_poll_opt s" "v_rd (rs_view s) = rs_token_read_pos s"
  "v_wr (rs_view s) = rs_token_write_pos s" "v_queued (rs_view s) = rs_is_queued s"
  "v_dropped (rs_view s) = rs_is_dropped s"
  by (simp_all add: rs_view_def)

text \<open>Reading a field after a step is reading the record the step has updated.\<close>

lemmas reads_of_view = view_reads [symmetric]

section \<open>Well-formed words\<close>

text \<open>
  The token positions name one of the three token cells: the value 3 of the two-bit
  fields never occurs. Every method keeps that, and it is what keeps
  \<^verbatim>\<open>next_token_pos\<close> and \<^verbatim>\<open>token\<close> away from their \<^verbatim>\<open>unreachable!()\<close>.
\<close>

definition rs_wf :: "readiness_state \<Rightarrow> bool" where
  "rs_wf s \<longleftrightarrow> rs_token_read_pos s \<in> {0, 1, 2} \<and> rs_token_write_pos s \<in> {0, 1, 2}"

lemma rs_wf_view: "rs_wf s \<longleftrightarrow> v_rd (rs_view s) \<in> {0, 1, 2} \<and> v_wr (rs_view s) \<in> {0, 1, 2}"
  by (simp add: rs_wf_def view_reads)

lemma rs_wf_setters:
  "ready_fits r \<Longrightarrow> rs_wf (rs_set_readiness s r) = rs_wf s"
  "ready_fits r \<Longrightarrow> rs_wf (rs_set_interest s r) = rs_wf s"
  "opt_fits a \<Longrightarrow> rs_wf (rs_set_poll_opt s a) = rs_wf s"
  "rs_wf (rs_disarm s) = rs_wf s"
  "rs_wf (s OR QUEUED_MASK) = rs_wf s"
  "rs_wf (s AND NOT QUEUED_MASK) = rs_wf s"
  "rs_wf (s OR (DROPPED_MASK OR QUEUED_MASK)) = rs_wf s"
  by (simp_all add: rs_wf_view view_setters)

lemma rs_wf_update_read: "rs_wf s \<Longrightarrow> rs_wf (rs_update_token_read_pos s)"
  by (simp add: rs_wf_view view_setters) (simp add: reads_of_view)

lemma rs_wf_set_write: "rs_wf s \<Longrightarrow> p \<in> {0, 1, 2} \<Longrightarrow> rs_wf (rs_set_token_write_pos s p)"
  by (auto simp: rs_wf_view view_setters)

lemma next_token_pos_fresh:
  "rs_wf s \<Longrightarrow> \<exists>p. rs_next_token_pos s = Some p \<and> p \<in> {0, 1, 2} \<and>
     p \<noteq> rs_token_read_pos s \<and> p \<noteq> rs_token_write_pos s"
  by (auto simp: rs_wf_def rs_next_token_pos_def Let_def)

lemma rs_get_zero: "rs_get 0 m k = 0"
  by (simp add: rs_get_def)

lemma rs_new_view:
  assumes "ready_fits interest" "opt_fits opt"
  shows "\<exists>s. rs_new interest opt = Some s \<and>
    rs_view s = \<lparr>v_readiness = ready_empty, v_interest = interest, v_opt = opt, v_rd = 0,
      v_wr = 0, v_queued = False, v_dropped = False\<rparr>"
proof -
  let ?s = "rs_set (rs_set 0 (ready_0 interest) (mask 4) 4) (opt_0 opt) (mask 4) 8"
  have le: "ready_0 interest \<le> MASK_4" "opt_0 opt \<le> MASK_4"
    using assms by (simp_all add: ready_fits_def opt_fits_def MASK_4_def)
  have b: "bit (ready_0 interest) n \<Longrightarrow> n < 4" "bit (opt_0 opt) n \<Longrightarrow> n < 4" for n
    using assms bit_small_word [of _ 4]
    by (auto simp: ready_fits_def opt_fits_def word_le_15)
  have "push_bit 4 (ready_0 interest) OR push_bit 8 (opt_0 opt) = ?s"
    using b by (intro word_64_eqI) (force simp: bit_rules bit_simps)
  then have "rs_new interest opt = Some ?s"
    using le by (simp add: rs_new_def Let_def ready_as_usize_def opt_as_usize_def
        INTEREST_SHIFT_def POLL_OPT_SHIFT_def)
  moreover have "rs_view ?s = \<lparr>v_readiness = ready_empty, v_interest = interest, v_opt = opt,
      v_rd = 0, v_wr = 0, v_queued = False, v_dropped = False\<rparr>"
    using assms by (simp add: rs_view_def ready_fits_def opt_fits_def word_le_15 field_accessors
        field_reads rs_get_zero ready_empty_def)
  ultimately show ?thesis by blast
qed

section \<open>Properties\<close>

text \<open>
  C34: On arguments that fit the four-bit fields the setters of the packed word are
  exactly the updates of the record of its fields: each writes its own field and no
  other. (Rust has no type for a four-bit number; the bound is the hypothesis.)
\<close>

theorem rs_setters_refine:
  assumes "ready_fits r" "opt_fits a" "p \<le> 3"
  shows "rs_view (rs_set_readiness s r) = (rs_view s)\<lparr>v_readiness := r\<rparr> \<and>
    rs_view (rs_set_interest s r) = (rs_view s)\<lparr>v_interest := r\<rparr> \<and>
    rs_view (rs_set_poll_opt s a) = (rs_view s)\<lparr>v_opt := a\<rparr> \<and>
    rs_view (rs_set_token_write_pos s p) = (rs_view s)\<lparr>v_wr := p\<rparr> \<and>
    rs_view (rs_update_token_read_pos s) = (rs_view s)\<lparr>v_rd := rs_token_write_pos s\<rparr> \<and>
    rs_view (rs_disarm s) = (rs_view s)\<lparr>v_interest := ready_empty\<rparr> \<and>
    map_option rs_view (rs_set_queued s) =
      (if rs_is_dropped s then None else Some ((rs_view s)\<lparr>v_queued := True\<rparr>)) \<and>
    map_option rs_view (rs_set_dequeued s) =
      (if rs_is_queued s then Some ((rs_view s)\<lparr>v_queued := False\<rparr>) else None)"
  using assms by (simp add: view_setters rs_set_queued_def rs_set_dequeued_def)

lemma rs_setters_refine_witness:
  "ready_fits ready_writable \<and> opt_fits opt_oneshot \<and>
   rs_view (rs_set_readiness 65537 ready_writable) =
     (rs_view 65537)\<lparr>v_readiness := ready_writable\<rparr>"
proof -
  have h: "ready_fits ready_writable" "opt_fits opt_oneshot" "(2 :: usize) \<le> 3"
    by (simp_all add: ready_fits_def opt_fits_def mio_defs)
  show ?thesis using h rs_setters_refine [OF h, of 65537] by blast
qed

text \<open>
  C38: A readiness with the unix priority flag does not fit the readiness field: setting
  it also switches on the third bit of the interest field, so a node becomes interested
  in errors it never asked for.
\<close>

theorem rs_set_readiness_spills:
  "rs_interest (rs_set_readiness s (ready_from_unix unix_priority)) =
     ready_bitor (rs_interest s) ready_error"
proof -
  have "(72 :: usize) = 2 ^ 3 OR 2 ^ 6" "(4 :: usize) = 2 ^ 2" by simp_all
  then have bits: "bit (72 :: usize) n \<longleftrightarrow> n = 3 \<or> n = 6" "bit (4 :: usize) n \<longleftrightarrow> n = 2" for n
    by (auto simp only: bit_or_iff bit_exp_iff) auto
  have "rs_get (rs_set s 72 (mask 4) 0) (mask 4) 4 = rs_get s (mask 4) 4 OR 4"
    by (intro word_64_eqI) (auto simp: bit_rules bits bit_or_iff intro: bit_lt_64
        simp del: bit_numeral_word_iff)
  then show ?thesis
    by (simp add: field_accessors field_setters ready_bitor_def mio_defs)
qed

text \<open>
  In a well-formed word the position for the next token exists, names one of the
  three cells, and is neither the one readers use nor the one last written, so writing
  the new token never overwrites a token that may be read at the same time.
\<close>

lemma rs_next_token_pos_fresh:
  assumes "rs_wf s"
  shows "\<exists>p. rs_next_token_pos s = Some p \<and> p \<in> {0, 1, 2} \<and>
    p \<noteq> rs_token_read_pos s \<and> p \<noteq> rs_token_write_pos s \<and> rs_wf (rs_set_token_write_pos s p)"
  using next_token_pos_fresh [OF assms] rs_wf_set_write [OF assms] by blast

lemma rs_next_token_pos_fresh_example:
  "rs_wf 4096 \<and> rs_next_token_pos 4096 = Some 2"
proof -
  have wf: "rs_wf 4096"
    by (simp add: rs_wf_def field_accessors rs_get_def mask_eq_exp_minus_1)
  show ?thesis
    using wf rs_next_token_pos_fresh [OF wf]
    by (simp add: rs_next_token_pos_def Let_def field_accessors rs_get_def mask_eq_exp_minus_1)
qed

text \<open>
  Dropping a registration sets both flags of the word and leaves every field alone;
  it answers whether the node has to be queued, which is exactly when it was not queued
  before; a second drop of the same word is the panic of the assertion.
\<close>

lemma as_flag_as_dropped_once:
  "map_option (\<lambda>(enq, s'). (enq, rs_view s')) (as_flag_as_dropped s) =
     (if rs_is_dropped s then None
      else Some (\<not> rs_is_queued s, (rs_view s)\<lparr>v_queued := True, v_dropped := True\<rparr>)) \<and>
   Option.bind (as_flag_as_dropped s) (\<lambda>(_, s'). as_flag_as_dropped s') = None"
  by (simp add: as_flag_as_dropped_def Let_def view_or_dropped)
    (simp add: reads_of_view view_or_dropped)

text \<open>
  The failure ordering \<^verbatim>\<open>compare_and_swap\<close> derives is accepted by the standard
  library for every ordering, and the swap is what its name says: it returns the word
  that was there and replaces it exactly when that is the expected one.
\<close>

lemma as_compare_and_swap_correct:
  "as_compare_and_swap cell current new order =
     Some (cell, if cell = current then new else cell)"
  by (cases order) (auto simp: as_compare_and_swap_def compare_exchange_def Let_def)

end
