(* ===== verification/Awakener.thy ===== *)
theory Awakener
  imports Mio_Prelude
begin

text \<open>
  The awakener, \<^verbatim>\<open>src/sys/unix/awakener.rs\<close>: a pipe whose reading end is registered with
  the selector. The pipe itself belongs to the kernel: its state is a type variable
  \<open>'p\<close>, and the non-blocking write of one byte and the read into a buffer of 128 bytes
  are arguments.
\<close>

type_synonym 'p pipe_write = "'p \<Rightarrow> nat io_result \<times> 'p"
type_synonym 'p pipe_read = "'p \<Rightarrow> nat io_result \<times> 'p"

definition awk_wakeup :: "'p pipe_write \<Rightarrow> 'p \<Rightarrow> unit io_result \<times> 'p" where
  "awk_wakeup wr p =
     (case wr p of
        (Inr _, p') \<Rightarrow> (Inr (), p')
      | (Inl e, p') \<Rightarrow> if err_kind e = WouldBlock then (Inr (), p') else (Inl e, p'))"

text \<open>The loop goes on as long as bytes come; \<open>None\<close> is a loop that never ends.\<close>

partial_function (option) awk_cleanup :: "'p pipe_read \<Rightarrow> 'p \<Rightarrow> 'p option" where
  "awk_cleanup rd p =
     (case rd p of
        (r, p') \<Rightarrow>
          (case r of
             Inr i \<Rightarrow> if 0 < i then awk_cleanup rd p' else Some p'
           | Inl _ \<Rightarrow> Some p'))"

declare awk_cleanup.simps [code]

text \<open>
  What is documented of a non-blocking pipe: \<open>bytes\<close> counts what is buffered; a write
  adds its byte or fails and leaves the pipe alone, a read of a non-empty pipe takes up to
  128 bytes, a read of an empty one does not return bytes.
\<close>

definition pipe_laws :: "('p \<Rightarrow> nat) \<Rightarrow> 'p pipe_write \<Rightarrow> 'p pipe_read \<Rightarrow> bool" where
  "pipe_laws bytes wr rd \<longleftrightarrow>
     (\<forall>p. (case wr p of (Inr _, p') \<Rightarrow> bytes p' = Suc (bytes p) | (Inl _, p') \<Rightarrow> bytes p' = bytes p)) \<and>
     (\<forall>p. (case rd p of
             (Inr i, p') \<Rightarrow> bytes p' + i = bytes p \<and> i \<le> 128 \<and> (i = 0 \<longrightarrow> bytes p = 0)
           | (Inl _, p') \<Rightarrow> bytes p' = bytes p \<and> bytes p = 0))"

lemma pipe_laws_write:
  assumes "pipe_laws bytes wr rd"
  shows "wr p = (Inr i, p') \<Longrightarrow> bytes p' = Suc (bytes p)"
    and "wr p = (Inl e, p') \<Longrightarrow> bytes p' = bytes p"
proof -
  have "case wr p of (Inr _, p') \<Rightarrow> bytes p' = Suc (bytes p) | (Inl _, p') \<Rightarrow> bytes p' = bytes p"
    using assms [unfolded pipe_laws_def, THEN conjunct1, THEN spec, of p] by simp
  then show "wr p = (Inr i, p') \<Longrightarrow> bytes p' = Suc (bytes p)"
    and "wr p = (Inl e, p') \<Longrightarrow> bytes p' = bytes p" by auto
qed

lemma pipe_laws_read:
  assumes "pipe_laws bytes wr rd"
  shows "rd p = (Inr i, p') \<Longrightarrow> bytes p' + i = bytes p \<and> (i = 0 \<longrightarrow> bytes p = 0)"
    and "rd p = (Inl e, p') \<Longrightarrow> bytes p' = bytes p \<and> bytes p = 0"
proof -
  have "case rd p of
      (Inr i, p') \<Rightarrow> bytes p' + i = bytes p \<and> i \<le> 128 \<and> (i = 0 \<longrightarrow> bytes p = 0)
    | (Inl _, p') \<Rightarrow> bytes p' = bytes p \<and> bytes p = 0"
    using assms [unfolded pipe_laws_def, THEN conjunct2, THEN spec, of p] by simp
  then show "rd p = (Inr i, p') \<Longrightarrow> bytes p' + i = bytes p \<and> (i = 0 \<longrightarrow> bytes p = 0)"
    and "rd p = (Inl e, p') \<Longrightarrow> bytes p' = bytes p \<and> bytes p = 0" by auto
qed

lemma awk_cleanup_drains_aux:
  assumes "pipe_laws bytes wr rd"
  shows "\<exists>p'. awk_cleanup rd p = Some p' \<and> bytes p' = 0"
proof (induction "bytes p" arbitrary: p rule: less_induct)
  case less
  obtain r p' where rd: "rd p = (r, p')" by fastforce
  show ?case
  proof (cases r)
    case (Inl e)
    then show ?thesis
      using pipe_laws_read(2) [OF assms] rd by (simp add: awk_cleanup.simps [of rd p])
  next
    case (Inr i)
    have b: "bytes p' + i = bytes p" "i = 0 \<longrightarrow> bytes p = 0"
      using pipe_laws_read(1) [OF assms] rd Inr by auto
    show ?thesis
    proof (cases "0 < i")
      case True
      with b have "bytes p' < bytes p" by simp
      from less.hyps [OF this] show ?thesis
        using rd Inr True by (simp add: awk_cleanup.simps [of rd p])
    next
      case False
      then show ?thesis using rd Inr b by (simp add: awk_cleanup.simps [of rd p])
    qed
  qed
qed

text \<open>A bounded pipe for the examples.\<close>

definition demo_write :: "nat \<Rightarrow> nat pipe_write" where
  "demo_write cap n = (if n < cap then (Inr 1, Suc n) else (Inl (Io_error WouldBlock ''''), n))"

definition demo_read :: "nat pipe_read" where
  "demo_read n =
     (if n = 0 then (Inl (Io_error WouldBlock ''''), 0) else (Inr (min n 128), n - 128))"

lemma demo_pipe_laws: "pipe_laws id (demo_write cap) demo_read"
  by (auto simp: pipe_laws_def demo_write_def demo_read_def min_def)

section \<open>Properties\<close>

text \<open>
  \<^verbatim>\<open>cleanup\<close> returns, and it returns with the pipe empty, so the edge-triggered
  registration of the reading end fires again on the next wake-up.
\<close>

lemma awk_cleanup_drains:
  assumes "pipe_laws bytes wr rd"
  shows "\<exists>p'. awk_cleanup rd p = Some p' \<and> bytes p' = 0"
  using assms by (rule awk_cleanup_drains_aux)

lemma awk_cleanup_drains_example:
  "pipe_laws id (demo_write 4) demo_read \<and> awk_cleanup demo_read 300 = Some 0"
  using demo_pipe_laws [of 4] awk_cleanup_drains [OF demo_pipe_laws, of 300] by auto

text \<open>
  Waking up a poller whose pipe is full is a success: the poller has been woken
  already. Every other error is reported, and a successful wake-up leaves a byte.
\<close>

lemma awk_wakeup_outcome:
  assumes "pipe_laws bytes wr rd"
  shows "case awk_wakeup wr p of
      (Inr _, p') \<Rightarrow> bytes p' = Suc (bytes p) \<or>
         bytes p' = bytes p \<and> (\<exists>e. fst (wr p) = Inl e \<and> err_kind e = WouldBlock)
    | (Inl e, p') \<Rightarrow> bytes p' = bytes p \<and> err_kind e \<noteq> WouldBlock \<and> fst (wr p) = Inl e"
  using pipe_laws_write [OF assms]
  by (auto simp: awk_wakeup_def split: prod.splits sum.splits)

lemma awk_wakeup_outcome_example:
  "pipe_laws id (demo_write 1) demo_read \<and> awk_wakeup (demo_write 1) 1 = (Inr (), 1)"
  using demo_pipe_laws [of 1] awk_wakeup_outcome [OF demo_pipe_laws, of 1 1]
  by (simp add: awk_wakeup_def demo_write_def)

end
