(* ===== verification/Readiness_Queue.thy ===== *)
theory Readiness_Queue
  imports Readiness_State Awakener
begin

text \<open>
  The intrusive queue of ready nodes, \<^verbatim>\<open>ReadinessNode\<close>, \<^verbatim>\<open>release_node\<close> and
  \<^verbatim>\<open>ReadinessQueueInner\<close> of \<^verbatim>\<open>src/poll.rs\<close>. Nodes live in an explicit store from
  addresses to nodes, because the same node is reached from its registration, from the
  queue and from the link of its predecessor; a freed node is absent from the store, and
  touching it is \<open>None\<close>.

  The operations are the code's, each run without interference: a
  \<^verbatim>\<open>compare_exchange\<close> on the head meets the value that was loaded. (What other threads
  may do to the packed word of a node between load and swap is modelled, see
  \<open>cas_loop\<close>.)
\<close>

section \<open>Nodes\<close>

type_synonym ptr = nat

definition default_token :: token_entry where
  "default_token = \<lparr>te_ttype = TokenEvent, te_token = Token 0\<rparr>"

record node =
  nd_state :: usize
  nd_token_0 :: token_entry
  nd_token_1 :: token_entry
  nd_token_2 :: token_entry
  nd_next :: "ptr option"
  nd_update_lock :: bool
  nd_queue :: "ptr option"
  nd_ref_count :: usize
  nd_job :: job

definition node_new ::
  "ptr option \<Rightarrow> token_entry \<Rightarrow> ready \<Rightarrow> poll_opt \<Rightarrow> usize \<Rightarrow> node option" where
  "node_new queue token interest opt ref_count = do {
     state \<leftarrow> as_new interest opt;
     Some \<lparr>nd_state = state, nd_token_0 = token, nd_token_1 = default_token,
       nd_token_2 = default_token, nd_next = None, nd_update_lock = False, nd_queue = queue,
       nd_ref_count = ref_count, nd_job = NullJob\<rparr>
   }"

definition node_marker :: "node option" where
  "node_marker = do {
     state \<leftarrow> as_new ready_empty opt_empty;
     Some \<lparr>nd_state = state, nd_token_0 = default_token, nd_token_1 = default_token,
       nd_token_2 = default_token, nd_next = None, nd_update_lock = False, nd_queue = None,
       nd_ref_count = 0, nd_job = NullJob\<rparr>
   }"

definition node_token :: "node \<Rightarrow> usize \<Rightarrow> token_entry option" where
  "node_token n pos =
     (if pos = 0 then Some (nd_token_0 n)
      else if pos = 1 then Some (nd_token_1 n)
      else if pos = 2 then Some (nd_token_2 n)
      else None)"

section \<open>The queue and its memory\<close>

text \<open>
  \<open>rq_addr\<close> is the address of the shared \<^verbatim>\<open>ReadinessQueueInner\<close>, \<open>rq_arc\<close> the strong
  counts of such addresses, \<open>rq_pipe\<close> the kernel's pipe behind the awakener, and
  \<open>rq_heap\<close> the node store; the three markers are nodes of the store.
\<close>

record 'p rq =
  rq_addr :: ptr
  rq_heap :: "ptr \<rightharpoonup> node"
  rq_head :: ptr
  rq_tail :: ptr
  rq_end :: ptr
  rq_sleep :: ptr
  rq_closed :: ptr
  rq_arc :: "ptr \<Rightarrow> nat"
  rq_pipe :: 'p

definition rq_node :: "'p rq \<Rightarrow> ptr \<Rightarrow> node option" where
  "rq_node q p = rq_heap q p"

definition rq_write :: "'p rq \<Rightarrow> ptr \<Rightarrow> (node \<Rightarrow> node) \<Rightarrow> 'p rq option" where
  "rq_write q p f = do {
     n \<leftarrow> rq_heap q p;
     Some (q\<lparr>rq_heap := (rq_heap q)(p \<mapsto> f n)\<rparr>)
   }"

text \<open>
  \<^verbatim>\<open>fetch_sub\<close> on the count wraps; the last reference frees the node and drops the
  node's share of the queue.
\<close>

definition release_node :: "'p rq \<Rightarrow> ptr \<Rightarrow> 'p rq option" where
  "release_node q p = do {
     n \<leftarrow> rq_node q p;
     if nd_ref_count n \<noteq> 1
     then rq_write q p (\<lambda>n. n\<lparr>nd_ref_count := nd_ref_count n - 1\<rparr>)
     else (let q = q\<lparr>rq_heap := (rq_heap q)(p := None)\<rparr> in
       case nd_queue n of
         None \<Rightarrow> Some q
       | Some a \<Rightarrow> Some (q\<lparr>rq_arc := (rq_arc q)(a := rq_arc q a - 1)\<rparr>))
   }"

definition enqueue_node :: "'p rq \<Rightarrow> ptr \<Rightarrow> (bool \<times> 'p rq) option" where
  "enqueue_node q p = do {
     q \<leftarrow> rq_write q p (\<lambda>n. n\<lparr>nd_next := None\<rparr>);
     let prev = rq_head q;
     if prev = rq_closed q then
       (if p = rq_closed q \<or> p = rq_sleep q then None
        else if p \<noteq> rq_end q then do {
          n \<leftarrow> rq_node q p;
          if nd_ref_count n < 2 then None else do {
            q \<leftarrow> release_node q p;
            Some (False, q)
          }
        }
        else Some (False, q))
     else do {
       let q = q\<lparr>rq_head := p\<rparr>;
       pn \<leftarrow> rq_node q prev;
       if nd_next pn \<noteq> None then None else do {
         q \<leftarrow> rq_write q prev (\<lambda>n. n\<lparr>nd_next := Some p\<rparr>);
         Some (prev = rq_sleep q, q)
       }
     }
   }"

definition rq_wakeup :: "'p pipe_write \<Rightarrow> 'p rq \<Rightarrow> unit io_result \<times> 'p rq" where
  "rq_wakeup wr q =
     (let (r, pipe) = awk_wakeup wr (rq_pipe q) in (r, q\<lparr>rq_pipe := pipe\<rparr>))"

definition enqueue_node_with_wakeup ::
  "'p pipe_write \<Rightarrow> 'p rq \<Rightarrow> ptr \<Rightarrow> (unit io_result \<times> 'p rq) option" where
  "enqueue_node_with_wakeup wr q p = do {
     (asleep, q) \<leftarrow> enqueue_node q p;
     Some (if asleep then rq_wakeup wr q else (Inr (), q))
   }"

text \<open>
  The free function and the method of the node of the same name. The model holds one
  queue: a node attached to another one is outside it.
\<close>

definition enqueue_with_wakeup ::
  "'p pipe_write \<Rightarrow> 'p rq \<Rightarrow> ptr option \<Rightarrow> ptr \<Rightarrow> (unit io_result \<times> 'p rq) option" where
  "enqueue_with_wakeup wr q queue p =
     (case queue of
        None \<Rightarrow> None
      | Some a \<Rightarrow> if a = rq_addr q then enqueue_node_with_wakeup wr q p else None)"

definition node_enqueue_with_wakeup ::
  "'p pipe_write \<Rightarrow> 'p rq \<Rightarrow> ptr \<Rightarrow> (unit io_result \<times> 'p rq) option" where
  "node_enqueue_with_wakeup wr q p = do {
     n \<leftarrow> rq_node q p;
     (case nd_queue n of
        None \<Rightarrow> Some (Inr (), q)
      | Some a \<Rightarrow> enqueue_with_wakeup wr q (Some a) p)
   }"

definition clear_sleep_marker :: "'p rq \<Rightarrow> 'p rq option" where
  "clear_sleep_marker q =
     (if rq_tail q \<noteq> rq_sleep q then Some q
      else do {
        q \<leftarrow> rq_write q (rq_end q) (\<lambda>n. n\<lparr>nd_next := None\<rparr>);
        if rq_head q = rq_sleep q then
          (if rq_sleep q = rq_end q then None
           else Some (q\<lparr>rq_head := rq_end q, rq_tail := rq_end q\<rparr>))
        else if rq_head q = rq_end q then None
        else Some q
      })"

datatype dequeue = Data ptr | Empty | Inconsistent

text \<open>The part of \<^verbatim>\<open>dequeue_node\<close> after the marker at the tail has been skipped.\<close>

definition dequeue_rest ::
  "'p rq \<Rightarrow> ptr option \<Rightarrow> ptr \<Rightarrow> ptr option \<Rightarrow> (dequeue \<times> 'p rq) option" where
  "dequeue_rest q until tail nxt =
     (if Some tail = until then Some (Empty, q)
      else case nxt of
        Some nx \<Rightarrow> Some (Data tail, q\<lparr>rq_tail := nx\<rparr>)
      | None \<Rightarrow>
          (if rq_head q \<noteq> tail then Some (Inconsistent, q)
           else do {
             (_, q) \<leftarrow> enqueue_node q (rq_end q);
             n \<leftarrow> rq_node q tail;
             (case nd_next n of
                Some nx \<Rightarrow> Some (Data tail, q\<lparr>rq_tail := nx\<rparr>)
              | None \<Rightarrow> Some (Inconsistent, q))
           }))"

definition dequeue_node :: "'p rq \<Rightarrow> ptr option \<Rightarrow> (dequeue \<times> 'p rq) option" where
  "dequeue_node q until = do {
     let tail = rq_tail q;
     n \<leftarrow> rq_node q tail;
     if tail = rq_end q \<or> tail = rq_sleep q \<or> tail = rq_closed q then
       (case nd_next n of
          None \<Rightarrow> do {
            q \<leftarrow> clear_sleep_marker q;
            Some (Empty, q)
          }
        | Some nx \<Rightarrow> do {
            let q = q\<lparr>rq_tail := nx\<rparr>;
            n \<leftarrow> rq_node q nx;
            dequeue_rest q until nx (nd_next n)
          })
     else dequeue_rest q until tail (nd_next n)
   }"

text \<open>
  The constructor: \<open>awakener\<close> is the outcome of creating the pipe, \<open>e\<close>, \<open>s\<close>, \<open>c\<close> and
  \<open>a\<close> are the addresses the allocator gives the three markers and the shared queue.
\<close>

definition rq_new ::
  "'p io_result \<Rightarrow> (ptr \<rightharpoonup> node) \<Rightarrow> (ptr \<Rightarrow> nat) \<Rightarrow> ptr \<Rightarrow> ptr \<Rightarrow> ptr \<Rightarrow> ptr \<Rightarrow>
   'p rq io_result option" where
  "rq_new awakener heap arcs a e s c = do {
     end_marker \<leftarrow> node_marker;
     sleep_marker \<leftarrow> node_marker;
     closed_marker \<leftarrow> node_marker;
     (case awakener of
        Inl err \<Rightarrow> Some (Inl err)
      | Inr pipe \<Rightarrow> Some (Inr
          \<lparr>rq_addr = a, rq_heap = heap(e \<mapsto> end_marker, s \<mapsto> sleep_marker, c \<mapsto> closed_marker),
           rq_head = e, rq_tail = e, rq_end = e, rq_sleep = s, rq_closed = c,
           rq_arc = arcs(a := 1), rq_pipe = pipe\<rparr>))
   }"

definition prepare_for_sleep :: "'p rq \<Rightarrow> (bool \<times> 'p rq) option" where
  "prepare_for_sleep q =
     (let emarker = rq_end q; smarker = rq_sleep q; tail = rq_tail q in
      if tail = smarker then Some (rq_head q = smarker, q)
      else if tail \<noteq> emarker then Some (False, q)
      else do {
        q \<leftarrow> rq_write q smarker (\<lambda>n. n\<lparr>nd_next := None\<rparr>);
        if rq_head q = emarker then do {
          let q = q\<lparr>rq_head := smarker\<rparr>;
          en \<leftarrow> rq_node q emarker;
          if emarker = smarker \<or> rq_tail q \<noteq> emarker \<or> nd_next en \<noteq> None then None
          else Some (True, q\<lparr>rq_tail := smarker\<rparr>)
        }
        else if rq_head q = smarker then None
        else Some (False, q)
      })"

text \<open>
  Dropping the queue closes it and releases what it still holds; \<^verbatim>\<open>Inconsistent\<close> tries
  again.
\<close>

partial_function (option) rq_drop_loop :: "'p rq \<Rightarrow> 'p rq option" where
  "rq_drop_loop q =
     Option.bind (dequeue_node q None) (\<lambda>(d, q).
       case d of
         Empty \<Rightarrow> Some q
       | Inconsistent \<Rightarrow> rq_drop_loop q
       | Data p \<Rightarrow>
           Option.bind (rq_node q p) (\<lambda>n.
             if rs_is_queued (nd_state n)
             then Option.bind (release_node q p) rq_drop_loop
             else None))"

declare rq_drop_loop.simps [code]

definition rq_drop :: "'p rq \<Rightarrow> 'p rq option" where
  "rq_drop q = do {
     (_, q) \<leftarrow> enqueue_node q (rq_closed q);
     rq_drop_loop q
   }"

section \<open>Chains of nodes\<close>

text \<open>The nodes from an address to the end of the list, as their links give them.\<close>

fun chain :: "(ptr \<rightharpoonup> node) \<Rightarrow> ptr list \<Rightarrow> bool" where
  "chain h [] = False"
| "chain h [a] = (\<exists>n. h a = Some n \<and> nd_next n = None)"
| "chain h (a # b # xs) = (\<exists>n. h a = Some n \<and> nd_next n = Some b \<and> chain h (b # xs))"

lemma chain_dom: "chain h xs \<Longrightarrow> set xs \<subseteq> dom h"
  by (induction h xs rule: chain.induct) auto

lemma chain_not_Nil: "chain h xs \<Longrightarrow> xs \<noteq> []"
  by auto

lemma chain_other [simp]: "p \<notin> set xs \<Longrightarrow> chain (h(p := v)) xs = chain h xs"
  by (induction h xs rule: chain.induct) auto

lemma chain_same_link:
  "h p = Some n \<Longrightarrow> nd_next m = nd_next n \<Longrightarrow> chain (h(p \<mapsto> m)) xs = chain h xs"
  by (induction h xs rule: chain.induct) auto

lemma chain_tl: "chain h (a # b # xs) \<Longrightarrow> chain h (b # xs)"
  by auto

lemma chain_last: "chain h xs \<Longrightarrow> \<exists>n. h (last xs) = Some n \<and> nd_next n = None"
  by (induction h xs rule: chain.induct) auto

lemma chain_snoc:
  assumes "chain h xs" "distinct xs" "p \<notin> set xs" "h p = Some n" "nd_next n = None"
    "h (last xs) = Some l"
  shows "chain (h(last xs \<mapsto> l\<lparr>nd_next := Some p\<rparr>)) (xs @ [p])"
  using assms
proof (induction h xs rule: chain.induct)
  case (3 h a b xs)
  then have "a \<noteq> last (b # xs)" by (metis distinct.simps(2) last_in_set list.distinct(1))
  with 3 show ?case by auto
qed auto

lemma chain_link:
  assumes "chain h (a # xs)" "h a = Some n"
  shows "nd_next n = (case xs of [] \<Rightarrow> None | b # _ \<Rightarrow> Some b)"
  using assms by (cases xs) auto

section \<open>The state of the queue\<close>

text \<open>
  \<open>rq_inv q xs\<close>: the list \<open>xs\<close> of addresses is what one meets from the tail to the
  head. The sleep marker only ever stands alone at the tail, never beside the end marker,
  and nothing comes after the closed marker.
\<close>

definition rq_markers :: "'p rq \<Rightarrow> ptr set" where
  "rq_markers q = {rq_end q, rq_sleep q, rq_closed q}"

definition rq_inv :: "'p rq \<Rightarrow> ptr list \<Rightarrow> bool" where
  "rq_inv q xs \<longleftrightarrow>
     chain (rq_heap q) xs \<and> distinct xs \<and> hd xs = rq_tail q \<and> last xs = rq_head q \<and>
     distinct [rq_end q, rq_sleep q, rq_closed q] \<and> rq_markers q \<subseteq> dom (rq_heap q) \<and>
     (rq_sleep q \<in> set xs \<longrightarrow> hd xs = rq_sleep q \<and> rq_end q \<notin> set xs) \<and>
     (rq_closed q \<in> set xs \<longrightarrow> last xs = rq_closed q)"

definition rq_data :: "'p rq \<Rightarrow> ptr list \<Rightarrow> ptr list" where
  "rq_data q xs = filter (\<lambda>p. p \<notin> rq_markers q) xs"

text \<open>The queue, closed or not, holds the nodes \<open>ps\<close>, oldest first.\<close>

definition rq_contents :: "'p rq \<Rightarrow> bool \<Rightarrow> ptr list \<Rightarrow> bool" where
  "rq_contents q c ps \<longleftrightarrow>
     (\<exists>xs. rq_inv q xs \<and> (rq_closed q \<in> set xs) = c \<and> rq_data q xs = ps)"

abbreviation rq_holds :: "'p rq \<Rightarrow> ptr list \<Rightarrow> bool" where
  "rq_holds q \<equiv> rq_contents q False"

definition rq_asleep :: "'p rq \<Rightarrow> bool" where
  "rq_asleep q \<longleftrightarrow> rq_head q = rq_sleep q"

text \<open>
  What queue operations leave alone: the nodes up to their links, the markers, the
  strong counts and the pipe.
\<close>

definition rq_nodes :: "'p rq \<Rightarrow> ptr \<rightharpoonup> node" where
  "rq_nodes q p = map_option (\<lambda>n. n\<lparr>nd_next := None\<rparr>) (rq_heap q p)"

definition rq_frame :: "'p rq \<Rightarrow> 'p rq \<Rightarrow> bool" where
  "rq_frame q q' \<longleftrightarrow>
     rq_nodes q' = rq_nodes q \<and> rq_addr q' = rq_addr q \<and> rq_end q' = rq_end q \<and>
     rq_sleep q' = rq_sleep q \<and> rq_closed q' = rq_closed q \<and> rq_arc q' = rq_arc q \<and>
     rq_pipe q' = rq_pipe q"

lemma rq_frame_refl [simp]: "rq_frame q q"
  by (simp add: rq_frame_def)

lemma rq_frame_trans: "rq_frame a b \<Longrightarrow> rq_frame b c \<Longrightarrow> rq_frame a c"
  by (simp add: rq_frame_def)

lemma rq_frame_markers: "rq_frame q q' \<Longrightarrow> rq_markers q' = rq_markers q"
  by (simp add: rq_frame_def rq_markers_def)

lemma rq_frame_data: "rq_frame q q' \<Longrightarrow> rq_data q' xs = rq_data q xs"
  by (simp add: rq_data_def rq_frame_markers)

lemma rq_nodes_upd_link:
  "rq_heap q p = Some n \<Longrightarrow>
     rq_nodes (q\<lparr>rq_heap := (rq_heap q)(p \<mapsto> n\<lparr>nd_next := v\<rparr>)\<rparr>) = rq_nodes q"
  by (auto simp: rq_nodes_def fun_eq_iff)

lemma rq_nodes_dom: "dom (rq_nodes q) = dom (rq_heap q)"
  by (auto simp: rq_nodes_def)

lemma rq_data_markers: "set (rq_data q xs) \<inter> rq_markers q = {}"
  by (auto simp: rq_data_def)

lemma rq_write_Some [simp]:
  "rq_heap q p = Some n \<Longrightarrow> rq_write q p f = Some (q\<lparr>rq_heap := (rq_heap q)(p \<mapsto> f n)\<rparr>)"
  by (simp add: rq_write_def)

lemma enqueue_open:
  assumes inv: "rq_inv q xs" and cl: "rq_closed q \<notin> set xs"
    and p: "p \<in> dom (rq_heap q)" "p \<notin> set xs" "p \<noteq> rq_sleep q"
    and e: "p = rq_end q \<Longrightarrow> rq_sleep q \<notin> set xs"
  shows "\<exists>q'. enqueue_node q p = Some (last xs = rq_sleep q, q') \<and> rq_inv q' (xs @ [p]) \<and>
    rq_frame q q'"
proof -
  let ?h = "rq_heap q" and ?l = "last xs"
  have ch: "chain ?h xs" and ds: "distinct xs" and hd: "hd xs = rq_tail q"
    and last: "?l = rq_head q" and xs: "xs \<noteq> []"
    using inv chain_not_Nil by (auto simp: rq_inv_def)
  obtain n where n: "?h p = Some n" using p(1) by blast
  let ?n = "n\<lparr>nd_next := None\<rparr>" and ?h1 = "?h(p \<mapsto> n\<lparr>nd_next := None\<rparr>)"
  have lp: "?l \<in> set xs" "?l \<noteq> p" using xs p(2) by auto
  obtain l where l: "?h ?l = Some l" "nd_next l = None" using chain_last [OF ch] by blast
  let ?h2 = "?h1(?l \<mapsto> l\<lparr>nd_next := Some p\<rparr>)"
  let ?q = "q\<lparr>rq_heap := ?h2, rq_head := p\<rparr>"
  have "rq_head q \<noteq> rq_closed q" using cl last lp(1) by auto
  then have run: "enqueue_node q p = Some (?l = rq_sleep q, ?q)"
    using n l lp by (simp add: enqueue_node_def rq_node_def Let_def last [symmetric])
  have "chain ?h1 xs" using ch p(2) by simp
  from chain_snoc [OF this ds p(2), of ?n l] have "chain ?h2 (xs @ [p])"
    using lp l by simp
  then have "rq_inv ?q (xs @ [p])"
    using inv cl p xs e hd n l by (auto simp: rq_inv_def rq_markers_def)
  moreover have "rq_frame q ?q"
    using n l lp by (auto simp: rq_frame_def rq_nodes_def fun_eq_iff)
  ultimately show ?thesis using run by blast
qed

lemma clear_sleep_alone:
  assumes "rq_inv q [rq_sleep q]"
  shows "\<exists>q'. clear_sleep_marker q = Some q' \<and> rq_inv q' [rq_end q] \<and> rq_frame q q'"
proof -
  let ?e = "rq_end q"
  obtain n where n: "rq_heap q ?e = Some n"
    using assms by (auto simp: rq_inv_def rq_markers_def)
  let ?q = "q\<lparr>rq_heap := (rq_heap q)(?e \<mapsto> n\<lparr>nd_next := None\<rparr>), rq_head := ?e, rq_tail := ?e\<rparr>"
  have "clear_sleep_marker q = Some ?q"
    using assms n by (simp add: clear_sleep_marker_def rq_inv_def)
  moreover have "rq_inv ?q [?e]"
    using assms by (auto simp: rq_inv_def rq_markers_def)
  moreover have "rq_frame q ?q"
    using n by (auto simp: rq_frame_def rq_nodes_def fun_eq_iff)
  ultimately show ?thesis by blast
qed

lemma clear_sleep_awake:
  "rq_tail q \<noteq> rq_sleep q \<Longrightarrow> clear_sleep_marker q = Some q"
  by (simp add: clear_sleep_marker_def)

lemma rq_contents_set:
  assumes "rq_contents q c ps"
  shows "set ps \<subseteq> dom (rq_heap q)" "distinct ps" "set ps \<inter> rq_markers q = {}"
    "rq_markers q \<subseteq> dom (rq_heap q)"
proof -
  obtain xs where xs: "rq_inv q xs" "rq_data q xs = ps"
    using assms by (auto simp: rq_contents_def)
  then have "set xs \<subseteq> dom (rq_heap q)" "distinct xs" "rq_markers q \<subseteq> dom (rq_heap q)"
    using chain_dom by (simp_all add: rq_inv_def)
  then show "set ps \<subseteq> dom (rq_heap q)" "distinct ps" "set ps \<inter> rq_markers q = {}"
    "rq_markers q \<subseteq> dom (rq_heap q)"
    unfolding xs(2) [symmetric] rq_data_def by auto
qed

lemma contents_of_list:
  "rq_inv q xs \<Longrightarrow> set xs - rq_markers q = set (rq_data q xs)"
  by (auto simp: rq_data_def)

lemma enqueue_holds:
  assumes "rq_holds q ps" "p \<in> dom (rq_heap q)" "p \<notin> rq_markers q" "p \<notin> set ps"
  shows "\<exists>q'. enqueue_node q p = Some (rq_asleep q, q') \<and> rq_holds q' (ps @ [p]) \<and>
    rq_frame q q'"
proof -
  obtain xs where xs: "rq_inv q xs" "rq_closed q \<notin> set xs" "rq_data q xs = ps"
    using assms(1) by (auto simp: rq_contents_def)
  have p: "p \<notin> set xs" "p \<noteq> rq_closed q" "p \<noteq> rq_sleep q" "p \<noteq> rq_end q"
    using assms(3,4) xs(3) by (auto simp: rq_data_def rq_markers_def)
  obtain q' where q': "enqueue_node q p = Some (last xs = rq_sleep q, q')"
    "rq_inv q' (xs @ [p])" "rq_frame q q'"
    using enqueue_open [OF xs(1,2) assms(2) p(1,3)] p(4) by blast
  have "rq_data q' (xs @ [p]) = ps @ [p]" "rq_closed q' = rq_closed q"
    using assms(3) xs(3) rq_frame_data [OF q'(3)] q'(3)
    by (simp_all add: rq_data_def rq_frame_def)
  then have "rq_holds q' (ps @ [p])"
    using q'(2) xs(2) p(2) by (auto simp: rq_contents_def intro!: exI [of _ "xs @ [p]"])
  moreover have "(last xs = rq_sleep q) = rq_asleep q"
    using xs(1) by (simp add: rq_inv_def rq_asleep_def)
  ultimately show ?thesis using q' by auto
qed

lemma rq_invD:
  assumes "rq_inv q xs"
  shows "chain (rq_heap q) xs" "distinct xs" "hd xs = rq_tail q" "last xs = rq_head q"
    "distinct [rq_end q, rq_sleep q, rq_closed q]" "rq_markers q \<subseteq> dom (rq_heap q)"
    "rq_sleep q \<in> set xs \<Longrightarrow> hd xs = rq_sleep q \<and> rq_end q \<notin> set xs"
    "rq_closed q \<in> set xs \<Longrightarrow> last xs = rq_closed q"
  using assms unfolding rq_inv_def by blast+

lemma inv_advance:
  assumes "rq_inv q (a # b # xs)"
  shows "rq_inv (q\<lparr>rq_tail := b\<rparr>) (b # xs)"
proof -
  note i = rq_invD [OF assms]
  have "rq_sleep q \<notin> set (b # xs)" using i(2,7) by auto
  moreover have "chain (rq_heap q) (b # xs)" using i(1) by auto
  moreover have "rq_closed q \<in> set (b # xs) \<longrightarrow> last (b # xs) = rq_closed q"
    using i(8) by auto
  moreover have "last (b # xs) = rq_head q" "distinct (b # xs)" using i(2,4) by simp_all
  ultimately show ?thesis
    using i(5,6) unfolding rq_inv_def rq_markers_def by simp
qed

lemma frame_tail [simp]: "rq_frame q (q'\<lparr>rq_tail := t\<rparr>) = rq_frame q q'"
  by (simp add: rq_frame_def rq_nodes_def fun_eq_iff)

lemma rest_until: "dequeue_rest q (Some b) b nxt = Some (Empty, q)"
  by (simp add: dequeue_rest_def)

lemma rest_data:
  assumes inv: "rq_inv q (b # xs)" and b: "b \<notin> rq_markers q"
    and n: "rq_heap q b = Some n" and u: "until \<noteq> Some b"
  shows "\<exists>q'. dequeue_rest q until b (nd_next n) = Some (Data b, q') \<and>
    rq_inv q' (if xs = [] then [rq_end q] else xs) \<and> rq_frame q q'"
proof (cases xs)
  case (Cons c ys)
  have "nd_next n = Some c"
    using inv n Cons by (simp add: rq_inv_def)
  then show ?thesis
    using u Cons inv_advance [of q b c ys] inv by (simp add: dequeue_rest_def)
next
  case Nil
  have nn: "nd_next n = None" and hd: "rq_head q = b"
    using inv n Nil by (simp_all add: rq_inv_def)
  have e: "rq_end q \<in> dom (rq_heap q)" "rq_end q \<notin> set [b]" "rq_end q \<noteq> rq_closed q"
    "rq_end q \<noteq> rq_sleep q" "rq_closed q \<notin> set [b]" "rq_sleep q \<notin> set [b]"
    using inv b by (auto simp: rq_inv_def rq_markers_def)
  obtain q' where q': "enqueue_node q (rq_end q) = Some (last [b] = rq_sleep q, q')"
    "rq_inv q' ([b] @ [rq_end q])" "rq_frame q q'"
    using enqueue_open [of q "[b]" "rq_end q"] inv Nil e by blast
  then obtain n' where n': "rq_heap q' b = Some n'" "nd_next n' = Some (rq_end q)"
    by (auto simp: rq_inv_def)
  then have "dequeue_rest q until b (nd_next n) = Some (Data b, q'\<lparr>rq_tail := rq_end q\<rparr>)"
    using q'(1) nn hd u by (simp add: dequeue_rest_def rq_node_def)
  moreover have "rq_inv (q'\<lparr>rq_tail := rq_end q\<rparr>) [rq_end q]"
    using inv_advance [of q' b "rq_end q" "[]"] q'(2) by simp
  ultimately show ?thesis using Nil q'(3) by simp
qed

lemma data_frame_next:
  assumes "rq_frame q q'" "b \<notin> rq_markers q" "rq_data q (b # xs) = ps"
  shows "\<exists>ps'. ps = b # ps' \<and> rq_data q' (if xs = [] then [rq_end q] else xs) = ps'"
  using assms rq_frame_data [OF assms(1)] by (auto simp: rq_data_def rq_markers_def)

text \<open>The list without a marker at its tail: a node, or only the closed marker.\<close>

lemma rest_contents:
  assumes inv: "rq_inv q (b # xs)" and c: "(rq_closed q \<in> set (b # xs)) = c"
    and b: "b \<notin> rq_markers q" and n: "rq_heap q b = Some n"
    and ps: "rq_data q (b # xs) = p # ps"
  shows "b = p \<and> (\<exists>q'. dequeue_rest q until b (nd_next n) =
      Some (if until = Some p then Empty else Data p, q') \<and>
    rq_contents q' c (if until = Some p then p # ps else ps) \<and> rq_frame q q')"
proof -
  have bp: "b = p" using ps b by (simp add: rq_data_def)
  show ?thesis
  proof (cases "until = Some p")
    case True
    have "rq_contents q c (p # ps)" using inv c ps unfolding rq_contents_def by blast
    then show ?thesis using bp True by (simp add: rest_until)
  next
    case False
    then have u: "until \<noteq> Some b" using bp by simp
    obtain q' where q': "dequeue_rest q until b (nd_next n) = Some (Data b, q')"
      "rq_inv q' (if xs = [] then [rq_end q] else xs)" "rq_frame q q'"
      using rest_data [OF inv b n u] by blast
    let ?ys = "if xs = [] then [rq_end q] else xs"
    have "rq_data q' ?ys = ps"
      using data_frame_next [OF q'(3) b ps] bp by simp
    moreover have "(rq_closed q' \<in> set ?ys) = c"
      using c b q'(3) rq_invD(5) [OF inv] by (auto simp: rq_markers_def rq_frame_def)
    ultimately have "rq_contents q' c ps" using q'(2) unfolding rq_contents_def by blast
    then show ?thesis using bp False q'(1,3) by auto
  qed
qed

lemma dequeue_holds_Cons:
  assumes "rq_contents q c (p # ps)"
  shows "\<exists>q'. dequeue_node q until = Some (if until = Some p then Empty else Data p, q') \<and>
    rq_contents q' c (if until = Some p then p # ps else ps) \<and> rq_frame q q'"
proof -
  obtain xs where xs: "rq_inv q xs" "(rq_closed q \<in> set xs) = c" "rq_data q xs = p # ps"
    using assms by (auto simp: rq_contents_def)
  obtain a ys where ay: "xs = a # ys" using xs(3) by (cases xs) (auto simp: rq_data_def)
  have t: "rq_tail q = a" using rq_invD(3) [OF xs(1)] ay by simp
  obtain n where n: "rq_heap q a = Some n" using chain_dom [OF rq_invD(1) [OF xs(1)]] ay by auto
  show ?thesis
  proof (cases "a \<in> rq_markers q")
    case False
    then have "dequeue_node q until = dequeue_rest q until a (nd_next n)"
      using n t by (auto simp: dequeue_node_def rq_node_def rq_markers_def Let_def)
    then show ?thesis
      using rest_contents [OF xs(1) [unfolded ay] xs(2) [unfolded ay] False n
          xs(3) [unfolded ay], of until] by metis
  next
    case True
    then have "rq_data q ys = p # ps" using xs(3) ay by (simp add: rq_data_def)
    then obtain b zs where bz: "ys = b # zs" by (cases ys) (auto simp: rq_data_def)
    let ?q = "q\<lparr>rq_tail := b\<rparr>"
    have inv: "rq_inv ?q (b # zs)" using inv_advance xs(1) ay bz by simp
    have d: "rq_data ?q (b # zs) = p # ps"
      using \<open>rq_data q ys = p # ps\<close> bz by (simp add: rq_data_def rq_markers_def)
    have ca: "a \<noteq> rq_closed q"
      using last_in_set [of "b # zs"] rq_invD(2,8) [OF xs(1)] ay bz by auto
    then have c: "(rq_closed ?q \<in> set (b # zs)) = c" using xs(2) ay bz by auto
    have b: "b \<notin> rq_markers ?q"
    proof
      assume "b \<in> rq_markers ?q"
      then have "b \<in> rq_markers q" by (simp add: rq_markers_def)
      moreover have "b \<noteq> rq_closed q"
        using d rq_invD(2,8) [OF xs(1)] ay bz
        by (cases zs rule: rev_cases) (auto simp: rq_data_def rq_markers_def split: if_splits)
      ultimately show False
        using True ca rq_invD(2,7) [OF xs(1)] ay bz by (auto simp: rq_markers_def)
    qed
    obtain m where m: "rq_heap ?q b = Some m"
      using chain_dom [OF rq_invD(1) [OF inv]] by auto
    have "dequeue_node q until = dequeue_rest ?q until b (nd_next m)"
      using True n m t ay bz rq_invD(1) [OF xs(1)]
      by (auto simp: dequeue_node_def rq_node_def rq_markers_def Let_def)
    moreover have "rq_frame q q' = rq_frame ?q q'" for q'
      by (simp add: rq_frame_def rq_nodes_def fun_eq_iff)
    ultimately show ?thesis using rest_contents [OF inv c b m d, of until] by metis
  qed
qed

lemma holds_Nil:
  assumes "rq_inv q xs" "rq_closed q \<notin> set xs" "rq_data q xs = []"
  shows "xs = [rq_end q] \<or> xs = [rq_sleep q]"
proof -
  have sub: "set xs \<subseteq> {rq_end q, rq_sleep q}"
    using assms(2,3) by (auto simp: rq_data_def rq_markers_def filter_empty_conv)
  have i: "distinct xs" "xs \<noteq> []" "rq_sleep q \<in> set xs \<longrightarrow> rq_end q \<notin> set xs"
    using rq_invD [OF assms(1)] chain_not_Nil by blast+
  then obtain a ys where ay: "xs = a # ys" by (cases xs) auto
  have "ys = []" using sub i(1,3) unfolding ay by (cases ys) auto
  then show ?thesis using sub ay by simp
qed

lemma dequeue_holds_Nil:
  assumes "rq_holds q []"
  shows "\<exists>q'. dequeue_node q until = Some (Empty, q') \<and> rq_holds q' [] \<and> rq_frame q q' \<and>
    \<not> rq_asleep q'"
proof -
  obtain xs where xs: "rq_inv q xs" "rq_closed q \<notin> set xs" "rq_data q xs = []"
    using assms by (auto simp: rq_contents_def)
  then consider "xs = [rq_end q]" | "xs = [rq_sleep q]" using holds_Nil by blast
  then show ?thesis
  proof cases
    case 1
    then have "dequeue_node q until = Some (Empty, q)" "\<not> rq_asleep q"
      using rq_invD(1,3,4,5) [OF xs(1)]
      by (auto simp: dequeue_node_def rq_node_def clear_sleep_awake Let_def rq_asleep_def)
    then show ?thesis using assms by auto
  next
    case 2
    then obtain q' where q': "clear_sleep_marker q = Some q'" "rq_inv q' [rq_end q]"
      "rq_frame q q'" using clear_sleep_alone xs(1) by blast
    have "dequeue_node q until = Some (Empty, q')"
      using rq_invD(1,3) [OF xs(1)] 2 q'(1)
      by (auto simp: dequeue_node_def rq_node_def Let_def)
    moreover have "rq_holds q' []" "\<not> rq_asleep q'"
      using q'(2,3) rq_invD(4,5) [OF q'(2)]
      by (auto simp: rq_contents_def rq_data_def rq_markers_def rq_frame_def rq_asleep_def
          intro!: exI [of _ "[rq_end q]"])
    ultimately show ?thesis using q'(3) by blast
  qed
qed

text \<open>Writing anything but a link of a node changes neither order nor content.\<close>

lemma write_contents:
  assumes "rq_heap q p = Some n" "nd_next m = nd_next n"
  shows "rq_contents (q\<lparr>rq_heap := (rq_heap q)(p \<mapsto> m)\<rparr>) c ps = rq_contents q c ps"
proof -
  have "dom ((rq_heap q)(p \<mapsto> m)) = dom (rq_heap q)" using assms(1) by auto
  then have "rq_inv (q\<lparr>rq_heap := (rq_heap q)(p \<mapsto> m)\<rparr>) xs = rq_inv q xs" for xs
    using chain_same_link [of "rq_heap q" p n m xs] assms
    by (simp add: rq_inv_def rq_markers_def del: dom_fun_upd)
  then show ?thesis by (simp add: rq_contents_def rq_data_def rq_markers_def)
qed

lemma rq_nodes_upd:
  "rq_nodes (q\<lparr>rq_heap := (rq_heap q)(p \<mapsto> m)\<rparr>) = (rq_nodes q)(p \<mapsto> m\<lparr>nd_next := None\<rparr>)"
  by (simp add: rq_nodes_def fun_eq_iff)

text \<open>Writing the link of a marker that is not in the list changes nothing.\<close>

lemma write_marker:
  assumes inv: "rq_inv q xs" and m: "m \<in> rq_markers q" "m \<notin> set xs"
  shows "\<exists>n. rq_heap q m = Some n \<and>
    (let q' = q\<lparr>rq_heap := (rq_heap q)(m \<mapsto> n\<lparr>nd_next := None\<rparr>)\<rparr> in
     rq_inv q' xs \<and> rq_frame q q' \<and> rq_data q' xs = rq_data q xs)"
proof -
  obtain n where n: "rq_heap q m = Some n" using rq_invD(6) [OF inv] m(1) by blast
  let ?q = "q\<lparr>rq_heap := (rq_heap q)(m \<mapsto> n\<lparr>nd_next := None\<rparr>)\<rparr>"
  have "rq_inv ?q xs"
    using rq_invD [OF inv] m(2) unfolding rq_inv_def rq_markers_def by auto
  moreover have "rq_frame q ?q"
    using n rq_nodes_upd_link [of q m n None] by (simp add: rq_frame_def)
  moreover have "rq_data ?q xs = rq_data q xs"
    by (simp add: rq_data_def rq_markers_def)
  ultimately show ?thesis using n by (auto simp: Let_def)
qed

lemma clear_sleep_holds:
  assumes "rq_holds q ps"
  shows "\<exists>q'. clear_sleep_marker q = Some q' \<and> rq_holds q' ps \<and> rq_frame q q' \<and>
    \<not> rq_asleep q'"
proof -
  obtain xs where xs: "rq_inv q xs" "rq_closed q \<notin> set xs" "rq_data q xs = ps"
    using assms by (auto simp: rq_contents_def)
  note i = rq_invD [OF xs(1)]
  have ne: "xs \<noteq> []" using i(1) chain_not_Nil by blast
  show ?thesis
  proof (cases "rq_tail q = rq_sleep q")
    case False
    then have "rq_sleep q \<notin> set xs" using i(3,7) by auto
    then have "\<not> rq_asleep q" using i(4) ne last_in_set by (fastforce simp: rq_asleep_def)
    then show ?thesis using False assms clear_sleep_awake [of q] by auto
  next
    case True
    then have s: "rq_sleep q \<in> set xs" "hd xs = rq_sleep q" using i(3) ne hd_in_set by fastforce+
    then have e: "rq_end q \<notin> set xs" using i(7) by blast
    show ?thesis
    proof (cases "tl xs")
      case Nil
      then have x: "xs = [rq_sleep q]" using s ne by (cases xs) auto
      then have "ps = []" using xs(3) by (simp add: rq_data_def rq_markers_def)
      then show ?thesis
        using dequeue_holds_Nil [of q None] assms clear_sleep_alone [of q] xs(1) x
          rq_invD(1) [OF xs(1)] True
        by (auto simp: dequeue_node_def rq_node_def Let_def)
    next
      case (Cons b ys)
      then have x: "xs = rq_sleep q # b # ys" using s ne by (cases xs) auto
      then have h: "rq_head q \<noteq> rq_sleep q" "rq_head q \<noteq> rq_end q"
        using i(2,4) e last_in_set [of xs] last_in_set [of "b # ys"] ne by auto
      obtain n where n: "rq_heap q (rq_end q) = Some n"
        and w: "rq_inv (q\<lparr>rq_heap := (rq_heap q)(rq_end q \<mapsto> n\<lparr>nd_next := None\<rparr>)\<rparr>) xs"
          "rq_frame q (q\<lparr>rq_heap := (rq_heap q)(rq_end q \<mapsto> n\<lparr>nd_next := None\<rparr>)\<rparr>)"
          "rq_data (q\<lparr>rq_heap := (rq_heap q)(rq_end q \<mapsto> n\<lparr>nd_next := None\<rparr>)\<rparr>) xs = ps"
        using write_marker [OF xs(1) _ e] xs(3) by (auto simp: rq_markers_def Let_def)
      let ?q = "q\<lparr>rq_heap := (rq_heap q)(rq_end q \<mapsto> n\<lparr>nd_next := None\<rparr>)\<rparr>"
      have "clear_sleep_marker q = Some ?q"
        using True h n by (simp add: clear_sleep_marker_def)
      moreover have "rq_holds ?q ps"
        using w xs(2) unfolding rq_contents_def by auto
      ultimately show ?thesis using w(2) h by (auto simp: rq_asleep_def)
    qed
  qed
qed

text \<open>Without interference the queue goes to sleep exactly when it is empty.\<close>

lemma prepare_holds:
  assumes "rq_holds q ps"
  shows "\<exists>q'. prepare_for_sleep q = Some (ps = [], q') \<and> rq_holds q' ps \<and> rq_frame q q' \<and>
    rq_asleep q' = (ps = [])"
proof -
  obtain xs where xs: "rq_inv q xs" "rq_closed q \<notin> set xs" "rq_data q xs = ps"
    using assms by (auto simp: rq_contents_def)
  note i = rq_invD [OF xs(1)]
  have ne: "xs \<noteq> []" using i(1) chain_not_Nil by blast
  have asleep: "rq_asleep q \<longleftrightarrow> xs = [rq_sleep q]"
  proof
    assume "rq_asleep q"
    then have l: "last xs = rq_sleep q" using i(4) by (simp add: rq_asleep_def)
    then have "hd xs = rq_sleep q" using i(7) ne last_in_set by metis
    with l ne i(2) show "xs = [rq_sleep q]"
      by (metis distinct.simps(2) last.simps last_in_set list.exhaust_sel)
  qed (use i(4) in \<open>simp add: rq_asleep_def\<close>)
  have single: "ps = [] \<longleftrightarrow> xs = [rq_end q] \<or> xs = [rq_sleep q]"
    using holds_Nil xs by (auto simp: rq_data_def rq_markers_def)
  show ?thesis
  proof (cases "rq_tail q = rq_sleep q")
    case True
    then have "rq_sleep q \<in> set xs" using i(3) ne hd_in_set by fastforce
    then have "xs \<noteq> [rq_end q]" using i(5) by auto
    then have "(rq_head q = rq_sleep q) = (ps = [])"
      using single asleep by (simp add: rq_asleep_def)
    then show ?thesis using True assms by (auto simp: prepare_for_sleep_def rq_asleep_def Let_def)
  next
    case False
    then have s: "rq_sleep q \<notin> set xs" using i(3,7) by auto
    then have na: "\<not> rq_asleep q" using asleep by auto
    show ?thesis
    proof (cases "rq_tail q = rq_end q")
      case False
      then have "ps \<noteq> []" using single i(3) s by auto
      then show ?thesis
        using False \<open>rq_tail q \<noteq> rq_sleep q\<close> assms na by (auto simp: prepare_for_sleep_def Let_def)
    next
      case True
      obtain n where n: "rq_heap q (rq_sleep q) = Some n"
        and w: "rq_inv (q\<lparr>rq_heap := (rq_heap q)(rq_sleep q \<mapsto> n\<lparr>nd_next := None\<rparr>)\<rparr>) xs"
          "rq_frame q (q\<lparr>rq_heap := (rq_heap q)(rq_sleep q \<mapsto> n\<lparr>nd_next := None\<rparr>)\<rparr>)"
          "rq_data (q\<lparr>rq_heap := (rq_heap q)(rq_sleep q \<mapsto> n\<lparr>nd_next := None\<rparr>)\<rparr>) xs = ps"
        using write_marker [OF xs(1) _ s] xs(3) by (auto simp: rq_markers_def Let_def)
      let ?h = "(rq_heap q)(rq_sleep q \<mapsto> n\<lparr>nd_next := None\<rparr>)"
      show ?thesis
      proof (cases "rq_head q = rq_end q")
        case False
        then have "ps \<noteq> []" using single i(4) s by auto
        moreover have "prepare_for_sleep q = Some (False, q\<lparr>rq_heap := ?h\<rparr>)"
          using True False n na \<open>rq_tail q \<noteq> rq_sleep q\<close>
          by (simp add: prepare_for_sleep_def Let_def rq_asleep_def)
        moreover have "rq_holds (q\<lparr>rq_heap := ?h\<rparr>) ps"
          using w xs(2) unfolding rq_contents_def by auto
        ultimately show ?thesis using w(2) na by (auto simp: rq_asleep_def)
      next
        case h: True
        have "xs = [rq_end q]"
          using h True i(2,3,4) ne
          by (metis distinct.simps(2) last.simps last_in_set list.exhaust_sel)
        then have "ps = []" using single by simp
        obtain e where e: "rq_heap q (rq_end q) = Some e" "nd_next e = None"
          using i(1) \<open>xs = [rq_end q]\<close> by auto
        let ?q = "q\<lparr>rq_heap := ?h, rq_head := rq_sleep q, rq_tail := rq_sleep q\<rparr>"
        have "prepare_for_sleep q = Some (True, ?q)"
          using True h n e i(5) by (simp add: prepare_for_sleep_def rq_node_def Let_def)
        moreover have "rq_inv ?q [rq_sleep q]"
          using i(5,6) unfolding rq_inv_def rq_markers_def by auto
        then have "rq_holds ?q []"
          using i(5) by (auto simp: rq_contents_def rq_data_def rq_markers_def)
        moreover have "rq_frame q ?q"
          using w(2) by (simp add: rq_frame_def rq_nodes_def fun_eq_iff)
        ultimately show ?thesis using \<open>ps = []\<close> by (auto simp: rq_asleep_def)
      qed
    qed
  qed
qed

section \<open>The contract of the queue\<close>

text \<open>
  What the poll loop and the registrations need of the queue: first in first out, no
  node enqueued on a sleeping queue without the caller being told, and nothing but links
  changed. \<open>same\<close> is that frame, \<open>fresh q p\<close> says that \<open>p\<close> may be enqueued.
\<close>

fun enq_all :: "('q \<Rightarrow> ptr \<Rightarrow> (bool \<times> 'q) option) \<Rightarrow> 'q \<Rightarrow> ptr list \<Rightarrow> 'q option" where
  "enq_all enq q [] = Some q"
| "enq_all enq q (p # ps) = do { (_, q) \<leftarrow> enq q p; enq_all enq q ps }"

text \<open>Dequeue until \<open>Empty\<close>, at most \<open>fuel\<close> times.\<close>

fun drain ::
  "('q \<Rightarrow> ptr option \<Rightarrow> (dequeue \<times> 'q) option) \<Rightarrow> nat \<Rightarrow> 'q \<Rightarrow> ptr option \<Rightarrow> (ptr list \<times> 'q) option"
where
  "drain deq 0 q until = None"
| "drain deq (Suc fuel) q until = do {
     (d, q) \<leftarrow> deq q until;
     (case d of
        Data p \<Rightarrow> do { (ps, q) \<leftarrow> drain deq fuel q until; Some (p # ps, q) }
      | Empty \<Rightarrow> Some ([], q)
      | Inconsistent \<Rightarrow> None)
   }"

locale node_queue =
  fixes contents :: "'q \<Rightarrow> ptr list \<Rightarrow> bool"
    and fresh :: "'q \<Rightarrow> ptr \<Rightarrow> bool"
    and asleep :: "'q \<Rightarrow> bool"
    and same :: "'q \<Rightarrow> 'q \<Rightarrow> bool"
    and enq :: "'q \<Rightarrow> ptr \<Rightarrow> (bool \<times> 'q) option"
    and deq :: "'q \<Rightarrow> ptr option \<Rightarrow> (dequeue \<times> 'q) option"
    and sleep :: "'q \<Rightarrow> (bool \<times> 'q) option"
  assumes same_refl: "same q q"
    and same_trans: "same a b \<Longrightarrow> same b c \<Longrightarrow> same a c"
    and same_fresh: "same q q' \<Longrightarrow> fresh q' p = fresh q p"
    and enq_law: "contents q ps \<Longrightarrow> fresh q p \<Longrightarrow> p \<notin> set ps \<Longrightarrow>
      \<exists>q'. enq q p = Some (asleep q, q') \<and> contents q' (ps @ [p]) \<and> same q q'"
    and deq_Nil: "contents q [] \<Longrightarrow>
      \<exists>q'. deq q until = Some (Empty, q') \<and> contents q' [] \<and> same q q'"
    and deq_Cons: "contents q (p # ps) \<Longrightarrow>
      \<exists>q'. deq q until = Some (if until = Some p then Empty else Data p, q') \<and>
        contents q' (if until = Some p then p # ps else ps) \<and> same q q'"
    and sleep_law: "contents q ps \<Longrightarrow>
      \<exists>q'. sleep q = Some (ps = [], q') \<and> contents q' ps \<and> same q q' \<and> asleep q' = (ps = [])"
begin

lemma enq_all_law:
  "contents q ps \<Longrightarrow> \<forall>p \<in> set ns. fresh q p \<Longrightarrow> distinct (ps @ ns) \<Longrightarrow>
     \<exists>q'. enq_all enq q ns = Some q' \<and> contents q' (ps @ ns) \<and> same q q'"
proof (induction ns arbitrary: q ps)
  case Nil
  then show ?case using same_refl by auto
next
  case (Cons p ns)
  obtain q1 where q1: "enq q p = Some (asleep q, q1)" "contents q1 (ps @ [p])" "same q q1"
    using enq_law [of q ps p] Cons.prems by auto
  obtain q2 where "enq_all enq q1 ns = Some q2" "contents q2 ((ps @ [p]) @ ns)" "same q1 q2"
    using Cons.IH [OF q1(2)] Cons.prems same_fresh [OF q1(3)] by auto
  then show ?case using q1 same_trans by auto
qed

lemma drain_all:
  "contents q ps \<Longrightarrow> length ps < fuel \<Longrightarrow>
     \<exists>q'. drain deq fuel q None = Some (ps, q') \<and> contents q' [] \<and> same q q'"
proof (induction ps arbitrary: q fuel)
  case Nil
  then obtain f where "fuel = Suc f" by (cases fuel) auto
  then show ?case using deq_Nil [OF Nil.prems(1), of None] by auto
next
  case (Cons p ps)
  then obtain f where f: "fuel = Suc f" "length ps < f" by (cases fuel) auto
  obtain q1 where q1: "deq q None = Some (Data p, q1)" "contents q1 ps" "same q q1"
    using deq_Cons [OF Cons.prems(1), of None] by auto
  obtain q2 where "drain deq f q1 None = Some (ps, q2)" "contents q2 []" "same q1 q2"
    using Cons.IH [OF q1(2) f(2)] by auto
  then show ?case using f(1) q1 same_trans by auto
qed

lemma drain_until:
  "contents q (ps @ u # rs) \<Longrightarrow> u \<notin> set ps \<Longrightarrow> length ps < fuel \<Longrightarrow>
     \<exists>q'. drain deq fuel q (Some u) = Some (ps, q') \<and> contents q' (u # rs) \<and> same q q'"
proof (induction ps arbitrary: q fuel)
  case Nil
  then obtain f where "fuel = Suc f" by (cases fuel) auto
  then show ?case using deq_Cons [of q u rs "Some u"] Nil.prems by auto
next
  case (Cons p ps)
  then obtain f where f: "fuel = Suc f" "length ps < f" by (cases fuel) auto
  obtain q1 where q1: "deq q (Some u) = Some (Data p, q1)" "contents q1 (ps @ u # rs)"
    "same q q1"
    using deq_Cons [of q p "ps @ u # rs" "Some u"] Cons.prems by auto
  obtain q2 where "drain deq f q1 (Some u) = Some (ps, q2)" "contents q2 (u # rs)" "same q1 q2"
    using Cons.IH [OF q1(2) _ f(2)] Cons.prems(2) by auto
  then show ?case using f(1) q1 same_trans by auto
qed

text \<open>First in, first out.\<close>

lemma fifo:
  assumes "contents q ps" "\<forall>p \<in> set ns. fresh q p" "distinct (ps @ ns)"
  shows "\<exists>q1 q2. enq_all enq q ns = Some q1 \<and>
    drain deq (Suc (length (ps @ ns))) q1 None = Some (ps @ ns, q2) \<and>
    contents q2 [] \<and> same q q2"
  using enq_all_law [OF assms] drain_all [of _ "ps @ ns" "Suc (length (ps @ ns))"] same_trans
  by (metis lessI)

text \<open>Whoever fills a queue that went to sleep is told so.\<close>

lemma sleep_then_enq:
  assumes "contents q ps" "fresh q p" "p \<notin> set ps"
  shows "\<exists>q1 q2. sleep q = Some (ps = [], q1) \<and> enq q1 p = Some (ps = [], q2) \<and>
    contents q2 (ps @ [p]) \<and> same q q2"
proof -
  obtain q1 where q1: "sleep q = Some (ps = [], q1)" "contents q1 ps" "same q q1"
    "asleep q1 = (ps = [])" using sleep_law [OF assms(1)] by blast
  then show ?thesis
    using enq_law [OF q1(2) _ assms(3)] same_fresh [OF q1(3)] assms(2) same_trans by auto
qed

end

definition rq_fresh :: "'p rq \<Rightarrow> ptr \<Rightarrow> bool" where
  "rq_fresh q p \<longleftrightarrow> p \<in> dom (rq_heap q) \<and> p \<notin> rq_markers q"

lemma rq_frame_dom: "rq_frame q q' \<Longrightarrow> dom (rq_heap q') = dom (rq_heap q)"
  using rq_nodes_dom by (metis rq_frame_def)

interpretation rqq: node_queue rq_holds rq_fresh rq_asleep rq_frame enqueue_node dequeue_node
  prepare_for_sleep
proof (unfold_locales, goal_cases)
  case 1 show ?case by simp
next
  case 2 then show ?case by (rule rq_frame_trans)
next
  case 3 then show ?case by (simp add: rq_fresh_def rq_frame_dom rq_frame_markers)
next
  case 4 then show ?case unfolding rq_fresh_def by (elim conjE) (rule enqueue_holds)
next
  case 5 then show ?case using dequeue_holds_Nil by blast
next
  case 6 then show ?case by (rule dequeue_holds_Cons)
next
  case 7 then show ?case by (rule prepare_holds)
qed

section \<open>Releasing nodes and closing the queue\<close>

definition node_released :: "node \<Rightarrow> node option" where
  "node_released n =
     (if nd_ref_count n = 1 then None else Some (n\<lparr>nd_ref_count := nd_ref_count n - 1\<rparr>))"

text \<open>The share of the queue at \<open>a\<close> that freeing the node gives back.\<close>

definition node_share :: "ptr \<Rightarrow> node \<Rightarrow> bool" where
  "node_share a n \<longleftrightarrow> nd_ref_count n = 1 \<and> nd_queue n = Some a"

lemma release_runs:
  assumes "rq_heap q p = Some n"
  shows "\<exists>q'. release_node q p = Some q' \<and> rq_heap q' = (rq_heap q)(p := node_released n) \<and>
    rq_arc q' = (\<lambda>a. rq_arc q a - (if node_share a n then 1 else 0)) \<and>
    q' = q\<lparr>rq_heap := rq_heap q', rq_arc := rq_arc q'\<rparr>"
  using assms
  by (auto simp: release_node_def rq_node_def node_released_def node_share_def Let_def fun_eq_iff
      split: option.splits)

lemma release_contents:
  assumes "rq_contents q c ps" "p \<notin> rq_markers q" "p \<notin> set ps"
    "q' = q\<lparr>rq_heap := (rq_heap q)(p := v), rq_arc := arcs\<rparr>"
  shows "rq_contents q' c ps"
proof -
  obtain xs where xs: "rq_inv q xs" "(rq_closed q \<in> set xs) = c" "rq_data q xs = ps"
    using assms(1) by (auto simp: rq_contents_def)
  have p: "p \<notin> set xs" using xs(3) assms(2,3) by (auto simp: rq_data_def)
  have m: "rq_markers q' = rq_markers q" using assms(4) by (simp add: rq_markers_def)
  have "rq_inv q' xs"
    using rq_invD [OF xs(1)] p assms(2) unfolding rq_inv_def m by (auto simp: assms(4))
  then show ?thesis using xs m assms(4) by (auto simp: rq_contents_def rq_data_def)
qed

lemma closed_Nil:
  assumes "rq_contents q True []"
  shows "\<exists>q'. rq_drop_loop q = Some q' \<and> rq_frame q q'"
proof -
  obtain xs where xs: "rq_inv q xs" "rq_closed q \<in> set xs" "rq_data q xs = []"
    using assms by (auto simp: rq_contents_def)
  note i = rq_invD [OF xs(1)]
  have done_at: "\<exists>q'. rq_drop_loop q = Some q' \<and> rq_frame q q'"
    if "rq_tail q = rq_closed q" "rq_inv q [rq_closed q]" for q :: "'a rq"
  proof -
    have "dequeue_node q None = Some (Empty, q)"
      using that rq_invD(1,5) [OF that(2)]
      by (auto simp: dequeue_node_def rq_node_def Let_def clear_sleep_awake)
    then show ?thesis by (subst rq_drop_loop.simps) simp
  qed
  obtain ys where ys: "xs = ys @ [rq_closed q]"
    using xs(2) i(8) by (metis append_butlast_last_id empty_iff empty_set)
  have ym: "set ys \<subseteq> {rq_end q, rq_sleep q}"
    using xs(3) i(2) ys by (auto simp: rq_data_def rq_markers_def filter_empty_conv)
  show ?thesis
  proof (cases ys)
    case Nil
    then show ?thesis using done_at [of q] xs(1) ys i(3) by simp
  next
    case (Cons m zs)
    have "zs = []"
      using ym i(2,7) unfolding ys Cons by (cases zs) auto
    then have x: "xs = [m, rq_closed q]" using ys Cons by simp
    have m: "m \<in> rq_markers q" "m \<noteq> rq_closed q" using ym Cons i(2) x by (auto simp: rq_markers_def)
    obtain n where n: "rq_heap q m = Some n" "nd_next n = Some (rq_closed q)" using i(1) x by auto
    obtain c where c: "rq_heap q (rq_closed q) = Some c" "nd_next c = None" using i(1) x by auto
    let ?q = "q\<lparr>rq_tail := rq_closed q\<rparr>"
    have inv: "rq_inv ?q [rq_closed q]" using inv_advance xs(1) x by simp
    have "rq_end ?q \<in> rq_markers ?q" "rq_end ?q \<notin> set [rq_closed q]"
      using i(5) by (auto simp: rq_markers_def)
    then obtain e where e: "rq_heap ?q (rq_end ?q) = Some e"
      and w: "rq_inv (?q\<lparr>rq_heap := (rq_heap ?q)(rq_end ?q \<mapsto> e\<lparr>nd_next := None\<rparr>)\<rparr>) [rq_closed q]"
        "rq_frame ?q (?q\<lparr>rq_heap := (rq_heap ?q)(rq_end ?q \<mapsto> e\<lparr>nd_next := None\<rparr>)\<rparr>)"
      using write_marker [OF inv] by (auto simp: Let_def)
    let ?q2 = "?q\<lparr>rq_heap := (rq_heap ?q)(rq_end ?q \<mapsto> e\<lparr>nd_next := None\<rparr>)\<rparr>"
    have hd: "rq_head q = rq_closed q" using i(4) x by simp
    have "enqueue_node ?q (rq_end q) = Some (False, ?q2)"
      using e hd i(5) by (auto simp: enqueue_node_def Let_def)
    then have "dequeue_node q None = Some (Inconsistent, ?q2)"
      using n c i(3,5) x m hd e
      by (auto simp: dequeue_node_def rq_node_def rq_markers_def Let_def dequeue_rest_def)
    moreover obtain q' where "rq_drop_loop ?q2 = Some q'" "rq_frame ?q2 q'"
      using done_at [of ?q2] w(1) by auto
    moreover have "rq_frame q ?q2" using w(2) by (simp add: rq_frame_def rq_nodes_def fun_eq_iff)
    ultimately show ?thesis
      by (subst rq_drop_loop.simps) (auto intro: rq_frame_trans)
  qed
qed

text \<open>
  What dropping the queue does to the nodes it holds: each loses one reference. \<open>ns\<close> are
  the nodes before.
\<close>

definition drop_effect :: "ptr list \<Rightarrow> (ptr \<rightharpoonup> node) \<Rightarrow> (ptr \<Rightarrow> nat) \<Rightarrow> 'p rq \<Rightarrow> bool" where
  "drop_effect ps ns arcs q \<longleftrightarrow>
     rq_nodes q = (\<lambda>p. if p \<in> set ps then Option.bind (ns p) node_released else ns p) \<and>
     rq_arc q = (\<lambda>a. arcs a - length (filter (\<lambda>p. \<exists>n. ns p = Some n \<and> node_share a n) ps))"

lemma rq_nodes_Some:
  "rq_nodes q p = Some n \<Longrightarrow> \<exists>m. rq_heap q p = Some m \<and> n = m\<lparr>nd_next := None\<rparr>"
  by (auto simp: rq_nodes_def)

lemma node_released_link:
  "map_option (\<lambda>n. n\<lparr>nd_next := None\<rparr>) (node_released n) = node_released (n\<lparr>nd_next := None\<rparr>)"
  by (simp add: node_released_def)

lemma frame_state:
  assumes "rq_frame q q'" "rq_heap q a = Some n"
  shows "\<exists>m. rq_heap q' a = Some m \<and> nd_state m = nd_state n"
proof -
  have "rq_nodes q' a = rq_nodes q a" using assms(1) by (simp add: rq_frame_def)
  then obtain m where m: "rq_heap q' a = Some m" "m\<lparr>nd_next := None\<rparr> = n\<lparr>nd_next := None\<rparr>"
    using assms(2) by (auto simp: rq_nodes_def)
  then show ?thesis by (auto dest: arg_cong [of _ _ nd_state])
qed

lemma drop_loop_contents:
  "rq_contents q True ps \<Longrightarrow> \<forall>p \<in> set ps. \<exists>n. rq_heap q p = Some n \<and> rs_is_queued (nd_state n) \<Longrightarrow>
     \<exists>q'. rq_drop_loop q = Some q' \<and> drop_effect ps (rq_nodes q) (rq_arc q) q'"
proof (induction ps arbitrary: q)
  case Nil
  then show ?case using closed_Nil [of q] by (auto simp: drop_effect_def rq_frame_def)
next
  case (Cons p ps)
  note set = rq_contents_set [OF Cons.prems(1)]
  have p: "p \<notin> rq_markers q" "p \<notin> set ps" using set(2,3) by auto
  obtain q1 where q1: "dequeue_node q None = Some (Data p, q1)" "rq_contents q1 True ps"
    "rq_frame q q1" using dequeue_holds_Cons [OF Cons.prems(1), of None] by auto
  have nodes: "rq_nodes q1 = rq_nodes q" "rq_arc q1 = rq_arc q"
    using q1(3) by (simp_all add: rq_frame_def)
  note same = frame_state [OF q1(3)]
  obtain n where n: "rq_heap q p = Some n" "rs_is_queued (nd_state n)" using Cons.prems(2) by auto
  obtain m where m: "rq_heap q1 p = Some m" "rs_is_queued (nd_state m)" using same [OF n(1)] n(2) by auto
  obtain q2 where q2: "release_node q1 p = Some q2"
    "rq_heap q2 = (rq_heap q1)(p := node_released m)"
    "rq_arc q2 = (\<lambda>a. rq_arc q1 a - (if node_share a m then 1 else 0))"
    "q2 = q1\<lparr>rq_heap := rq_heap q2, rq_arc := rq_arc q2\<rparr>"
    using release_runs [OF m(1)] by blast
  have "rq_contents q2 True ps"
    using release_contents [OF q1(2) _ p(2)] p(1) rq_frame_markers [OF q1(3)] q2 by metis
  moreover have "\<forall>a \<in> set ps. \<exists>n. rq_heap q2 a = Some n \<and> rs_is_queued (nd_state n)"
    using Cons.prems(2) same p(2) q2(2) by (metis fun_upd_other list.set_intros(2))
  ultimately obtain q3 where q3: "rq_drop_loop q2 = Some q3"
    "drop_effect ps (rq_nodes q2) (rq_arc q2) q3" using Cons.IH by blast
  have run: "rq_drop_loop q = Some q3"
    using q1(1) q2(1) q3(1) m by (subst rq_drop_loop.simps) (simp add: rq_node_def)
  let ?m = "m\<lparr>nd_next := None\<rparr>"
  have np: "rq_nodes q p = Some ?m" using m(1) fun_cong [OF nodes(1), of p] by (simp add: rq_nodes_def)
  have n2: "rq_nodes q2 = (rq_nodes q)(p := node_released ?m)"
    using q2(2) nodes(1) by (auto simp: rq_nodes_def fun_eq_iff node_released_link)
  have share: "node_share a ?m = node_share a m" for a by (simp add: node_share_def)
  have len: "filter (\<lambda>a. \<exists>n. rq_nodes q2 a = Some n \<and> node_share b n) ps =
      filter (\<lambda>a. \<exists>n. rq_nodes q a = Some n \<and> node_share b n) ps" for b
    using p(2) n2 by (intro filter_cong) auto
  have "drop_effect (p # ps) (rq_nodes q) (rq_arc q) q3"
    using q3(2) np n2 p(2) nodes(2) q2(3) unfolding drop_effect_def len
    by (auto simp: fun_eq_iff share)
  then show ?case using run by blast
qed

lemma close_contents:
  assumes "rq_holds q ps"
  shows "\<exists>b q'. enqueue_node q (rq_closed q) = Some (b, q') \<and> rq_contents q' True ps \<and> rq_frame q q'"
proof -
  obtain xs where xs: "rq_inv q xs" "rq_closed q \<notin> set xs" "rq_data q xs = ps"
    using assms by (auto simp: rq_contents_def)
  have c: "rq_closed q \<in> dom (rq_heap q)" "rq_closed q \<noteq> rq_sleep q" "rq_closed q \<noteq> rq_end q"
    using rq_invD(5,6) [OF xs(1)] by (auto simp: rq_markers_def)
  obtain q' where q': "enqueue_node q (rq_closed q) = Some (last xs = rq_sleep q, q')"
    "rq_inv q' (xs @ [rq_closed q])" "rq_frame q q'"
    using enqueue_open [OF xs(1,2) c(1) xs(2) c(2)] c(3) by auto
  have "rq_data q' (xs @ [rq_closed q]) = ps" "rq_closed q' = rq_closed q"
    using xs(3) rq_frame_data [OF q'(3)] q'(3)
    by (simp_all add: rq_data_def rq_markers_def rq_frame_def)
  then show ?thesis using q' by (auto simp: rq_contents_def intro!: exI [of _ "xs @ [rq_closed q]"])
qed

lemma enqueue_closed:
  assumes "rq_contents q True ps" "rq_heap q p = Some n" "p \<notin> rq_markers q" "p \<notin> set ps"
    "2 \<le> nd_ref_count n"
  shows "\<exists>q'. enqueue_node q p = Some (False, q') \<and> rq_contents q' True ps \<and>
    rq_nodes q' = (rq_nodes q)(p := node_released (n\<lparr>nd_next := None\<rparr>)) \<and> rq_arc q' = rq_arc q"
proof -
  obtain xs where xs: "rq_inv q xs" "rq_closed q \<in> set xs" "rq_data q xs = ps"
    using assms(1) by (auto simp: rq_contents_def)
  have hd: "rq_head q = rq_closed q" using rq_invD(4,8) [OF xs(1)] xs(2) by simp
  have r: "nd_ref_count n \<noteq> 1" "\<not> nd_ref_count n < 2"
    using assms(5) by (auto simp: word_le_nat_alt word_less_nat_alt)
  let ?n = "n\<lparr>nd_next := None, nd_ref_count := nd_ref_count n - 1\<rparr>"
  let ?q = "q\<lparr>rq_heap := (rq_heap q)(p \<mapsto> ?n)\<rparr>"
  have "enqueue_node q p = Some (False, ?q)"
    using assms(2,3) hd r
    by (auto simp: enqueue_node_def rq_markers_def rq_node_def release_node_def Let_def)
  moreover have "rq_contents ?q True ps"
    using release_contents [OF assms(1,3,4), where v = "Some ?n" and arcs = "rq_arc q"] by simp
  moreover have "rq_nodes ?q = (rq_nodes q)(p := node_released (n\<lparr>nd_next := None\<rparr>))"
    using r by (auto simp: rq_nodes_def node_released_def fun_eq_iff)
  ultimately show ?thesis by simp
qed

lemma marker_node: "\<exists>n. node_marker = Some n \<and> nd_next n = None"
  using rs_new_view [of ready_empty opt_empty]
  by (auto simp: node_marker_def as_new_def ready_fits_def opt_fits_def ready_empty_def
      opt_empty_def)

lemma rq_new_holds:
  assumes "distinct [e, s, c]"
  shows "\<exists>q. rq_new (Inr pipe) heap arcs a e s c = Some (Inr q) \<and> rq_holds q [] \<and>
    rq_pipe q = pipe \<and> rq_addr q = a \<and> rq_arc q = arcs(a := 1) \<and>
    rq_markers q = {e, s, c} \<and> (\<forall>p. p \<notin> {e, s, c} \<longrightarrow> rq_heap q p = heap p)"
proof -
  obtain n where n: "node_marker = Some n" "nd_next n = None" using marker_node by blast
  let ?q = "\<lparr>rq_addr = a, rq_heap = heap(e \<mapsto> n, s \<mapsto> n, c \<mapsto> n), rq_head = e, rq_tail = e,
    rq_end = e, rq_sleep = s, rq_closed = c, rq_arc = arcs(a := 1), rq_pipe = pipe\<rparr>"
  have "rq_new (Inr pipe) heap arcs a e s c = Some (Inr ?q)"
    unfolding rq_new_def n(1) by simp
  moreover have "rq_inv ?q [e]"
    using assms n(2) by (auto simp: rq_inv_def rq_markers_def)
  then have "rq_holds ?q []"
    using assms by (auto simp: rq_contents_def rq_data_def rq_markers_def)
  ultimately show ?thesis by (auto simp: rq_markers_def)
qed

section \<open>A queue to run\<close>

text \<open>Two queued nodes, at 11 and 10, the first of them with one reference left.\<close>

definition demo_node :: "usize \<Rightarrow> ptr option \<Rightarrow> node" where
  "demo_node refs next =
     \<lparr>nd_state = QUEUED_MASK, nd_token_0 = default_token, nd_token_1 = default_token,
      nd_token_2 = default_token, nd_next = next, nd_update_lock = False, nd_queue = Some 7,
      nd_ref_count = refs, nd_job = NullJob\<rparr>"

definition demo_rq :: "nat rq" where
  "demo_rq =
     \<lparr>rq_addr = 7,
      rq_heap = [0 \<mapsto> demo_node 0 None, 1 \<mapsto> demo_node 0 None, 2 \<mapsto> demo_node 0 None,
        10 \<mapsto> demo_node 2 None, 11 \<mapsto> demo_node 1 (Some 10), 12 \<mapsto> demo_node 3 None],
      rq_head = 10, rq_tail = 11, rq_end = 0, rq_sleep = 1, rq_closed = 2,
      rq_arc = (\<lambda>_. 5), rq_pipe = 0\<rparr>"

lemma demo_rq_inv: "rq_inv demo_rq [11, 10]"
  by (simp add: rq_inv_def demo_rq_def rq_markers_def demo_node_def)

lemma demo_rq_holds: "rq_holds demo_rq [11, 10]"
  unfolding rq_contents_def
  by (rule exI [of _ "[11, 10]"], simp add: demo_rq_inv)
    (simp add: rq_data_def rq_markers_def demo_rq_def)

lemma demo_rq_fresh: "rq_fresh demo_rq 12"
  by (simp add: rq_fresh_def rq_markers_def demo_rq_def)

lemma demo_rq_queued:
  "\<forall>p \<in> set [11, 10]. \<exists>n. rq_heap demo_rq p = Some n \<and> rs_is_queued (nd_state n)"
  by (simp add: demo_rq_def demo_node_def rs_is_queued_def)

section \<open>Properties\<close>

text \<open>
  C27: The intrusive list with its markers is a first-in first-out queue: nodes enqueued
  one after the other behind what the queue holds come out in exactly that order, then
  the queue answers \<^verbatim>\<open>Empty\<close>; nothing but links has changed, and no assertion fails.
\<close>

theorem rq_fifo:
  assumes "rq_holds q ps" "\<forall>p \<in> set ns. rq_fresh q p" "distinct (ps @ ns)"
  shows "\<exists>q1 q2. enq_all enqueue_node q ns = Some q1 \<and>
    drain dequeue_node (Suc (length (ps @ ns))) q1 None = Some (ps @ ns, q2) \<and>
    rq_holds q2 [] \<and> rq_frame q q2"
  by (rule rqq.fifo [OF assms])

lemma rq_fifo_witness:
  "\<exists>q1 q2. enq_all enqueue_node demo_rq [12] = Some q1 \<and>
    drain dequeue_node (Suc (length [11, 10, 12 :: nat])) q1 None = Some ([11, 10, 12], q2) \<and> rq_holds q2 [] \<and>
    rq_frame demo_rq q2"
  using rq_fifo [OF demo_rq_holds, of "[12]"] demo_rq_fresh
  by (simp del: enq_all.simps drain.simps)

text \<open>
  C28: Going to sleep and being woken up. The queue falls asleep exactly when it is
  empty; the next node enqueued then sends one wake-up through the awakener, whose
  outcome is the result, and a queue that did not fall asleep sends none. Either way
  the node is in the queue, so no wake-up is lost.
\<close>

theorem rq_wakeup_not_lost:
  assumes "rq_holds q ps" "rq_fresh q p" "p \<notin> set ps"
  shows "\<exists>q1 r q2. prepare_for_sleep q = Some (ps = [], q1) \<and>
    enqueue_node_with_wakeup wr q1 p = Some (r, q2) \<and> rq_holds q2 (ps @ [p]) \<and>
    (r, rq_pipe q2) = (if ps = [] then awk_wakeup wr (rq_pipe q) else (Inr (), rq_pipe q))"
proof -
  obtain q1 q2 where q: "prepare_for_sleep q = Some (ps = [], q1)"
    "enqueue_node q1 p = Some (ps = [], q2)" "rq_holds q2 (ps @ [p])" "rq_frame q q2"
    using rqq.sleep_then_enq [OF assms] by blast
  obtain r pipe where w: "awk_wakeup wr (rq_pipe q) = (r, pipe)" by fastforce
  have pq: "rq_pipe q2 = rq_pipe q" using q(4) by (simp add: rq_frame_def)
  have up: "rq_holds (q2\<lparr>rq_pipe := pipe\<rparr>) (ps @ [p])"
    using q(3) by (simp add: rq_contents_def rq_inv_def rq_data_def rq_markers_def)
  show ?thesis
    using q w pq up
    by (cases "ps = []") (auto simp: enqueue_node_with_wakeup_def rq_wakeup_def)
qed

lemma rq_wakeup_not_lost_witness:
  "\<exists>q1 r q2. prepare_for_sleep demo_rq = Some (False, q1) \<and>
    enqueue_node_with_wakeup (demo_write 5) q1 12 = Some (r, q2) \<and> rq_holds q2 [11, 10, 12]"
  using rq_wakeup_not_lost [OF demo_rq_holds demo_rq_fresh, of "demo_write 5"] by auto

text \<open>
  C32: Dropping the queue terminates, and every node it still held loses exactly the
  reference the queue had: a node with no other reference is freed and gives its share
  of the queue back, every other node survives untouched.
\<close>

theorem rq_drop_releases:
  assumes "rq_holds q ps" "\<forall>p \<in> set ps. \<exists>n. rq_heap q p = Some n \<and> rs_is_queued (nd_state n)"
  shows "\<exists>q'. rq_drop q = Some q' \<and> drop_effect ps (rq_nodes q) (rq_arc q) q'"
proof -
  obtain b q1 where q1: "enqueue_node q (rq_closed q) = Some (b, q1)" "rq_contents q1 True ps"
    "rq_frame q q1" using close_contents [OF assms(1)] by blast
  have nodes: "rq_nodes q1 = rq_nodes q" "rq_arc q1 = rq_arc q"
    using q1(3) by (simp_all add: rq_frame_def)
  then have "\<forall>p \<in> set ps. \<exists>n. rq_heap q1 p = Some n \<and> rs_is_queued (nd_state n)"
    using assms(2) frame_state [OF q1(3)] by metis
  then show ?thesis
    using drop_loop_contents [OF q1(2)] q1(1) nodes by (simp add: rq_drop_def)
qed

lemma rq_drop_releases_witness:
  "\<exists>q'. rq_drop demo_rq = Some q' \<and> rq_heap q' 11 = None \<and> rq_arc q' 7 = 4"
proof -
  obtain q' where q': "rq_drop demo_rq = Some q'"
    "drop_effect [11, 10] (rq_nodes demo_rq) (rq_arc demo_rq) q'"
    using rq_drop_releases [OF demo_rq_holds demo_rq_queued] by blast
  then have "rq_nodes q' 11 = None" "rq_arc q' 7 = 4"
    by (simp_all add: drop_effect_def rq_nodes_def demo_rq_def demo_node_def node_released_def
        node_share_def)
  then show ?thesis using q'(1) by (simp add: rq_nodes_def)
qed

text \<open>
  A node enqueued on a queue that has been closed is not put into it: the caller's
  reference for the queue is given back instead, and nobody is woken up.
\<close>

lemma rq_closed_refuses:
  assumes "rq_contents q True ps" "rq_heap q p = Some n" "p \<notin> rq_markers q" "p \<notin> set ps"
    "2 \<le> nd_ref_count n"
  shows "\<exists>q'. enqueue_node_with_wakeup wr q p = Some (Inr (), q') \<and> rq_contents q' True ps \<and>
    rq_nodes q' = (rq_nodes q)(p \<mapsto>
      n\<lparr>nd_next := None, nd_ref_count := nd_ref_count n - 1\<rparr>) \<and>
    rq_arc q' = rq_arc q"
proof -
  have "nd_ref_count n \<noteq> 1" using assms(5) by (auto simp: word_le_nat_alt)
  then show ?thesis
    using enqueue_closed [OF assms]
    by (auto simp: enqueue_node_with_wakeup_def node_released_def)
qed

lemma rq_closed_refuses_example:
  "\<exists>b q q'. enqueue_node demo_rq 2 = Some (b, q) \<and>
    enqueue_node_with_wakeup (demo_write 5) q 12 = Some (Inr (), q')"
proof -
  obtain b q where q: "enqueue_node demo_rq (rq_closed demo_rq) = Some (b, q)"
    "rq_contents q True [11, 10]" "rq_frame demo_rq q"
    using close_contents [OF demo_rq_holds] by blast
  have "rq_nodes q 12 = rq_nodes demo_rq 12" "rq_markers q = {0, 1, 2}"
    using q(3) rq_frame_markers [OF q(3)] by (simp_all add: rq_frame_def rq_markers_def demo_rq_def)
  then obtain n where n: "rq_heap q 12 = Some n" "nd_ref_count n = 3"
    by (auto simp: rq_nodes_def demo_rq_def demo_node_def dest: arg_cong [of _ _ nd_ref_count])
  have "12 \<notin> rq_markers q" "(12 :: nat) \<notin> set [11, 10]" "2 \<le> nd_ref_count n"
    using n \<open>rq_markers q = _\<close> by (simp_all add: word_le_nat_alt)
  then show ?thesis
    using rq_closed_refuses [OF q(2) n(1), of "demo_write 5"] q(1) by (auto simp: demo_rq_def)
qed

end
