(* ===== verification/Epoll.thy ===== *)
theory Epoll
  imports Event_Imp
begin

text \<open>
  The epoll back end, \<^verbatim>\<open>src/sys/unix/epoll.rs\<close>, with \<^verbatim>\<open>cvt\<close> of
  \<^verbatim>\<open>src/sys/unix/mod.rs\<close> and \<^verbatim>\<open>src/sys/unix/eventedfd.rs\<close>: the selector with its
  table from file descriptors to job entries, and the event buffer the poller fills.

  The kernel is not part of the program: its state is a type variable \<open>'k\<close> and the three
  system calls are arguments. A system call returns its C result and the value
  \<^verbatim>\<open>last_os_error\<close> has after it.
\<close>

section \<open>System calls\<close>

type_synonym sysret = "int \<times> io_error"

definition cvt :: "sysret \<Rightarrow> int io_result" where
  "cvt r = (if fst r = -1 then Inl (snd r) else Inr (fst r))"

lemma cvt_cases:
  "cvt r = Inr n \<longleftrightarrow> fst r = n \<and> n \<noteq> -1"
  "cvt r = Inl e \<longleftrightarrow> fst r = -1 \<and> snd r = e"
  by (auto simp: cvt_def)

record epoll_event =
  epe_events :: u32
  epe_u64 :: u64

datatype ctl_op = EPOLL_CTL_ADD | EPOLL_CTL_MOD | EPOLL_CTL_DEL

text \<open>
  \<^verbatim>\<open>epoll_ctl(epfd, op, fd, &event)\<close>, and \<^verbatim>\<open>epoll_wait(epfd, buf, maxevents, timeout)\<close>
  with the buffer it fills.
\<close>

type_synonym 'k epoll_ctl = "i32 \<Rightarrow> ctl_op \<Rightarrow> i32 \<Rightarrow> epoll_event \<Rightarrow> 'k \<Rightarrow> sysret \<times> 'k"
type_synonym 'k epoll_wait = "i32 \<Rightarrow> i32 \<Rightarrow> i32 \<Rightarrow> 'k \<Rightarrow> (sysret \<times> epoll_event list) \<times> 'k"

text \<open>The bits of \<^verbatim>\<open><sys/epoll.h>\<close> that the code names.\<close>

definition EPOLLIN :: u32 where [mio_defs]: "EPOLLIN = 1"
definition EPOLLPRI :: u32 where [mio_defs]: "EPOLLPRI = 2"
definition EPOLLOUT :: u32 where [mio_defs]: "EPOLLOUT = 4"
definition EPOLLERR :: u32 where [mio_defs]: "EPOLLERR = 8"
definition EPOLLHUP :: u32 where [mio_defs]: "EPOLLHUP = 16"
definition EPOLLONESHOT :: u32 where [mio_defs]: "EPOLLONESHOT = 2 ^ 30"
definition EPOLLET :: u32 where [mio_defs]: "EPOLLET = 2 ^ 31"

section \<open>Conversions\<close>

definition ioevent_to_epoll :: "ready \<Rightarrow> poll_opt \<Rightarrow> u32" where
  "ioevent_to_epoll interest opts =
     (let kind = 0;
          kind = (if ready_is_readable interest then kind OR EPOLLIN else kind);
          kind = (if ready_is_writable interest then kind OR EPOLLOUT else kind);
          kind = (if unix_is_priority (unix_from_ready interest) then kind OR EPOLLPRI else kind);
          kind = (if opt_is_edge opts then kind OR EPOLLET else kind);
          kind = (if opt_is_level opts then kind AND NOT EPOLLET else kind);
          kind = (if opt_is_oneshot opts then kind OR EPOLLONESHOT else kind)
      in kind)"

text \<open>The readiness \<^verbatim>\<open>get_ready\<close> decodes from one event's bits.\<close>

definition epoll_to_ready :: "u32 \<Rightarrow> ready" where
  "epoll_to_ready epoll =
     (let kind = ready_empty;
          kind = (if epoll AND EPOLLIN \<noteq> 0 then ready_bitor kind ready_readable else kind);
          kind = (if epoll AND EPOLLOUT \<noteq> 0 then ready_bitor kind ready_writable else kind);
          kind = (if epoll AND EPOLLPRI \<noteq> 0
                  then ready_bitor (ready_bitor kind ready_readable) (ready_from_unix unix_priority)
                  else kind);
          kind = (if epoll AND EPOLLERR \<noteq> 0
                  then ready_bitor kind (ready_from_unix unix_error) else kind);
          kind = (if epoll AND EPOLLHUP \<noteq> 0
                  then ready_bitor kind (ready_from_unix unix_hup) else kind)
      in kind)"

text \<open>\<^verbatim>\<open>millis\<close> of this file and the timeout argument of \<^verbatim>\<open>epoll_wait\<close>.\<close>

definition epoll_millis :: "duration \<Rightarrow> u64" where
  "epoll_millis d =
     (let ms = (dur_nanos d + NANOS_PER_MILLI - 1) div NANOS_PER_MILLI
      in saturating_add (saturating_mul (dur_secs d) MILLIS_PER_SEC) (ucast ms))"

definition I32_MAX :: u64 where "I32_MAX = 2147483647"

definition select_timeout :: "duration option \<Rightarrow> i32" where
  "select_timeout timeout =
     (case map_option (\<lambda>to. ucast (min (epoll_millis to) I32_MAX)) timeout of
        None \<Rightarrow> - 1
      | Some ms \<Rightarrow> ms)"

section \<open>The event buffer\<close>

text \<open>
  Two vectors, filled side by side. A vector's capacity is part of what the poller
  reads; a push on a full vector reallocates.
\<close>

record sys_events =
  se_events :: "epoll_event list"
  se_entries :: "job_entry list"
  se_events_cap :: nat
  se_entries_cap :: nat

definition vec_grow :: "nat \<Rightarrow> nat \<Rightarrow> nat" where
  "vec_grow len cap = (if len < cap then cap else max 4 (2 * cap))"

definition se_with_capacity :: "nat \<Rightarrow> sys_events" where
  "se_with_capacity u =
     \<lparr>se_events = [], se_entries = [], se_events_cap = u, se_entries_cap = u\<rparr>"

definition se_len :: "sys_events \<Rightarrow> nat" where
  [mio_defs]: "se_len evts = length (se_entries evts)"

definition se_capacity :: "sys_events \<Rightarrow> nat" where
  [mio_defs]: "se_capacity evts = se_entries_cap evts"

definition se_is_empty :: "sys_events \<Rightarrow> bool" where
  [mio_defs]: "se_is_empty evts \<longleftrightarrow> se_entries evts = []"

definition se_get_ready :: "sys_events \<Rightarrow> nat \<Rightarrow> ready option" where
  "se_get_ready evts idx =
     map_option (\<lambda>event. epoll_to_ready (epe_events event))
       (if idx < length (se_events evts) then Some (se_events evts ! idx) else None)"

definition se_get_mut :: "sys_events \<Rightarrow> nat \<Rightarrow> job_entry option" where
  "se_get_mut evts idx =
     (if idx < length (se_entries evts) then Some (se_entries evts ! idx) else None)"

definition se_push_entry :: "sys_events \<Rightarrow> job_entry \<Rightarrow> sys_events" where
  "se_push_entry evts e =
     evts\<lparr>se_entries := se_entries evts @ [e],
          se_entries_cap := vec_grow (length (se_entries evts)) (se_entries_cap evts)\<rparr>"

definition se_push_event :: "sys_events \<Rightarrow> event \<Rightarrow> job \<Rightarrow> sys_events" where
  "se_push_event evts event job =
     se_push_entry
       (evts\<lparr>se_events := se_events evts @
               [\<lparr>epe_events = ioevent_to_epoll (event_readiness event) opt_empty,
                 epe_u64 = usize_from_token (te_token (ev_token event))\<rparr>],
             se_events_cap := vec_grow (length (se_events evts)) (se_events_cap evts)\<rparr>)
       \<lparr>je_token_entry = ev_token event, je_job = job, je_ready = ready_empty\<rparr>"

definition se_clear :: "sys_events \<Rightarrow> sys_events" where
  "se_clear evts = evts\<lparr>se_events := [], se_entries := []\<rparr>"

section \<open>The selector\<close>

record selector =
  sel_id :: usize
  sel_epfd :: i32
  sel_events_map :: "i32 \<rightharpoonup> job_entry"

text \<open>
  \<open>create1\<close> is what the dynamically looked up \<^verbatim>\<open>epoll_create1\<close> returns, if the symbol
  exists, \<open>create\<close> what \<^verbatim>\<open>epoll_create\<close> does; \<open>next_id\<close> is the static counter. The
  result of setting close-on-exec is dropped by the code.
\<close>

definition selector_new ::
  "sysret option \<Rightarrow> sysret \<Rightarrow> usize \<Rightarrow> selector io_result \<times> usize" where
  "selector_new create1 create next_id =
     (case cvt (case create1 of Some r \<Rightarrow> r | None \<Rightarrow> create) of
        Inl e \<Rightarrow> (Inl e, next_id)
      | Inr epfd \<Rightarrow>
          (Inr \<lparr>sel_id = next_id + 1, sel_epfd = word_of_int epfd, sel_events_map = Map.empty\<rparr>,
           next_id + 1))"

text \<open>
  One turn of the loop of \<^verbatim>\<open>select\<close> over the indices of the reported events: the
  descriptor is the truncated user data; an entry of the table is the awakener, whose
  index is remembered, or is given its readiness and copied to the buffer; a
  descriptor without entry is skipped.
\<close>

fun select_loop ::
  "(i32 \<rightharpoonup> job_entry) \<Rightarrow> sys_events \<Rightarrow> nat list \<Rightarrow> nat \<Rightarrow> bool \<Rightarrow>
   ((i32 \<rightharpoonup> job_entry) \<times> sys_events \<times> nat \<times> bool) option" where
  "select_loop emap evts [] notify_idx has_notify = Some (emap, evts, notify_idx, has_notify)"
| "select_loop emap evts (i # is) notify_idx has_notify =
     (if length (se_events evts) \<le> i then None
      else let fd = ucast (epe_u64 (se_events evts ! i)) in
        case emap fd of
          Some entry \<Rightarrow>
            (if te_ttype (je_token_entry entry) = NotifyEvent
             then select_loop emap evts is i True
             else case se_get_ready evts i of
                 None \<Rightarrow> None
               | Some r \<Rightarrow>
                   (let entry' = entry\<lparr>je_ready := r\<rparr> in
                    select_loop (emap(fd \<mapsto> entry')) (se_push_entry evts entry') is
                      notify_idx has_notify))
        | None \<Rightarrow> select_loop emap evts is notify_idx has_notify)"

definition selector_select ::
  "'k epoll_wait \<Rightarrow> selector \<Rightarrow> sys_events \<Rightarrow> duration option \<Rightarrow> 'k \<Rightarrow>
   (bool io_result \<times> selector \<times> sys_events \<times> 'k) option" where
  "selector_select wait sel evts timeout k =
     (let timeout_ms = select_timeout timeout;
          evts = se_clear evts;
          ((ret, buf), k') = wait (sel_epfd sel) (word_of_nat (se_events_cap evts)) timeout_ms k
      in case cvt ret of
           Inl e \<Rightarrow> Some (Inl e, sel, evts, k')
         | Inr cnt \<Rightarrow>
             (let evts = evts\<lparr>se_events := take (nat cnt) buf\<rparr> in
              case select_loop (sel_events_map sel) evts [0..<nat cnt] 0 False of
                None \<Rightarrow> None
              | Some (emap, evts, notify_idx, has_notify) \<Rightarrow>
                  (let sel = sel\<lparr>sel_events_map := emap\<rparr> in
                   if has_notify
                   then Some (Inr True, sel,
                     evts\<lparr>se_events := take notify_idx (se_events evts) @
                            drop (Suc notify_idx) (se_events evts)\<rparr>, k')
                   else Some (Inr False, sel, evts, k'))))"

definition selector_register ::
  "'k epoll_ctl \<Rightarrow> selector \<Rightarrow> i32 \<Rightarrow> token_entry \<Rightarrow> ready \<Rightarrow> poll_opt \<Rightarrow> job \<Rightarrow> 'k \<Rightarrow>
   unit io_result \<times> selector \<times> 'k" where
  "selector_register ctl sel fd token interests opts job k =
     (let info = \<lparr>epe_events = ioevent_to_epoll interests opts, epe_u64 = scast fd\<rparr>;
          sel = sel\<lparr>sel_events_map := (sel_events_map sel)(fd \<mapsto>
                  \<lparr>je_token_entry = token, je_job = job, je_ready = ready_empty\<rparr>)\<rparr>;
          (ret, k') = ctl (sel_epfd sel) EPOLL_CTL_ADD fd info k
      in case cvt ret of
           Inl e \<Rightarrow> (Inl e, sel, k')
         | Inr _ \<Rightarrow> (Inr (), sel, k'))"

definition selector_reregister ::
  "'k epoll_ctl \<Rightarrow> selector \<Rightarrow> i32 \<Rightarrow> token_entry \<Rightarrow> ready \<Rightarrow> poll_opt \<Rightarrow> 'k \<Rightarrow>
   unit io_result \<times> 'k" where
  "selector_reregister ctl sel fd token interests opts k =
     (let info = \<lparr>epe_events = ioevent_to_epoll interests opts,
                  epe_u64 = usize_from_token (te_token token)\<rparr>;
          (ret, k') = ctl (sel_epfd sel) EPOLL_CTL_MOD fd info k
      in case cvt ret of
           Inl e \<Rightarrow> (Inl e, k')
         | Inr _ \<Rightarrow> (Inr (), k'))"

text \<open>
  The last debug line of \<^verbatim>\<open>deregister\<close> unwraps the removed entry; its arguments are
  evaluated only when debug logging is on.
\<close>

definition selector_deregister ::
  "bool \<Rightarrow> 'k epoll_ctl \<Rightarrow> selector \<Rightarrow> i32 \<Rightarrow> 'k \<Rightarrow> (unit io_result \<times> selector \<times> 'k) option" where
  "selector_deregister debug_on ctl sel fd k =
     (let info = \<lparr>epe_events = 0, epe_u64 = 0\<rparr>;
          (ret, k') = ctl (sel_epfd sel) EPOLL_CTL_DEL fd info k
      in case cvt ret of
           Inl e \<Rightarrow> Some (Inl e, sel, k')
         | Inr _ \<Rightarrow>
             (let v = sel_events_map sel fd;
                  sel = sel\<lparr>sel_events_map := (sel_events_map sel)(fd := None)\<rparr>
              in if debug_on \<and> v = None then None else Some (Inr (), sel, k')))"


section \<open>The conversions, bit by bit\<close>

lemma epoll_masks:
  "EPOLLIN = 2 ^ 0" "EPOLLPRI = 2 ^ 1" "EPOLLOUT = 2 ^ 2" "EPOLLERR = 2 ^ 3" "EPOLLHUP = 2 ^ 4"
  "EPOLLONESHOT = 2 ^ 30" "EPOLLET = 2 ^ 31"
  by (simp_all add: mio_defs)

lemma has_mask: "k < 32 \<Longrightarrow> (w :: u32) AND 2 ^ k \<noteq> 0 \<longleftrightarrow> bit w k"
  by (simp add: and_exp_eq_0_iff_not_bit)

lemma has_epoll:
  "w AND EPOLLIN \<noteq> 0 \<longleftrightarrow> bit w 0" "w AND EPOLLPRI \<noteq> 0 \<longleftrightarrow> bit w 1"
  "w AND EPOLLOUT \<noteq> 0 \<longleftrightarrow> bit w 2" "w AND EPOLLERR \<noteq> 0 \<longleftrightarrow> bit w 3"
  "w AND EPOLLHUP \<noteq> 0 \<longleftrightarrow> bit w 4"
  unfolding epoll_masks by (rule has_mask, simp)+

lemma bit_epoll:
  assumes "k < 32"
  shows "bit EPOLLIN k \<longleftrightarrow> k = 0" "bit EPOLLPRI k \<longleftrightarrow> k = 1" "bit EPOLLOUT k \<longleftrightarrow> k = 2"
    "bit EPOLLONESHOT k \<longleftrightarrow> k = 30" "bit EPOLLET k \<longleftrightarrow> k = 31"
  unfolding epoll_masks using assms by (auto simp only: bit_exp_iff) auto

lemma set_if:
  fixes x m :: u32
  shows "(if c then x OR m else x) = x OR (if c then m else 0)"
    and "(if c then x AND NOT m else x) = x AND NOT (if c then m else 0)"
  by simp_all

lemma bitor_if:
  "(if c then ready_bitor x f else x) = ready_bitor x (if c then f else ready_empty)"
  "(if c then ready_bitor (ready_bitor x f) g else x) =
     ready_bitor x (if c then ready_bitor f g else ready_empty)"
  by (simp_all add: mio_defs or.assoc)

lemma ready_flags_consts:
  "ready_flags ready_readable = {0}" "ready_flags ready_writable = {1}"
  "ready_flags (ready_from_unix unix_error) = {2}" "ready_flags (ready_from_unix unix_hup) = {3}"
  "ready_flags (ready_from_unix unix_priority) = {3, 6}"
proof -
  have pri: "ready_from_unix unix_priority = ready_bitor (Ready (2 ^ 3)) (Ready (2 ^ 6))"
    by (simp add: mio_defs)
  show "ready_flags (ready_from_unix unix_priority) = {3, 6}"
    unfolding pri ready.flags_join by (auto simp: ready_flags_single simp del: power_numeral)
  show "ready_flags ready_readable = {0}" "ready_flags ready_writable = {1}"
    "ready_flags (ready_from_unix unix_error) = {2}" "ready_flags (ready_from_unix unix_hup) = {3}"
    using ready_flags_single [of 0] ready_flags_single [of 1] ready_flags_single [of 2]
      ready_flags_single [of 3]
    by (simp_all add: mio_defs)
qed

lemma is_priority_flags: "unix_is_priority (unix_from_ready r) \<longleftrightarrow> {3, 6} \<subseteq> ready_flags r"
  using ready_flags_consts(5)
  by (simp add: unix_is_priority_def unix_from_ready_def ready.contains_iff
      ready_from_unix_def unix_priority_def)

lemma opt_flags_single: "k < 64 \<Longrightarrow> opt_flags (PollOpt (2 ^ k)) = {k}"
  by (auto simp: opt_flags_def bit_exp_iff)

lemma opt_queries:
  "opt_is_edge a \<longleftrightarrow> 0 \<in> opt_flags a"
  "opt_is_level a \<longleftrightarrow> 1 \<in> opt_flags a"
  "opt_is_oneshot a \<longleftrightarrow> 2 \<in> opt_flags a"
  using opt_flags_single [of 0] opt_flags_single [of 1] opt_flags_single [of 2]
  by (simp_all add: opt_is_edge_def opt_is_level_def opt_is_oneshot_def opt.contains_iff
      opt_edge_def opt_level_def opt_oneshot_def)

lemma flags_epoll_to_ready:
  "ready_flags (epoll_to_ready w) =
     (if bit w 0 then {0} else {}) \<union> (if bit w 2 then {1} else {}) \<union>
     (if bit w 1 then {0, 3, 6} else {}) \<union> (if bit w 3 then {2} else {}) \<union>
     (if bit w 4 then {3} else {})"
  unfolding epoll_to_ready_def bitor_if Let_def
  by (simp add: has_epoll ready.flags_join ready_flags_consts ready.flags_none
      if_distrib [of ready_flags] insert_commute cong: if_cong)

lemma bit_ioevent_to_epoll:
  assumes "k < 32"
  shows "bit (ioevent_to_epoll r a) k \<longleftrightarrow>
     k = 0 \<and> ready_is_readable r \<or> k = 2 \<and> ready_is_writable r \<or>
     k = 1 \<and> unix_is_priority (unix_from_ready r) \<or>
     k = 31 \<and> opt_is_edge a \<and> \<not> opt_is_level a \<or> k = 30 \<and> opt_is_oneshot a"
  using assms unfolding ioevent_to_epoll_def set_if Let_def
  by (auto simp: bit_or_iff bit_and_iff bit_not_iff bit_epoll split: if_splits
      simp del: ready_queries)

section \<open>The selection loop\<close>

text \<open>
  What one reported event contributes: a copy of the registered entry with the decoded
  readiness, unless the descriptor is unknown or the awakener's.
\<close>

definition event_fd :: "epoll_event \<Rightarrow> i32" where
  "event_fd ev = ucast (epe_u64 ev)"

definition selected :: "(i32 \<rightharpoonup> job_entry) \<Rightarrow> epoll_event \<Rightarrow> job_entry option" where
  "selected emap ev =
     (case emap (event_fd ev) of
        None \<Rightarrow> None
      | Some e \<Rightarrow>
          if te_ttype (je_token_entry e) = NotifyEvent then None
          else Some (e\<lparr>je_ready := epoll_to_ready (epe_events ev)\<rparr>))"

definition notifies :: "(i32 \<rightharpoonup> job_entry) \<Rightarrow> epoll_event \<Rightarrow> bool" where
  "notifies emap ev \<longleftrightarrow>
     (case emap (event_fd ev) of
        None \<Rightarrow> False
      | Some e \<Rightarrow> te_ttype (je_token_entry e) = NotifyEvent)"

text \<open>The loop changes nothing of the table but the readiness of its entries.\<close>

definition same_entries :: "(i32 \<rightharpoonup> job_entry) \<Rightarrow> (i32 \<rightharpoonup> job_entry) \<Rightarrow> bool" where
  "same_entries m m' \<longleftrightarrow>
     (\<forall>fd. map_option (\<lambda>e. e\<lparr>je_ready := ready_empty\<rparr>) (m fd) =
           map_option (\<lambda>e. e\<lparr>je_ready := ready_empty\<rparr>) (m' fd))"

lemma same_entries_refl [simp]: "same_entries m m"
  by (simp add: same_entries_def)

lemma same_entries_trans: "same_entries a b \<Longrightarrow> same_entries b c \<Longrightarrow> same_entries a c"
  by (simp add: same_entries_def)

lemma same_entries_upd:
  "m fd = Some e \<Longrightarrow> same_entries m (m(fd \<mapsto> e\<lparr>je_ready := r\<rparr>))"
  by (simp add: same_entries_def)

lemma same_entries_dom: "same_entries m m' \<Longrightarrow> dom m = dom m'"
  unfolding same_entries_def dom_def by (metis option.map_disc_iff)

lemma same_entries_cases:
  assumes "same_entries m m'"
  shows "(m fd = None \<and> m' fd = None) \<or>
    (\<exists>e r. m fd = Some e \<and> m' fd = Some (e\<lparr>je_ready := r\<rparr>))"
proof (cases "m fd")
  case None
  then show ?thesis using assms by (metis same_entries_def option.map_disc_iff)
next
  case (Some e)
  then obtain e' where e': "m' fd = Some e'"
      "e\<lparr>je_ready := ready_empty\<rparr> = e'\<lparr>je_ready := ready_empty\<rparr>"
    using assms unfolding same_entries_def by (metis map_option_eq_Some)
  then have "e' = e\<lparr>je_ready := je_ready e'\<rparr>"
    by (cases e; cases e') simp
  then show ?thesis using Some e' by metis
qed

lemma same_entries_selected:
  assumes "same_entries m m'"
  shows "selected m' = selected m"
proof
  fix ev
  show "selected m' ev = selected m ev"
    using same_entries_cases [OF assms, of "event_fd ev"] by (auto simp: selected_def)
qed

lemma same_entries_notifies:
  assumes "same_entries m m'"
  shows "notifies m' = notifies m"
proof
  fix ev
  show "notifies m' ev = notifies m ev"
    using same_entries_cases [OF assms, of "event_fd ev"] by (auto simp: notifies_def)
qed

lemma se_push_entry_fields [simp]:
  "se_events (se_push_entry evts e) = se_events evts"
  "se_entries (se_push_entry evts e) = se_entries evts @ [e]"
  "se_events_cap (se_push_entry evts e) = se_events_cap evts"
  by (simp_all add: se_push_entry_def)

lemma select_loop_step:
  assumes "i < length (se_events evts)"
  shows "select_loop m evts (i # is) ni hn =
     (let ev = se_events evts ! i in
      case selected m ev of
        Some e' \<Rightarrow> select_loop (m(event_fd ev \<mapsto> e')) (se_push_entry evts e') is ni hn
      | None \<Rightarrow> select_loop m evts is (if notifies m ev then i else ni) (hn \<or> notifies m ev))"
  using assms
  by (simp add: selected_def notifies_def event_fd_def se_get_ready_def Let_def
      split: option.split)

lemma selected_same_entries: "selected m ev = Some e' \<Longrightarrow> same_entries m (m(event_fd ev \<mapsto> e'))"
  by (auto simp: selected_def same_entries_upd simp del: fun_upd_apply
      split: option.splits if_splits)

lemma selected_not_notifies: "selected m ev = Some e' \<Longrightarrow> \<not> notifies m ev"
  by (auto simp: selected_def notifies_def split: option.splits if_splits)

lemma select_loop_spec:
  assumes "\<forall>i \<in> set is. i < length (se_events evts)"
  shows "\<exists>m' evts' idx.
     select_loop m evts is ni hn =
       Some (m', evts', idx, hn \<or> (\<exists>i \<in> set is. notifies m (se_events evts ! i))) \<and>
     se_events evts' = se_events evts \<and>
     se_entries evts' = se_entries evts @
       List.map_filter (selected m) (map (\<lambda>i. se_events evts ! i) is) \<and>
     (idx = ni \<or> idx \<in> set is) \<and> same_entries m m'"
  using assms
proof (induction "is" arbitrary: m evts ni hn)
  case Nil
  then show ?case by (simp add: List.map_filter_simps)
next
  case (Cons i "is")
  let ?ev = "se_events evts ! i"
  have i: "i < length (se_events evts)" using Cons.prems by simp
  show ?case
  proof (cases "selected m ?ev")
    case None
    have "\<forall>j \<in> set is. j < length (se_events evts)" using Cons.prems by simp
    from Cons.IH [OF this, of m "if notifies m ?ev then i else ni" "hn \<or> notifies m ?ev"]
    show ?thesis
      unfolding select_loop_step [OF i] Let_def None
      by (auto simp: List.map_filter_simps None split: if_splits)
  next
    case (Some e')
    let ?m = "m(event_fd ?ev \<mapsto> e')" and ?v = "se_push_entry evts e'"
    have same: "same_entries m ?m" using Some by (rule selected_same_entries)
    note eqs = same_entries_selected [OF same] same_entries_notifies [OF same]
    have "\<forall>j \<in> set is. j < length (se_events ?v)" using Cons.prems by simp
    from Cons.IH [OF this, of ?m ni hn] same_entries_trans [OF same] show ?thesis
      unfolding select_loop_step [OF i] Let_def Some eqs
      by (auto simp: List.map_filter_simps Some selected_not_notifies [OF Some]
          simp del: fun_upd_apply)
  qed
qed

section \<open>The kernel's side\<close>

text \<open>
  What \<^verbatim>\<open>epoll_ctl(2)\<close> documents of the interest list: a failed call leaves it alone,
  \<^verbatim>\<open>ADD\<close> succeeds only for a descriptor that is not in it and puts it there, \<^verbatim>\<open>MOD\<close> and
  \<^verbatim>\<open>DEL\<close> succeed only for one that is in it. \<open>watched\<close> reads the interest list off the
  kernel state.
\<close>

definition epoll_ctl_laws :: "'k epoll_ctl \<Rightarrow> ('k \<Rightarrow> i32 set) \<Rightarrow> bool" where
  "epoll_ctl_laws ctl watched \<longleftrightarrow>
     (\<forall>epfd op fd ev k ret k'. ctl epfd op fd ev k = (ret, k') \<longrightarrow>
        (fst ret = -1 \<longrightarrow> watched k' = watched k) \<and>
        (fst ret \<noteq> -1 \<longrightarrow>
           (case op of
              EPOLL_CTL_ADD \<Rightarrow> fd \<notin> watched k \<and> watched k' = insert fd (watched k)
            | EPOLL_CTL_MOD \<Rightarrow> fd \<in> watched k \<and> watched k' = watched k
            | EPOLL_CTL_DEL \<Rightarrow> fd \<in> watched k \<and> watched k' = watched k - {fd})))"

lemma epoll_ctl_lawsD:
  assumes "epoll_ctl_laws ctl watched" "ctl epfd op fd ev k = (ret, k')"
  shows "fst ret = -1 \<Longrightarrow> watched k' = watched k"
    and "fst ret \<noteq> -1 \<Longrightarrow> op = EPOLL_CTL_ADD \<Longrightarrow> fd \<notin> watched k \<and> watched k' = insert fd (watched k)"
    and "fst ret \<noteq> -1 \<Longrightarrow> op = EPOLL_CTL_MOD \<Longrightarrow> fd \<in> watched k \<and> watched k' = watched k"
    and "fst ret \<noteq> -1 \<Longrightarrow> op = EPOLL_CTL_DEL \<Longrightarrow> fd \<in> watched k \<and> watched k' = watched k - {fd}"
proof -
  have "(fst ret = -1 \<longrightarrow> watched k' = watched k) \<and>
    (fst ret \<noteq> -1 \<longrightarrow>
       (case op of
          EPOLL_CTL_ADD \<Rightarrow> fd \<notin> watched k \<and> watched k' = insert fd (watched k)
        | EPOLL_CTL_MOD \<Rightarrow> fd \<in> watched k \<and> watched k' = watched k
        | EPOLL_CTL_DEL \<Rightarrow> fd \<in> watched k \<and> watched k' = watched k - {fd}))"
    using assms unfolding epoll_ctl_laws_def by blast
  then show "fst ret = -1 \<Longrightarrow> watched k' = watched k"
    and "fst ret \<noteq> -1 \<Longrightarrow> op = EPOLL_CTL_ADD \<Longrightarrow> fd \<notin> watched k \<and> watched k' = insert fd (watched k)"
    and "fst ret \<noteq> -1 \<Longrightarrow> op = EPOLL_CTL_MOD \<Longrightarrow> fd \<in> watched k \<and> watched k' = watched k"
    and "fst ret \<noteq> -1 \<Longrightarrow> op = EPOLL_CTL_DEL \<Longrightarrow> fd \<in> watched k \<and> watched k' = watched k - {fd}"
    by simp_all
qed

text \<open>The selector's table has an entry for every descriptor the kernel watches for it.\<close>

definition selector_covers :: "('k \<Rightarrow> i32 set) \<Rightarrow> 'k \<Rightarrow> selector \<Rightarrow> bool" where
  "selector_covers watched k sel \<longleftrightarrow> watched k \<subseteq> dom (sel_events_map sel)"

text \<open>A small kernel for the examples: the interest list with the user data.\<close>

type_synonym demo_kernel = "(i32 \<times> epoll_event) list"

definition no_error :: io_error where "no_error = Io_error (OsKind 0) ''''"
definition eexist :: io_error where "eexist = Io_error (OsKind 17) ''''"

definition demo_ctl :: "demo_kernel epoll_ctl" where
  "demo_ctl epfd op fd ev k =
     (let present = fd \<in> fst ` set k in
      case op of
        EPOLL_CTL_ADD \<Rightarrow> if present then ((-1, eexist), k) else ((0, no_error), (fd, ev) # k)
      | EPOLL_CTL_MOD \<Rightarrow>
          if present
          then ((0, no_error), map (\<lambda>p. if fst p = fd then (fd, ev) else p) k)
          else ((-1, eexist), k)
      | EPOLL_CTL_DEL \<Rightarrow>
          if present then ((0, no_error), filter (\<lambda>p. fst p \<noteq> fd) k) else ((-1, eexist), k))"

definition demo_wait :: "demo_kernel epoll_wait" where
  "demo_wait epfd n timeout k = (((int (length k), no_error), map snd k), k)"

lemma demo_mod_keys:
  "fst ` set (map (\<lambda>p. if fst p = fd then (fd, ev) else p) k) = fst ` set k"
  by (induction k) auto

lemma demo_ctl_laws: "epoll_ctl_laws demo_ctl (\<lambda>k. fst ` set k)"
  unfolding epoll_ctl_laws_def demo_ctl_def Let_def
  by (auto split: ctl_op.splits if_splits simp: demo_mod_keys simp del: set_map)

lemma select_loop_capacity:
  "select_loop emap evts is ni hn = Some (m, evts', ni', hn') \<Longrightarrow>
     length (se_entries evts) + length is \<le> se_entries_cap evts \<Longrightarrow>
     se_entries_cap evts' = se_entries_cap evts \<and>
     length (se_entries evts') \<le> length (se_entries evts) + length is"
proof (induction emap evts "is" ni hn rule: select_loop.induct)
  case (2 emap evts i "is" ni hn)
  let ?fd = "ucast (epe_u64 (se_events evts ! i)) :: i32"
  have lt: "i < length (se_events evts)" using "2.prems"(1) by (auto split: if_splits)
  show ?case
  proof (cases "emap ?fd")
    case None
    then show ?thesis using "2.IH"(1) [OF _ refl None] "2.prems" lt by simp
  next
    case (Some entry)
    show ?thesis
    proof (cases "te_ttype (je_token_entry entry) = NotifyEvent")
      case True
      then show ?thesis using "2.IH"(2) [OF _ refl Some True] "2.prems" lt Some by simp
    next
      case False
      obtain r where r: "se_get_ready evts i = Some r" using lt by (simp add: se_get_ready_def)
      let ?v = "se_push_entry evts (entry\<lparr>je_ready := r\<rparr>)"
      have "length (se_entries ?v) = Suc (length (se_entries evts))" "se_entries_cap ?v = se_entries_cap evts"
        using "2.prems"(2) by (simp_all add: se_push_entry_def vec_grow_def)
      then show ?thesis using "2.IH"(3) [OF _ refl Some False r refl] "2.prems" lt Some False r
        by (simp add: Let_def fun_upd_def)
    qed
  qed
qed simp

lemma select_spec:
  assumes "wait (sel_epfd sel) (word_of_nat (se_events_cap evts)) (select_timeout timeout) k
             = ((ret, buf), k')"
    and "cvt ret = Inr cnt" "nat cnt \<le> length buf"
  shows "\<exists>sel' evts'.
    selector_select wait sel evts timeout k =
      Some (Inr (\<exists>ev \<in> set (take (nat cnt) buf). notifies (sel_events_map sel) ev),
        sel', evts', k') \<and>
    se_entries evts' =
      List.map_filter (selected (sel_events_map sel)) (take (nat cnt) buf) \<and>
    same_entries (sel_events_map sel) (sel_events_map sel') \<and>
    sel_id sel' = sel_id sel \<and> sel_epfd sel' = sel_epfd sel \<and>
    (nat cnt \<le> se_entries_cap evts \<longrightarrow>
       se_entries_cap evts' = se_entries_cap evts \<and> length (se_entries evts') \<le> nat cnt)"
proof -
  let ?rep = "take (nat cnt) buf"
  let ?v = "(se_clear evts)\<lparr>se_events := ?rep\<rparr>"
  have len: "length ?rep = nat cnt" using assms(3) by simp
  have nth: "map (\<lambda>i. se_events ?v ! i) [0..<nat cnt] = ?rep"
    using len map_nth [of ?rep] by simp
  have "\<forall>i \<in> set [0..<nat cnt]. i < length (se_events ?v)" using len by simp
  from select_loop_spec [OF this, of "sel_events_map sel" 0 False] obtain m' evts' idx where
    loop: "select_loop (sel_events_map sel) ?v [0..<nat cnt] 0 False =
       Some (m', evts', idx, \<exists>i \<in> set [0..<nat cnt]. notifies (sel_events_map sel) (se_events ?v ! i))"
    and ent: "se_entries evts' = List.map_filter (selected (sel_events_map sel)) ?rep"
    and same: "same_entries (sel_events_map sel) m'"
    unfolding nth by (auto simp: se_clear_def)
  have cap: "nat cnt \<le> se_entries_cap evts \<longrightarrow>
      se_entries_cap evts' = se_entries_cap evts \<and> length (se_entries evts') \<le> nat cnt"
    using select_loop_capacity [OF loop] by (simp add: se_clear_def)
  have has: "(\<exists>i \<in> set [0..<nat cnt]. notifies (sel_events_map sel) (se_events ?v ! i)) \<longleftrightarrow>
      (\<exists>ev \<in> set ?rep. notifies (sel_events_map sel) ev)"
    by (rule bex_map) (simp only: nth)
  note loop' = loop [unfolded has]
  have wait: "wait (sel_epfd sel) (word_of_nat (se_events_cap (se_clear evts)))
      (select_timeout timeout) k = ((ret, buf), k')"
    using assms(1) by (simp add: se_clear_def)
  show ?thesis
    using ent same cap
    by (auto simp: selector_select_def wait assms(2) loop' Let_def)
qed

section \<open>Properties\<close>

text \<open>
  C33: A successful \<^verbatim>\<open>select\<close> never panics; the entries it delivers are, in the order the
  kernel reported them, exactly the registered ones that are not the awakener's, each a
  copy of its table entry with the decoded readiness; the answer is whether the awakener
  was reported; and the table keeps its descriptors, tokens and jobs.
\<close>

theorem selector_select_delivers:
  assumes "wait (sel_epfd sel) (word_of_nat (se_events_cap evts)) (select_timeout timeout) k
             = ((ret, buf), k')"
    and "cvt ret = Inr cnt" "nat cnt \<le> length buf"
  shows "\<exists>sel' evts'.
    selector_select wait sel evts timeout k =
      Some (Inr (\<exists>ev \<in> set (take (nat cnt) buf). notifies (sel_events_map sel) ev),
        sel', evts', k') \<and>
    se_entries evts' =
      List.map_filter (selected (sel_events_map sel)) (take (nat cnt) buf) \<and>
    same_entries (sel_events_map sel) (sel_events_map sel') \<and>
    sel_id sel' = sel_id sel \<and> sel_epfd sel' = sel_epfd sel"
proof -
  from select_spec [where wait = wait and evts = evts and timeout = timeout and k = k and sel = sel,
      OF assms] show ?thesis by blast
qed

lemma selector_select_delivers_witness:
  "let je = \<lparr>je_token_entry = \<lparr>te_ttype = SocketEvent, te_token = Token 1\<rparr>, je_job = UserJob 7,
             je_ready = ready_empty\<rparr>;
       sel = \<lparr>sel_id = 1, sel_epfd = 3, sel_events_map = [5 \<mapsto> je]\<rparr>;
       k = [(5, \<lparr>epe_events = 1, epe_u64 = 5\<rparr>)]
   in \<exists>sel' evts'. selector_select demo_wait sel (se_with_capacity 8) None k =
        Some (Inr False, sel', evts', k) \<and> se_entries evts' = [je\<lparr>je_ready := Ready 1\<rparr>]"
proof -
  let ?je = "\<lparr>je_token_entry = \<lparr>te_ttype = SocketEvent, te_token = Token 1\<rparr>,
     je_job = UserJob 7, je_ready = ready_empty\<rparr>"
  let ?sel = "\<lparr>sel_id = 1, sel_epfd = 3, sel_events_map = [5 \<mapsto> ?je]\<rparr>"
  let ?k = "[(5, \<lparr>epe_events = 1, epe_u64 = 5\<rparr>)] :: demo_kernel"
  have w: "demo_wait (sel_epfd ?sel) (word_of_nat (se_events_cap (se_with_capacity 8)))
      (select_timeout None) ?k = (((1, no_error), map snd ?k), ?k)"
    by (simp add: demo_wait_def)
  have "cvt (1, no_error) = Inr 1" "nat 1 \<le> length (map snd ?k)"
    by (simp_all add: cvt_def)
  from selector_select_delivers [where wait = demo_wait and sel = ?sel and k = ?k and
      evts = "se_with_capacity 8" and timeout = None, OF w this] show ?thesis
    by (auto simp: Let_def notifies_def selected_def event_fd_def epoll_to_ready_def
        EPOLLIN_def EPOLLOUT_def EPOLLPRI_def EPOLLERR_def EPOLLHUP_def ready_bitor_def
        ready_empty_def ready_readable_def READABLE_def List.map_filter_simps)
qed

text \<open>
  What the decoded readiness answers: readable on \<^verbatim>\<open>EPOLLIN\<close> or \<^verbatim>\<open>EPOLLPRI\<close>, writable
  on \<^verbatim>\<open>EPOLLOUT\<close>, error on \<^verbatim>\<open>EPOLLERR\<close>, and hang-up on \<^verbatim>\<open>EPOLLHUP\<close> but also on
  \<^verbatim>\<open>EPOLLPRI\<close>, because the priority flag contains the hang-up bit.
\<close>

lemma epoll_to_ready_answers:
  "(ready_is_readable (epoll_to_ready w) \<longleftrightarrow> bit w 0 \<or> bit w 1) \<and>
   (ready_is_writable (epoll_to_ready w) \<longleftrightarrow> bit w 2) \<and>
   (ready_is_error (epoll_to_ready w) \<longleftrightarrow> bit w 3) \<and>
   (ready_is_hup (epoll_to_ready w) \<longleftrightarrow> bit w 4 \<or> bit w 1)"
  by (simp add: flags_epoll_to_ready)

text \<open>
  C36: Interest in reading and writing survives the way into the kernel's bits and back,
  whatever the poll options; the edge bit is set exactly for edge without level.
\<close>

theorem interest_roundtrip:
  assumes "ready_flags r \<subseteq> {0, 1}"
  shows "epoll_to_ready (ioevent_to_epoll r opts) = r \<and>
    (bit (ioevent_to_epoll r opts) 31 \<longleftrightarrow> opt_is_edge opts \<and> \<not> opt_is_level opts) \<and>
    (bit (ioevent_to_epoll r opts) 30 \<longleftrightarrow> opt_is_oneshot opts)"
proof -
  have np: "\<not> unix_is_priority (unix_from_ready r)"
    using assms by (auto simp: is_priority_flags)
  have "ready_flags (epoll_to_ready (ioevent_to_epoll r opts)) = ready_flags r"
    using assms np by (auto simp: flags_epoll_to_ready bit_ioevent_to_epoll split: if_splits)
  then show ?thesis
    using np by (simp add: ready.flags_inj bit_ioevent_to_epoll)
qed

lemma interest_roundtrip_witness:
  "ready_flags (ready_bitor ready_readable ready_writable) \<subseteq> {0, 1} \<and>
   epoll_to_ready (ioevent_to_epoll (ready_bitor ready_readable ready_writable) opt_edge) =
     ready_bitor ready_readable ready_writable"
proof -
  have h: "ready_flags (ready_bitor ready_readable ready_writable) \<subseteq> {0, 1}"
    by (simp add: ready.flags_join ready_flags_consts)
  show ?thesis using h interest_roundtrip [OF h] by blast
qed

lemma epoll_millis_eq: "epoll_millis = millis"
  by (simp add: epoll_millis_def millis_def fun_eq_iff)

lemma sint_small_ucast:
  fixes x :: u64
  assumes "x \<le> I32_MAX"
  shows "sint (ucast x :: i32) = int (unat x)"
proof -
  have x: "uint x < 2 ^ 31"
    using assms by (simp add: I32_MAX_def word_le_def)
  then have "uint (ucast x :: i32) = uint x"
    by (simp add: unsigned_ucast_eq take_bit_int_eq_self)
  moreover have "signed_take_bit 31 (uint x) = uint x"
    using x by (intro signed_take_bit_int_eq_self) (auto intro: order_trans [of _ 0])
  ultimately have "sint (ucast x :: i32) = uint x"
    by (simp add: sint_uint)
  then show ?thesis by simp
qed

text \<open>
  The timeout handed to \<^verbatim>\<open>epoll_wait\<close> is -1 (wait for ever) exactly when the caller
  gave none; otherwise it is the duration in milliseconds, rounded up and capped at
  \<^verbatim>\<open>i32::MAX\<close>: never negative, so a finite wait never becomes an infinite one.
\<close>

lemma select_timeout_value:
  assumes "\<And>d. timeout = Some d \<Longrightarrow> duration_ok d"
  shows "sint (select_timeout timeout) =
    (case timeout of
       None \<Rightarrow> -1
     | Some d \<Rightarrow> min (int ((duration_nanos d + 999999) div 1000000)) 2147483647)"
proof (cases timeout)
  case None
  then show ?thesis by (simp add: select_timeout_def)
next
  case (Some d)
  then have "unat (epoll_millis d) =
      min (2 ^ 64 - 1) ((duration_nanos d + 999999) div 1000000)"
    using assms unat_millis [of d] by (simp add: epoll_millis_eq)
  moreover have "sint (ucast (min (epoll_millis d) I32_MAX) :: i32) =
      int (min (unat (epoll_millis d)) (unat I32_MAX))"
    by (subst sint_small_ucast) (simp_all add: min_def word_le_nat_alt)
  ultimately show ?thesis
    using Some by (simp add: select_timeout_def I32_MAX_def min_def of_nat_min [symmetric])
qed

lemma select_timeout_value_example:
  "sint (select_timeout (Some \<lparr>dur_secs = 0, dur_nanos = 1\<rparr>)) = 1 \<and>
   sint (select_timeout (Some \<lparr>dur_secs = 10 ^ 9, dur_nanos = 0\<rparr>)) = 2147483647"
proof -
  have "sint (select_timeout (Some \<lparr>dur_secs = 0, dur_nanos = 1\<rparr>)) =
      min (int ((duration_nanos \<lparr>dur_secs = 0, dur_nanos = 1\<rparr> + 999999) div 1000000)) 2147483647"
    by (subst select_timeout_value) (auto simp: duration_ok_def)
  moreover have "sint (select_timeout (Some \<lparr>dur_secs = 10 ^ 9, dur_nanos = 0\<rparr>)) =
      min (int ((duration_nanos \<lparr>dur_secs = 10 ^ 9, dur_nanos = 0\<rparr> + 999999) div 1000000))
        2147483647"
    by (subst select_timeout_value) (auto simp: duration_ok_def)
  ultimately show ?thesis by (simp add: duration_nanos_def)
qed

text \<open>
  Registering and deregistering keep the table a superset of the kernel's interest
  list; as long as it is one, \<^verbatim>\<open>deregister\<close> never reaches its \<^verbatim>\<open>unwrap\<close> on a missing
  entry, whether debug logging is on or not.
\<close>

lemma selector_covers_kept:
  assumes "epoll_ctl_laws ctl watched" "selector_covers watched k sel"
  shows "(case selector_register ctl sel fd token interests opts job k of
            (_, sel', k') \<Rightarrow> selector_covers watched k' sel') \<and>
    (\<exists>r sel' k'. selector_deregister debug_on ctl sel fd k = Some (r, sel', k') \<and>
       selector_covers watched k' sel')"
proof
  obtain ret k' where c: "ctl (sel_epfd sel) EPOLL_CTL_ADD fd
      \<lparr>epe_events = ioevent_to_epoll interests opts, epe_u64 = scast fd\<rparr> k = (ret, k')"
    by fastforce
  show "case selector_register ctl sel fd token interests opts job k of
          (_, sel', k') \<Rightarrow> selector_covers watched k' sel'"
    using assms(2) epoll_ctl_lawsD(1,2) [OF assms(1) c]
    by (cases "fst ret = -1")
      (auto simp: selector_register_def Let_def c cvt_def selector_covers_def)
next
  obtain ret k' where c: "ctl (sel_epfd sel) EPOLL_CTL_DEL fd \<lparr>epe_events = 0, epe_u64 = 0\<rparr> k
      = (ret, k')" by fastforce
  show "\<exists>r sel' k'. selector_deregister debug_on ctl sel fd k = Some (r, sel', k') \<and>
       selector_covers watched k' sel'"
    using assms(2) epoll_ctl_lawsD(1,4) [OF assms(1) c]
    by (cases "fst ret = -1")
      (auto simp: selector_deregister_def Let_def c cvt_def selector_covers_def)
qed

lemma selector_covers_kept_example:
  "let sel = \<lparr>sel_id = 1, sel_epfd = 3, sel_events_map = Map.empty\<rparr> in
   selector_covers (\<lambda>k. fst ` set k) ([] :: demo_kernel) sel \<and>
   (case selector_register demo_ctl sel 5 \<lparr>te_ttype = SocketEvent, te_token = Token 1\<rparr>
      ready_readable opt_edge (UserJob 1) [] of
      (_, sel', k') \<Rightarrow> selector_covers (\<lambda>k. fst ` set k) k' sel')"
proof -
  let ?sel = "\<lparr>sel_id = 1, sel_epfd = 3, sel_events_map = Map.empty\<rparr>"
  have h: "selector_covers (\<lambda>k. fst ` set k) ([] :: demo_kernel) ?sel"
    by (simp add: selector_covers_def)
  show ?thesis
    unfolding Let_def using h selector_covers_kept [THEN conjunct1, OF demo_ctl_laws h]
    by (intro conjI) blast+
qed

text \<open>
  \<^verbatim>\<open>register\<close> writes the table before it asks the kernel: when the kernel refuses
  (for a descriptor that is already registered, say), the caller gets the error but the
  entry, and with it the job, of the earlier registration has been replaced.
\<close>

lemma failed_register_replaces_job:
  assumes "ctl (sel_epfd sel) EPOLL_CTL_ADD fd
      \<lparr>epe_events = ioevent_to_epoll interests opts, epe_u64 = scast fd\<rparr> k = ((-1, e), k')"
  shows "selector_register ctl sel fd token interests opts job k =
    (Inl e, sel\<lparr>sel_events_map := (sel_events_map sel)(fd \<mapsto>
        \<lparr>je_token_entry = token, je_job = job, je_ready = ready_empty\<rparr>)\<rparr>, k')"
  using assms by (simp add: selector_register_def cvt_def)

lemma failed_register_replaces_job_example:
  "let t = \<lparr>te_ttype = SocketEvent, te_token = Token 1\<rparr>;
       sel = \<lparr>sel_id = 1, sel_epfd = 3, sel_events_map =
         [5 \<mapsto> \<lparr>je_token_entry = t, je_job = UserJob 1, je_ready = ready_empty\<rparr>]\<rparr>
   in \<exists>e sel' k'. selector_register demo_ctl sel 5 t ready_empty opt_empty (UserJob 2)
        [(5, \<lparr>epe_events = 0, epe_u64 = 5\<rparr>)] = (Inl e, sel', k') \<and>
      map_option je_job (sel_events_map sel' 5) = Some (UserJob 2)"
proof -
  let ?t = "\<lparr>te_ttype = SocketEvent, te_token = Token 1\<rparr>"
  let ?sel = "\<lparr>sel_id = 1, sel_epfd = 3, sel_events_map =
     [5 \<mapsto> \<lparr>je_token_entry = ?t, je_job = UserJob 1, je_ready = ready_empty\<rparr>]\<rparr>"
  let ?k = "[(5, \<lparr>epe_events = 0, epe_u64 = 5\<rparr>)] :: demo_kernel"
  have "demo_ctl (sel_epfd ?sel) EPOLL_CTL_ADD 5
      \<lparr>epe_events = ioevent_to_epoll ready_empty opt_empty, epe_u64 = scast (5 :: i32)\<rparr> ?k =
      ((-1, eexist), ?k)"
    by (simp add: demo_ctl_def)
  from failed_register_replaces_job [where ctl = demo_ctl and sel = ?sel and token = ?t
      and job = "UserJob 2", OF this] show ?thesis
    by (simp add: Let_def)
qed

text \<open>
  What is documented of the user data: the kernel reports a descriptor with the data it was
  last given for it.
\<close>

definition ctl_data :: "'k epoll_ctl \<Rightarrow> ('k \<Rightarrow> i32 \<Rightarrow> u64) \<Rightarrow> bool" where
  "ctl_data ctl udata \<longleftrightarrow> (\<forall>epfd op fd ev k ret k'. ctl epfd op fd ev k = (ret, k') \<and> fst ret \<noteq> -1 \<and>
     op \<noteq> EPOLL_CTL_DEL \<longrightarrow> udata k' fd = epe_u64 ev)"

definition reports_one ::
  "'k epoll_wait \<Rightarrow> selector \<Rightarrow> sys_events \<Rightarrow> duration option \<Rightarrow> 'k \<Rightarrow> epoll_event \<Rightarrow> 'k \<Rightarrow> bool" where
  "reports_one wait sel evts timeout k ev k' \<longleftrightarrow> (\<exists>ret.
     wait (sel_epfd sel) (word_of_nat (se_events_cap evts)) (select_timeout timeout) k = ((ret, [ev]), k') \<and>
     cvt ret = Inr 1)"

lemma select_one:
  assumes "reports_one wait sel evts timeout k ev k'"
  obtains awoken sel' evts' where "selector_select wait sel evts timeout k = Some (Inr awoken, sel', evts', k')"
    "se_entries evts' = (case selected (sel_events_map sel) ev of None \<Rightarrow> [] | Some e \<Rightarrow> [e])"
proof -
  obtain ret where "wait (sel_epfd sel) (word_of_nat (se_events_cap evts)) (select_timeout timeout) k = ((ret, [ev]), k')"
    "cvt ret = Inr 1" using assms unfolding reports_one_def by blast
  from select_spec [where wait = wait and evts = evts and timeout = timeout and k = k and sel = sel, OF this] that
  show ?thesis by (auto simp: List.map_filter_def split: option.splits)
qed

text \<open>
  C37: \<^verbatim>\<open>register\<close> hands the kernel the descriptor as user data, which \<^verbatim>\<open>select\<close> looks up in the
  table, but \<^verbatim>\<open>reregister\<close> hands it the token. So when an event of the descriptor is reported
  after a successful \<^verbatim>\<open>reregister\<close>, \<^verbatim>\<open>select\<close> gives the entry of whatever descriptor has the
  token's number, with its job, and if there is none, nothing at all.
\<close>

theorem reregister_misroutes:
  assumes "ctl_data ctl udata"
    "selector_reregister ctl sel fd token interests opts k = (Inr (), k1)"
    "reports_one wait sel evts timeout k1 ev k2" "epe_u64 ev = udata k1 fd"
  shows "\<exists>awoken sel' evts'.
    selector_select wait sel evts timeout k1 = Some (Inr awoken, sel', evts', k2) \<and>
    se_entries evts' = (case sel_events_map sel (ucast (token_0 (te_token token))) of
        None \<Rightarrow> []
      | Some e \<Rightarrow> if te_ttype (je_token_entry e) = NotifyEvent then []
          else [e\<lparr>je_ready := epoll_to_ready (epe_events ev)\<rparr>])"
proof -
  obtain ret where "ctl (sel_epfd sel) EPOLL_CTL_MOD fd
      \<lparr>epe_events = ioevent_to_epoll interests opts, epe_u64 = token_0 (te_token token)\<rparr> k = (ret, k1)"
    "fst ret \<noteq> -1"
    using assms(2) by (auto simp: selector_reregister_def usize_from_token_def Let_def cvt_def
        split: prod.splits sum.splits if_splits)
  then have "udata k1 fd = token_0 (te_token token)"
    using assms(1) unfolding ctl_data_def by fastforce
  then have "event_fd ev = ucast (token_0 (te_token token))" by (simp add: event_fd_def assms(4))
  then have sel: "selected (sel_events_map sel) ev = (case sel_events_map sel (ucast (token_0 (te_token token))) of
      None \<Rightarrow> None
    | Some e \<Rightarrow> if te_ttype (je_token_entry e) = NotifyEvent then None
        else Some (e\<lparr>je_ready := epoll_to_ready (epe_events ev)\<rparr>))"
    by (simp add: selected_def)
  obtain awoken sel' evts' where "selector_select wait sel evts timeout k1 = Some (Inr awoken, sel', evts', k2)"
    "se_entries evts' = (case selected (sel_events_map sel) ev of None \<Rightarrow> [] | Some e \<Rightarrow> [e])"
    by (rule select_one [OF assms(3)])
  then show ?thesis unfolding sel
    by (intro exI [of _ awoken] exI [of _ sel'] exI [of _ evts']) (simp split: option.split)
qed

lemma reregister_misroutes_witness:
  "let t = \<lparr>te_ttype = SocketEvent, te_token = Token 77\<rparr>;
       je = \<lparr>je_token_entry = t, je_job = UserJob 1, je_ready = ready_empty\<rparr>;
       sel = \<lparr>sel_id = 1, sel_epfd = 3, sel_events_map = [5 \<mapsto> je]\<rparr>;
       k = [(5, \<lparr>epe_events = 1, epe_u64 = 5\<rparr>)];
       k1 = snd (selector_reregister demo_ctl sel 5 t ready_readable opt_edge k)
   in (\<exists>a sel' evts'. selector_select demo_wait sel (se_with_capacity 8) None k1 = Some (Inr a, sel', evts', k1) \<and>
        se_entries evts' = []) \<and> sel_events_map sel 5 \<noteq> None"
proof -
  let ?t = "\<lparr>te_ttype = SocketEvent, te_token = Token 77\<rparr>"
  let ?je = "\<lparr>je_token_entry = ?t, je_job = UserJob 1, je_ready = ready_empty\<rparr>"
  let ?sel = "\<lparr>sel_id = 1, sel_epfd = 3, sel_events_map = [5 \<mapsto> ?je]\<rparr>"
  let ?udata = "\<lambda>(k :: demo_kernel) fd. case map_of k fd of Some ev \<Rightarrow> epe_u64 ev | None \<Rightarrow> 0"
  let ?k = "[(5, \<lparr>epe_events = 1, epe_u64 = 5\<rparr>)] :: demo_kernel"
  obtain ev where ev: "selector_reregister demo_ctl ?sel 5 ?t ready_readable opt_edge ?k = (Inr (), [(5, ev)])"
    "epe_u64 ev = 77"
    by (simp add: selector_reregister_def demo_ctl_def Let_def cvt_def usize_from_token_def)
  have map: "map_of (map (\<lambda>p. if fst p = fd then (fd, e) else p) k) fd = Some e"
    if "fd \<in> fst ` set k" for k :: demo_kernel and fd e
    using that by (induction k) auto
  have data: "ctl_data demo_ctl ?udata"
    unfolding ctl_data_def demo_ctl_def Let_def
    by (auto split: ctl_op.splits if_splits simp: map simp del: set_map)
  have rep: "reports_one demo_wait ?sel (se_with_capacity 8) None [(5, ev)] ev [(5, ev)]"
    by (simp add: reports_one_def demo_wait_def cvt_def)
  have "epe_u64 ev = ?udata [(5, ev)] 5" by simp
  from reregister_misroutes [where udata = ?udata, OF data ev(1) rep this] show ?thesis
    unfolding Let_def ev(1) snd_conv by simp
qed

end
