(* ===== verification/Queue_Poll.thy ===== *)
theory Queue_Poll
  imports Readiness_Queue Epoll
begin

text \<open>
  \<^verbatim>\<open>ReadinessQueue::poll\<close> of \<^verbatim>\<open>src/poll.rs\<close>: the loop that empties the queue of ready
  nodes into the event buffer, putting level-triggered nodes back. The step on the
  packed word of one node is \<open>poll_body\<close>; \<open>polled\<close> states what the loop does to one
  node, and the loop is shown to do that to a prefix of the queue.
\<close>

section \<open>One node\<close>

text \<open>
  The body of the inner loop. It leaves with \<open>None\<close> for a dropped node and with the word
  itself when there is nothing to swap; otherwise it wants the word it computed.
\<close>

definition poll_body ::
  "readiness_state \<Rightarrow> (readiness_state option + readiness_state) option" where
  "poll_body state =
     (if \<not> rs_is_queued state then None
      else if rs_is_dropped state then Some (Inl None)
      else do {
        let readiness = rs_effective_readiness state;
        let opt = rs_poll_opt state;
        next \<leftarrow>
          (if opt_is_edge opt then do {
             next \<leftarrow> rs_set_dequeued state;
             Some (if opt_is_oneshot opt \<and> \<not> ready_is_empty readiness
                   then rs_disarm next else next)
           }
           else if ready_is_empty readiness then rs_set_dequeued state
           else Some state);
        let next = rs_update_token_read_pos next;
        Some (if state = next then Inl (Some next) else Inr next)
      })"

definition poll_node ::
  "'p rq \<Rightarrow> sys_events \<Rightarrow> ptr option \<Rightarrow> ptr \<Rightarrow> (ptr option \<times> 'p rq \<times> sys_events) option" where
  "poll_node q dst until p = do {
     n \<leftarrow> rq_node q p;
     word \<leftarrow> cas_loop poll_body (nd_state n) [];
     let swapped =
       (case word of
          Inl None \<Rightarrow> None
        | Inl (Some state) \<Rightarrow> Some (state, state)
        | Inr (state, next) \<Rightarrow> Some (state, next));
     (case swapped of
        None \<Rightarrow> do {
          q \<leftarrow> release_node q p;
          Some (until, q, dst)
        }
      | Some (state, next) \<Rightarrow> do {
          let readiness = rs_effective_readiness state;
          q \<leftarrow> rq_write q p (\<lambda>n. n\<lparr>nd_state := next\<rparr>);
          (until, q) \<leftarrow>
            (if rs_is_queued next then do {
               (_, q) \<leftarrow> enqueue_node q p;
               Some (if until = None then Some p else until, q)
             }
             else Some (until, q));
          if ready_is_empty readiness then Some (until, q, dst)
          else do {
            n \<leftarrow> rq_node q p;
            token \<leftarrow> node_token n (rs_token_read_pos next);
            let dst = se_push_event dst (event_new readiness token) (nd_job n);
            q \<leftarrow> rq_write q p (\<lambda>n. n\<lparr>nd_job := NullJob\<rparr>);
            Some (until, q, dst)
          }
        })
   }"

section \<open>The loop\<close>

partial_function (option) poll_loop ::
  "ptr option \<Rightarrow> 'p rq \<Rightarrow> sys_events \<Rightarrow> ('p rq \<times> sys_events) option" where
  "poll_loop until q dst =
     (if se_len dst < se_capacity dst then
        Option.bind (dequeue_node q until) (\<lambda>(d, q).
          case d of
            Empty \<Rightarrow> Some (q, dst)
          | Inconsistent \<Rightarrow> Some (q, dst)
          | Data p \<Rightarrow>
              Option.bind (poll_node q dst until p) (\<lambda>(until, q, dst).
                poll_loop until q dst))
      else Some (q, dst))"

declare poll_loop.simps [code]

definition rq_poll :: "'p rq \<Rightarrow> sys_events \<Rightarrow> ('p rq \<times> sys_events) option" where
  "rq_poll q dst = do {
     q \<leftarrow> (if se_len dst = se_capacity dst then clear_sleep_marker q else Some q);
     poll_loop None q dst
   }"

section \<open>What polling does to a node\<close>

definition poll_next :: "readiness_state \<Rightarrow> readiness_state" where
  "poll_next s =
     (let some = \<not> ready_is_empty (rs_effective_readiness s); opt = rs_poll_opt s;
          deq = s AND NOT QUEUED_MASK in
      rs_update_token_read_pos
        (if opt_is_edge opt then if opt_is_oneshot opt \<and> some then rs_disarm deq else deq
         else if some then s else deq))"

lemma poll_body_cases:
  assumes "rs_is_queued s"
  shows "poll_body s =
     (if rs_is_dropped s then Some (Inl None)
      else if poll_next s = s then Some (Inl (Some s)) else Some (Inr (poll_next s)))"
  using assms
  by (auto simp: poll_body_def poll_next_def rs_set_dequeued_def Let_def)

lemma poll_body_alone:
  assumes "rs_is_queued s"
  shows "cas_loop poll_body s [] =
     (if rs_is_dropped s then Some (Inl None)
      else if poll_next s = s then Some (Inl (Some s)) else Some (Inr (s, poll_next s)))"
  using poll_body_cases [OF assms] by (simp add: cas_loop_alone)

lemma view_poll_next:
  "rs_view (poll_next s) =
     (let some = \<not> ready_is_empty (rs_effective_readiness s);
          edge = opt_is_edge (rs_poll_opt s) in
      (rs_view s)\<lparr>v_queued := rs_is_queued s \<and> \<not> edge \<and> some,
        v_interest := (if edge \<and> opt_is_oneshot (rs_poll_opt s) \<and> some then ready_empty
                       else rs_interest s),
        v_rd := rs_token_write_pos s\<rparr>)"
proof -
  have wr: "rs_token_write_pos t = v_wr (rs_view t)" for t by (simp add: view_reads)
  show ?thesis
    by (simp add: poll_next_def Let_def view_setters wr)
      (simp add: rs_view_def)
qed

lemma poll_next_wf: "rs_wf s \<Longrightarrow> rs_wf (poll_next s)"
  by (simp add: rs_wf_view view_poll_next Let_def) (simp add: reads_of_view)

text \<open>The node after the step, if it is still there, and the event it gave.\<close>

definition polled :: "node \<Rightarrow> node option" where
  "polled n =
     (if rs_is_dropped (nd_state n) then node_released n
      else Some (n\<lparr>nd_state := poll_next (nd_state n),
        nd_job := (if ready_is_empty (rs_effective_readiness (nd_state n)) then nd_job n
                   else NullJob)\<rparr>))"

definition requeued :: "node \<Rightarrow> bool" where
  "requeued n \<longleftrightarrow> \<not> rs_is_dropped (nd_state n) \<and> \<not> opt_is_edge (rs_poll_opt (nd_state n)) \<and>
     \<not> ready_is_empty (rs_effective_readiness (nd_state n))"

definition polled_entry :: "node \<Rightarrow> job_entry option" where
  "polled_entry n =
     (if rs_is_dropped (nd_state n) \<or> ready_is_empty (rs_effective_readiness (nd_state n))
      then None
      else map_option
        (\<lambda>token. \<lparr>je_token_entry = token, je_job = nd_job n, je_ready = ready_empty\<rparr>)
        (node_token n (rs_token_write_pos (nd_state n))))"

definition node_ok :: "node \<Rightarrow> bool" where
  "node_ok n \<longleftrightarrow> rs_is_queued (nd_state n) \<and> rs_wf (nd_state n)"

definition rq_static :: "'p rq \<Rightarrow> 'p rq \<Rightarrow> bool" where
  "rq_static q q' \<longleftrightarrow> rq_addr q' = rq_addr q \<and> rq_end q' = rq_end q \<and>
     rq_sleep q' = rq_sleep q \<and> rq_closed q' = rq_closed q \<and> rq_pipe q' = rq_pipe q"

lemma rq_static_trans: "rq_static a b \<Longrightarrow> rq_static b c \<Longrightarrow> rq_static a c"
  by (simp add: rq_static_def)

lemma rq_static_refl [simp]: "rq_static q q"
  by (simp add: rq_static_def)

lemma rq_frame_static: "rq_frame q q' \<Longrightarrow> rq_static q q'"
  by (simp add: rq_static_def rq_frame_def)

lemma rq_static_markers: "rq_static q q' \<Longrightarrow> rq_markers q' = rq_markers q"
  by (simp add: rq_static_def rq_markers_def)

text \<open>The strong counts after the nodes \<open>ps\<close> of \<open>ns\<close> have been polled.\<close>

definition node_frees :: "ptr \<Rightarrow> node \<Rightarrow> bool" where
  "node_frees a n \<longleftrightarrow> rs_is_dropped (nd_state n) \<and> node_share a n"

abbreviation unlink :: "node \<Rightarrow> node" where
  "unlink n \<equiv> n\<lparr>nd_next := None\<rparr>"

lemma unlink_polled: "map_option unlink (polled n) = polled (unlink n)"
  by (simp add: polled_def node_released_def)

lemma unlink_simps [simp]:
  "requeued (unlink n) = requeued n" "polled_entry (unlink n) = polled_entry n"
  "node_ok (unlink n) = node_ok n" "node_frees a (unlink n) = node_frees a n"
  by (simp_all add: requeued_def polled_entry_def node_ok_def node_frees_def node_share_def
      node_token_def)

lemma requeued_next:
  "node_ok n \<Longrightarrow> \<not> rs_is_dropped (nd_state n) \<Longrightarrow>
     rs_is_queued (poll_next (nd_state n)) = requeued n"
proof -
  have "rs_is_queued (poll_next (nd_state n)) = v_queued (rs_view (poll_next (nd_state n)))"
    by (simp add: view_reads)
  also have "\<dots> = (rs_is_queued (nd_state n) \<and> \<not> opt_is_edge (rs_poll_opt (nd_state n)) \<and>
      \<not> ready_is_empty (rs_effective_readiness (nd_state n)))"
    by (simp add: view_poll_next Let_def)
  finally show "node_ok n \<Longrightarrow> \<not> rs_is_dropped (nd_state n) \<Longrightarrow>
      rs_is_queued (poll_next (nd_state n)) = requeued n"
    by (simp add: node_ok_def requeued_def)
qed

lemma read_pos_next: "rs_token_read_pos (poll_next s) = rs_token_write_pos s"
proof -
  have "rs_token_read_pos (poll_next s) = v_rd (rs_view (poll_next s))"
    by (simp add: view_reads)
  then show ?thesis by (simp add: view_poll_next Let_def)
qed

lemma node_token_wf: "rs_wf s \<Longrightarrow> \<exists>t. node_token n (rs_token_write_pos s) = Some t"
  by (auto simp: node_token_def rs_wf_def)

lemma poll_node_dropped:
  assumes "rq_holds q ps" "p \<notin> rq_markers q" "p \<notin> set ps" "rq_heap q p = Some n"
    "node_ok n" "rs_is_dropped (nd_state n)"
  shows "\<exists>q'. poll_node q dst until p = Some (until, q', dst) \<and> rq_holds q' ps \<and>
    rq_nodes q' = (rq_nodes q)(p := polled (unlink n)) \<and>
    rq_arc q' = (\<lambda>a. rq_arc q a - (if node_frees a n then 1 else 0)) \<and> rq_static q q'"
proof -
  obtain q' where q': "release_node q p = Some q'"
    "rq_heap q' = (rq_heap q)(p := node_released n)"
    "rq_arc q' = (\<lambda>a. rq_arc q a - (if node_share a n then 1 else 0))"
    "q' = q\<lparr>rq_heap := rq_heap q', rq_arc := rq_arc q'\<rparr>"
    using release_runs [OF assms(4)] by blast
  have "poll_node q dst until p = Some (until, q', dst)"
    using assms(4,5,6) q'(1) poll_body_alone
    by (simp add: poll_node_def rq_node_def node_ok_def)
  moreover have "rq_holds q' ps"
    using release_contents [OF assms(1,2,3)] q'(2,4) by metis
  moreover have "rq_nodes q' = (rq_nodes q)(p := polled (unlink n))"
    using q'(2) assms(6) by (auto simp: rq_nodes_def fun_eq_iff polled_def node_released_link)
  moreover have "rq_static q q'" by (subst q'(4)) (simp add: rq_static_def)
  ultimately show ?thesis using q'(3) assms(6) by (auto simp: node_frees_def)
qed

text \<open>The new word is written, then a node that stays ready goes back into the queue.\<close>

lemma poll_node_word:
  assumes "rq_holds q ps" "p \<notin> rq_markers q" "p \<notin> set ps" "rq_heap q p = Some n"
    "node_ok n" "\<not> rs_is_dropped (nd_state n)"
  defines "n1 \<equiv> n\<lparr>nd_state := poll_next (nd_state n)\<rparr>"
  defines "q1 \<equiv> q\<lparr>rq_heap := (rq_heap q)(p \<mapsto> n1)\<rparr>"
  shows "\<exists>q2 m.
    (if rs_is_queued (poll_next (nd_state n)) then do {
       (_, q) \<leftarrow> enqueue_node q1 p;
       Some (if until = None then Some p else until, q)
     }
     else Some (until, q1)) = Some (if requeued n \<and> until = None then Some p else until, q2) \<and>
    rq_holds q2 (ps @ (if requeued n then [p] else [])) \<and> rq_frame q1 q2 \<and>
    rq_heap q2 p = Some m \<and> unlink m = unlink n1"
proof -
  have h1: "rq_holds q1 ps"
    using write_contents [of q p n n1] assms(1,4) by (simp add: q1_def n1_def)
  have p1: "p \<in> dom (rq_heap q1)" "p \<notin> rq_markers q1"
    using assms(2) by (simp_all add: q1_def rq_markers_def)
  have heap: "\<exists>m. rq_heap q2 p = Some m \<and> unlink m = unlink n1" if "rq_frame q1 q2" for q2
  proof -
    have "rq_nodes q2 p = rq_nodes q1 p" using that by (simp add: rq_frame_def)
    then show ?thesis by (auto simp: rq_nodes_def q1_def)
  qed
  show ?thesis
  proof (cases "requeued n")
    case True
    obtain q2 where q2: "enqueue_node q1 p = Some (rq_asleep q1, q2)" "rq_holds q2 (ps @ [p])"
      "rq_frame q1 q2" using enqueue_holds [OF h1 p1 assms(3)] by blast
    obtain m where "rq_heap q2 p = Some m" "unlink m = unlink n1" using heap [OF q2(3)] by blast
    then show ?thesis
      using q2 True requeued_next [OF assms(5,6)]
      by (intro exI [of _ q2] exI [of _ m]) simp
  next
    case False
    then show ?thesis
      using heap [of q1] h1 requeued_next [OF assms(5,6)] by auto
  qed
qed

lemma poll_node_swap:
  assumes "rq_heap q p = Some n" "rs_is_queued (nd_state n)" "\<not> rs_is_dropped (nd_state n)"
    "poll_next (nd_state n) = nx"
  shows "poll_node q dst until p =
    Option.bind
      (if rs_is_queued (nx) then do {
         (_, q) \<leftarrow> enqueue_node
           (q\<lparr>rq_heap := (rq_heap q)(p \<mapsto> n\<lparr>nd_state := nx\<rparr>)\<rparr>) p;
         Some (if until = None then Some p else until, q)
       }
       else Some (until,
         q\<lparr>rq_heap := (rq_heap q)(p \<mapsto> n\<lparr>nd_state := nx\<rparr>)\<rparr>))
      (\<lambda>(until, q).
        if ready_is_empty (rs_effective_readiness (nd_state n)) then Some (until, q, dst)
        else do {
          m \<leftarrow> rq_node q p;
          token \<leftarrow> node_token m (rs_token_read_pos (nx));
          let dst = se_push_event dst
            (event_new (rs_effective_readiness (nd_state n)) token) (nd_job m);
          q \<leftarrow> rq_write q p (\<lambda>n. n\<lparr>nd_job := NullJob\<rparr>);
          Some (until, q, dst)
        })"
proof -
  have word: "cas_loop poll_body (nd_state n) [] =
      (if nx = nd_state n then Some (Inl (Some (nd_state n))) else Some (Inr (nd_state n, nx)))"
    using poll_body_alone [OF assms(2)] assms(3,4) by simp
  show ?thesis
    using word assms(1)
    by (cases "nx = nd_state n") (simp_all add: poll_node_def rq_node_def Let_def)
qed

lemma poll_node_alive:
  assumes "rq_holds q ps" "p \<notin> rq_markers q" "p \<notin> set ps" "rq_heap q p = Some n"
    "node_ok n" "\<not> rs_is_dropped (nd_state n)" "se_len dst < se_capacity dst"
  shows "\<exists>q' dst'. poll_node q dst until p =
      Some (if requeued n \<and> until = None then Some p else until, q', dst') \<and>
    rq_holds q' (ps @ (if requeued n then [p] else [])) \<and>
    rq_nodes q' = (rq_nodes q)(p := polled (unlink n)) \<and> rq_arc q' = rq_arc q \<and>
    rq_static q q' \<and>
    se_entries dst' = se_entries dst @ (case polled_entry n of None \<Rightarrow> [] | Some e \<Rightarrow> [e]) \<and>
    se_capacity dst' = se_capacity dst"
proof -
  let ?s = "nd_state n"
  let ?n1 = "n\<lparr>nd_state := poll_next ?s\<rparr>"
  let ?q1 = "q\<lparr>rq_heap := (rq_heap q)(p \<mapsto> ?n1)\<rparr>"
  let ?u = "if requeued n \<and> until = None then Some p else until"
  obtain q2 m where q2: "(if rs_is_queued (poll_next ?s) then do {
       (_, q) \<leftarrow> enqueue_node ?q1 p;
       Some (if until = None then Some p else until, q)
     } else Some (until, ?q1)) = Some (?u, q2)"
    and h2: "rq_holds q2 (ps @ (if requeued n then [p] else []))" and f2: "rq_frame ?q1 q2"
    and m: "rq_heap q2 p = Some m" "unlink m = unlink ?n1"
    using poll_node_word [OF assms(1-6), of until] by blast
  have qd: "rs_is_queued ?s" using assms(5) by (simp add: node_ok_def)
  note run = poll_node_swap [OF assms(4) qd assms(6) refl, of dst until, unfolded q2]
  have n2: "rq_nodes q2 = (rq_nodes q)(p \<mapsto> unlink ?n1)" "rq_arc q2 = rq_arc q"
    "rq_static q q2"
    using f2 rq_nodes_upd [of q p ?n1] by (simp_all add: rq_frame_def rq_static_def)
  show ?thesis
  proof (cases "ready_is_empty (rs_effective_readiness ?s)")
    case True
    then have "poll_node q dst until p = Some (?u, q2, dst)"
      by (simp add: run)
    moreover have "polled (unlink n) = Some (unlink ?n1)" "polled_entry n = None"
      using True assms(6) by (simp_all add: polled_def polled_entry_def)
    ultimately show ?thesis using h2 n2 by auto
  next
    case False
    obtain t where t: "node_token n (rs_token_write_pos ?s) = Some t"
      using node_token_wf assms(5) by (auto simp: node_ok_def)
    have mt: "node_token m (rs_token_read_pos (poll_next ?s)) = Some t" "nd_job m = nd_job n"
      using t arg_cong [OF m(2), of nd_token_0] arg_cong [OF m(2), of nd_token_1]
        arg_cong [OF m(2), of nd_token_2] arg_cong [OF m(2), of nd_job]
      by (auto simp: read_pos_next node_token_def split: if_splits)
    let ?dst = "se_push_event dst (event_new (rs_effective_readiness ?s) t) (nd_job n)"
    let ?q3 = "q2\<lparr>rq_heap := (rq_heap q2)(p \<mapsto> m\<lparr>nd_job := NullJob\<rparr>)\<rparr>"
    have "poll_node q dst until p = Some (?u, ?q3, ?dst)"
      using False m(1) mt by (simp add: run rq_node_def)
    moreover have "rq_holds ?q3 (ps @ (if requeued n then [p] else []))"
      using write_contents [of q2 p m "m\<lparr>nd_job := NullJob\<rparr>"] m(1) h2 by simp
    moreover have "unlink (m\<lparr>nd_job := NullJob\<rparr>) =
        unlink n\<lparr>nd_state := poll_next ?s, nd_job := NullJob\<rparr>"
      using m(2) by (cases m, cases n) simp
    then have "rq_nodes ?q3 = (rq_nodes q)(p := polled (unlink n))"
      using n2(1) rq_nodes_upd [of q2 p "m\<lparr>nd_job := NullJob\<rparr>"] False assms(6)
      by (simp add: polled_def)
    moreover have "rq_static q ?q3" using n2(3) by (simp add: rq_static_def)
    moreover have "polled_entry n =
        Some \<lparr>je_token_entry = t, je_job = nd_job n, je_ready = ready_empty\<rparr>"
      using False assms(6) t by (simp add: polled_entry_def)
    then have "se_entries ?dst =
        se_entries dst @ (case polled_entry n of None \<Rightarrow> [] | Some e \<Rightarrow> [e])"
      by (simp add: se_push_event_def event_new_def)
    moreover have "se_capacity ?dst = se_capacity dst"
      using assms(7) by (simp add: se_push_event_def se_push_entry_def se_capacity_def
          se_len_def vec_grow_def)
    ultimately show ?thesis using n2(2) by auto
  qed
qed

section \<open>The whole loop\<close>

definition nodes_ok :: "(ptr \<rightharpoonup> node) \<Rightarrow> ptr list \<Rightarrow> bool" where
  "nodes_ok ns ps \<longleftrightarrow> (\<forall>p \<in> set ps. \<exists>n. ns p = Some n \<and> node_ok n)"

text \<open>
  The effect of polling the nodes \<open>ps\<close>: \<open>ns\<close> and \<open>arcs\<close> are the nodes and strong counts
  before, \<open>q\<close> the state after.
\<close>

definition poll_effect ::
  "ptr list \<Rightarrow> (ptr \<rightharpoonup> node) \<Rightarrow> (ptr \<Rightarrow> nat) \<Rightarrow> 'p rq \<Rightarrow> bool" where
  "poll_effect ps ns arcs q \<longleftrightarrow>
     rq_nodes q = (\<lambda>p. if p \<in> set ps then Option.bind (ns p) polled else ns p) \<and>
     rq_arc q = (\<lambda>a. arcs a - length (filter (\<lambda>p. \<exists>n. ns p = Some n \<and> node_frees a n) ps))"

definition requeues :: "(ptr \<rightharpoonup> node) \<Rightarrow> ptr list \<Rightarrow> ptr list" where
  "requeues ns ps = filter (\<lambda>p. case ns p of None \<Rightarrow> False | Some n \<Rightarrow> requeued n) ps"

definition entries :: "(ptr \<rightharpoonup> node) \<Rightarrow> ptr list \<Rightarrow> job_entry list" where
  "entries ns ps = List.map_filter (\<lambda>p. Option.bind (ns p) polled_entry) ps"

lemma node_step:
  assumes "rq_holds q ps" "p \<notin> rq_markers q" "p \<notin> set ps" "rq_nodes q p = Some n"
    "node_ok n" "se_len dst < se_capacity dst"
  shows "\<exists>q' dst'. poll_node q dst until p =
      Some (if requeued n \<and> until = None then Some p else until, q', dst') \<and>
    rq_holds q' (ps @ (if requeued n then [p] else [])) \<and>
    rq_nodes q' = (rq_nodes q)(p := polled n) \<and>
    rq_arc q' = (\<lambda>a. rq_arc q a - (if node_frees a n then 1 else 0)) \<and> rq_static q q' \<and>
    se_entries dst' = se_entries dst @ (case polled_entry n of None \<Rightarrow> [] | Some e \<Rightarrow> [e]) \<and>
    se_capacity dst' = se_capacity dst"
proof -
  obtain m where m: "rq_heap q p = Some m" "n = unlink m"
    using rq_nodes_Some [OF assms(4)] by blast
  have ok: "node_ok m" using assms(5) m(2) by simp
  show ?thesis
  proof (cases "rs_is_dropped (nd_state m)")
    case True
    then have "\<not> requeued n" "polled_entry n = None"
      using m(2) by (simp_all add: requeued_def polled_entry_def)
    then show ?thesis
      using poll_node_dropped [OF assms(1-3) m(1) ok True, of dst until] m(2) by auto
  next
    case False
    then have "\<not> node_frees a n" for a using m(2) by (simp add: node_frees_def)
    then show ?thesis
      using poll_node_alive [OF assms(1-3) m(1) ok False assms(6), of until] m(2) by auto
  qed
qed

text \<open>
  \<open>ps\<close> is what is still to be polled of what the queue held in the beginning, \<open>put\<close>
  what has been put back; \<open>until\<close> is the first of those.
\<close>

lemma poll_loop_spec:
  "rq_holds q (ps @ put) \<Longrightarrow> until = (case put of [] \<Rightarrow> None | b # _ \<Rightarrow> Some b) \<Longrightarrow>
   nodes_ok (rq_nodes q) ps \<Longrightarrow> se_len dst \<le> se_capacity dst \<Longrightarrow>
     \<exists>don rest q' dst'. ps = don @ rest \<and> poll_loop until q dst = Some (q', dst') \<and>
       rq_holds q' (rest @ put @ requeues (rq_nodes q) don) \<and>
       poll_effect don (rq_nodes q) (rq_arc q) q' \<and> rq_static q q' \<and>
       se_entries dst' = se_entries dst @ entries (rq_nodes q) don \<and>
       se_len dst' \<le> se_capacity dst' \<and> se_capacity dst' = se_capacity dst \<and>
       (rest = [] \<or> se_len dst' = se_capacity dst')"
proof (induction ps arbitrary: q put until dst)
  case Nil
  then have h: "rq_holds q put" by simp
  show ?case
  proof (cases "se_len dst < se_capacity dst")
    case False
    then have "poll_loop until q dst = Some (q, dst)" by (subst poll_loop.simps) simp
    then show ?thesis
      using h Nil(4) by (auto simp: poll_effect_def requeues_def entries_def List.map_filter_simps)
  next
    case True
    obtain q' where q': "dequeue_node q until = Some (Empty, q')" "rq_holds q' put" "rq_frame q q'"
    proof (cases put)
      case Nil
      then show ?thesis using dequeue_holds_Nil [of q until] h that by auto
    next
      case (Cons b bs)
      then have "until = Some b" using Nil.prems(2) by simp
      then show ?thesis using dequeue_holds_Cons [of q False b bs until] h Cons that by auto
    qed
    then have "poll_loop until q dst = Some (q', dst)"
      using True by (subst poll_loop.simps) simp
    then show ?thesis
      using q' Nil(4) rq_frame_static [OF q'(3)]
      by (auto simp: poll_effect_def requeues_def entries_def rq_frame_def List.map_filter_simps)
  qed
next
  case (Cons p ps)
  show ?case
  proof (cases "se_len dst < se_capacity dst")
    case False
    then have "poll_loop until q dst = Some (q, dst)" by (subst poll_loop.simps) simp
    then show ?thesis
      using Cons.prems False
      by (intro exI [of _ "[]"] exI [of _ "p # ps"] exI [of _ q] exI [of _ dst])
        (simp add: poll_effect_def requeues_def entries_def List.map_filter_simps)
  next
    case True
    note set = rq_contents_set [OF Cons.prems(1)]
    have np: "until \<noteq> Some p" using Cons.prems(2) set(2) by (auto split: list.splits)
    obtain q1 where q1: "dequeue_node q until = Some (Data p, q1)" "rq_holds q1 (ps @ put)"
      "rq_frame q q1" using dequeue_holds_Cons [of q False p "ps @ put" until] Cons.prems(1) np by auto
    have nodes: "rq_nodes q1 = rq_nodes q" "rq_arc q1 = rq_arc q"
      using q1(3) by (simp_all add: rq_frame_def)
    have p: "p \<notin> rq_markers q1" "p \<notin> set (ps @ put)" "p \<notin> set ps"
      using set(2,3) rq_frame_markers [OF q1(3)] by auto
    obtain n where n: "rq_nodes q1 p = Some n" "node_ok n"
      using Cons.prems(3) nodes by (auto simp: nodes_ok_def)
    let ?u = "if requeued n \<and> until = None then Some p else until"
    let ?b = "put @ (if requeued n then [p] else [])"
    obtain q2 dst2 where q2: "poll_node q1 dst until p = Some (?u, q2, dst2)"
      "rq_holds q2 (ps @ ?b)" "rq_nodes q2 = (rq_nodes q1)(p := polled n)"
      "rq_arc q2 = (\<lambda>a. rq_arc q1 a - (if node_frees a n then 1 else 0))" "rq_static q1 q2"
      "se_entries dst2 = se_entries dst @ (case polled_entry n of None \<Rightarrow> [] | Some e \<Rightarrow> [e])"
      "se_capacity dst2 = se_capacity dst"
      using node_step [OF q1(2) p(1,2) n True, of until] by auto
    have u2: "?u = (case ?b of [] \<Rightarrow> None | b # _ \<Rightarrow> Some b)"
      using Cons.prems(2) by (auto split: list.splits)
    have ok2: "nodes_ok (rq_nodes q2) ps"
      using Cons.prems(3) q2(3) nodes p(3) by (auto simp: nodes_ok_def)
    have len2: "se_len dst2 \<le> se_capacity dst2"
      using True q2(6,7) by (auto simp: se_len_def split: option.splits)
    obtain don rest q3 dst3 where q3: "ps = don @ rest"
      "poll_loop ?u q2 dst2 = Some (q3, dst3)"
      "rq_holds q3 (rest @ ?b @ requeues (rq_nodes q2) don)"
      "poll_effect don (rq_nodes q2) (rq_arc q2) q3" "rq_static q2 q3"
      "se_entries dst3 = se_entries dst2 @ entries (rq_nodes q2) don"
      "se_len dst3 \<le> se_capacity dst3" "se_capacity dst3 = se_capacity dst2"
      "rest = [] \<or> se_len dst3 = se_capacity dst3"
      using Cons.IH [OF q2(2) u2 ok2 len2] by blast
    have pd: "p \<notin> set don" using p(3) q3(1) by auto
    have same: "rq_nodes q2 a = rq_nodes q a" if "a \<in> set don" for a
      using that pd q2(3) nodes(1) by auto
    have np2: "rq_nodes q p = Some n" using n(1) nodes(1) by simp
    have run: "poll_loop until q dst = Some (q3, dst3)"
      using True q1(1) q2(1) q3(2) by (subst poll_loop.simps) simp
    have req: "requeues (rq_nodes q2) don = requeues (rq_nodes q) don"
      unfolding requeues_def using same by (intro filter_cong) auto
    have ent: "entries (rq_nodes q2) don = entries (rq_nodes q) don"
      unfolding entries_def using same by (intro map_filter_cong) simp
    have len: "filter (\<lambda>a. \<exists>n. rq_nodes q2 a = Some n \<and> node_frees b n) don =
        filter (\<lambda>a. \<exists>n. rq_nodes q a = Some n \<and> node_frees b n) don" for b
      using same by (intro filter_cong) auto
    have "poll_effect (p # don) (rq_nodes q) (rq_arc q) q3"
      using q3(4) q2(3,4) nodes np2 pd unfolding poll_effect_def len by (auto simp: fun_eq_iff)
    moreover have "rq_static q q3"
      using rq_frame_static [OF q1(3)] q2(5) q3(5) rq_static_trans by blast
    moreover have "se_entries dst3 = se_entries dst @ entries (rq_nodes q) (p # don)"
      using q3(6) q2(6) ent np2 by (auto simp: entries_def List.map_filter_simps split: option.splits)
    moreover have "rq_holds q3 (rest @ put @ requeues (rq_nodes q) (p # don))"
      using q3(3) req np2 by (auto simp: requeues_def)
    moreover have "p # ps = (p # don) @ rest" using q3(1) by simp
    ultimately show ?thesis using run q3(7,8,9) q2(7) by metis
  qed
qed

lemma poll_prefix:
  assumes "rq_holds q ps" "nodes_ok (rq_nodes q) ps" "se_len dst \<le> se_capacity dst"
  shows "\<exists>don rest q' dst'. ps = don @ rest \<and> rq_poll q dst = Some (q', dst') \<and>
    rq_holds q' (rest @ requeues (rq_nodes q) don) \<and>
    poll_effect don (rq_nodes q) (rq_arc q) q' \<and> rq_static q q' \<and>
    se_entries dst' = se_entries dst @ entries (rq_nodes q) don \<and>
    se_len dst' \<le> se_capacity dst' \<and> se_capacity dst' = se_capacity dst \<and>
    (rest = [] \<or> se_len dst' = se_capacity dst')"
proof -
  obtain q1 where q1: "(if se_len dst = se_capacity dst then clear_sleep_marker q else Some q) =
      Some q1" "rq_holds q1 ps" "rq_frame q q1"
    using clear_sleep_holds [OF assms(1)] assms(1) by (metis rq_frame_refl)
  have same: "rq_nodes q1 = rq_nodes q" "rq_arc q1 = rq_arc q"
    using q1(3) by (simp_all add: rq_frame_def)
  have run: "rq_poll q dst = poll_loop None q1 dst"
    unfolding rq_poll_def q1(1) by simp
  have "rq_holds q1 (ps @ [])" "nodes_ok (rq_nodes q1) ps" using q1(2) assms(2) same by simp_all
  from poll_loop_spec [OF this(1) _ this(2) assms(3), of None, unfolded same]
  have "\<exists>don rest q' dst'. ps = don @ rest \<and> poll_loop None q1 dst = Some (q', dst') \<and>
    rq_holds q' (rest @ requeues (rq_nodes q) don) \<and>
    poll_effect don (rq_nodes q) (rq_arc q) q' \<and> rq_static q1 q' \<and>
    se_entries dst' = se_entries dst @ entries (rq_nodes q) don \<and>
    se_len dst' \<le> se_capacity dst' \<and> se_capacity dst' = se_capacity dst \<and>
    (rest = [] \<or> se_len dst' = se_capacity dst')" by simp
  then show ?thesis
    unfolding run using rq_static_trans [OF rq_frame_static [OF q1(3)]] by blast
qed

section \<open>A queue to poll\<close>

text \<open>
  The demonstration queue with an edge-triggered one-shot node at 11 and a
  level-triggered one at 10, both readable and interested in that.
\<close>

definition demo_state :: "poll_opt \<Rightarrow> readiness_state" where
  "demo_state opt = rs_set_poll_opt
     (rs_set_interest (rs_set_readiness QUEUED_MASK ready_readable) ready_readable) opt"

definition demo_poll :: "nat rq" where
  "demo_poll = demo_rq\<lparr>rq_heap := (rq_heap demo_rq)
     (10 \<mapsto> (demo_node 2 None)\<lparr>nd_state := demo_state opt_level, nd_job := UserJob 1\<rparr>,
      11 \<mapsto> (demo_node 1 (Some 10))\<lparr>nd_state := demo_state (opt_bitor opt_edge opt_oneshot)\<rparr>)\<rparr>"

lemma demo_fits: "ready_fits ready_readable" "opt_fits opt_level"
  "opt_fits (opt_bitor opt_edge opt_oneshot)"
  by (simp_all add: ready_fits_def opt_fits_def opt_bitor_def mio_defs)

lemma demo_state_view:
  assumes "opt_fits opt"
  shows "rs_view (demo_state opt) =
    \<lparr>v_readiness = ready_readable, v_interest = ready_readable, v_opt = opt, v_rd = 0, v_wr = 0,
     v_queued = True, v_dropped = False\<rparr>"
proof -
  have z: "rs_view 0 = \<lparr>v_readiness = ready_empty, v_interest = ready_empty, v_opt = opt_empty,
      v_rd = 0, v_wr = 0, v_queued = False, v_dropped = False\<rparr>"
    by (simp add: rs_view_def field_accessors rs_get_zero ready_empty_def opt_empty_def
        is_queued_bit is_dropped_bit)
  have "rs_view QUEUED_MASK = (rs_view 0)\<lparr>v_queued := True\<rparr>"
    using view_or_queued [of 0] by simp
  then show ?thesis
    using assms demo_fits(1) by (simp add: demo_state_def view_setters z)
qed

lemma demo_state_ok: "opt_fits opt \<Longrightarrow> rs_is_queued (demo_state opt) \<and> rs_wf (demo_state opt)"
  by (simp add: rs_wf_view demo_state_view reads_of_view)

lemma demo_poll_holds: "rq_holds demo_poll [11, 10]"
  unfolding rq_contents_def
  by (rule exI [of _ "[11, 10]"])
    (simp add: rq_inv_def rq_data_def demo_poll_def demo_rq_def rq_markers_def demo_node_def)

lemma demo_poll_ok: "nodes_ok (rq_nodes demo_poll) [11, 10]"
  using demo_state_ok demo_fits
  by (simp add: nodes_ok_def node_ok_def rq_nodes_def demo_poll_def demo_rq_def)

section \<open>Properties\<close>

text \<open>
  C29: What polling does to the packed word, however often other threads change it
  between load and swap: the word swapped in is computed from the word it replaces, by
  the rules of the trigger modes. An edge-triggered node leaves the queue, a one-shot
  one that is ready loses its interest too, a level-triggered node stays exactly as long
  as it is ready; the reader moves to the token written last, and readiness, options
  and the writer's position are untouched. A dropped node is never swapped.
\<close>

theorem poll_word_modes:
  assumes "cas_loop poll_body cur env = Some (Inr (old, next))"
  shows "rs_is_queued old \<and> \<not> rs_is_dropped old \<and> old \<in> insert cur (set env) \<and>
    (let some = \<not> ready_is_empty (rs_effective_readiness old);
         edge = opt_is_edge (rs_poll_opt old) in
     rs_view next = (rs_view old)\<lparr>v_queued := \<not> edge \<and> some,
       v_interest := (if edge \<and> opt_is_oneshot (rs_poll_opt old) \<and> some then ready_empty
                      else rs_interest old),
       v_rd := rs_token_write_pos old\<rparr>)"
proof -
  have old: "poll_body old = Some (Inr next)" "old \<in> insert cur (set env)"
    using cas_loop_swapped [OF assms] by blast+
  have q: "rs_is_queued old" using old(1) by (auto simp: poll_body_def split: if_splits)
  then have "\<not> rs_is_dropped old" "next = poll_next old"
    using old(1) poll_body_cases [OF q] by (auto split: if_splits)
  then show ?thesis using q old(2) by (simp add: view_poll_next Let_def)
qed

text \<open>
  A level-triggered node that is not ready wants to leave the queue, but meanwhile the
  node has become one-shot and readable.
\<close>

lemma poll_word_modes_witness:
  "cas_loop poll_body 66048 [66833] = Some (Inr (66833, 1281)) \<and>
    rs_is_queued 66833 \<and> \<not> rs_is_dropped 66833 \<and>
    v_interest (rs_view 1281) = ready_empty"
proof -
  have run: "cas_loop poll_body 66048 [66833] = Some (Inr (66833, 1281))" by code_simp
  have old: "ready_is_empty (rs_effective_readiness 66833) = False"
    "opt_is_edge (rs_poll_opt 66833)" "opt_is_oneshot (rs_poll_opt 66833)" by code_simp+
  show ?thesis using run poll_word_modes [OF run] old by (simp add: Let_def)
qed

text \<open>
  C3: Polling the queue. It terminates without a failed assertion or a touched freed
  node, and handles the oldest nodes first, a prefix \<open>don\<close> of what the queue holds: all
  of it, unless the buffer fills up. Each of them is polled once, even the
  level-triggered ones that go back behind the rest; the events are appended in the
  order of the queue, each with the node's latest token and its job; a dropped node
  gives no event but up its reference; nothing else changes.
\<close>

theorem rq_poll_prefix:
  assumes "rq_holds q ps" "nodes_ok (rq_nodes q) ps" "se_len dst \<le> se_capacity dst"
  shows "\<exists>don rest q' dst'. ps = don @ rest \<and> rq_poll q dst = Some (q', dst') \<and>
    rq_holds q' (rest @ requeues (rq_nodes q) don) \<and>
    poll_effect don (rq_nodes q) (rq_arc q) q' \<and> rq_static q q' \<and>
    se_entries dst' = se_entries dst @ entries (rq_nodes q) don \<and>
    se_len dst' \<le> se_capacity dst' \<and> se_capacity dst' = se_capacity dst \<and>
    (rest = [] \<or> se_len dst' = se_capacity dst')"
  by (rule poll_prefix [OF assms])

lemma rq_poll_prefix_witness:
  "\<exists>q' dst'. rq_poll demo_poll (se_with_capacity 8) = Some (q', dst') \<and> rq_holds q' [10] \<and>
    map je_job (se_entries dst') = [NullJob, UserJob 1]"
proof -
  let ?d = "se_with_capacity 8"
  have d: "se_len ?d = 0" "se_capacity ?d = 8" "se_entries ?d = []" by code_simp+
  obtain don rest q' d' where r: "[11, 10] = don @ rest" "rq_poll demo_poll ?d = Some (q', d')"
    "rq_holds q' (rest @ requeues (rq_nodes demo_poll) don)"
    "se_entries d' = entries (rq_nodes demo_poll) don" "se_capacity d' = 8"
    "rest = [] \<or> se_len d' = se_capacity d'"
    using rq_poll_prefix [OF demo_poll_holds demo_poll_ok, of ?d] d by auto
  have "length (entries ns ps) \<le> length ps" for ns ps
    by (simp add: entries_def List.map_filter_def)
  then have "se_len d' \<le> length don" using r(4) by (simp add: se_len_def)
  also have "length don \<le> 2" using arg_cong [OF r(1), of length] by simp
  finally have "rest = []" using r(5,6) by auto
  then have "don = [11, 10]" using r(1) by simp
  moreover have "requeues (rq_nodes demo_poll) [11, 10] = [10]"
    "map je_job (entries (rq_nodes demo_poll) [11, 10]) = [NullJob, UserJob 1]" by code_simp+
  ultimately show ?thesis using r \<open>rest = []\<close> by auto
qed

text \<open>Polling a queue of one ready, level-triggered node.\<close>

lemma rq_poll_level:
  assumes "rq_holds q [p]" "nodes_ok (rq_nodes q) [p]" "rq_nodes q p = Some n"
    and alive: "\<not> rs_is_dropped (nd_state n)" and level: "\<not> opt_is_edge (rs_poll_opt (nd_state n))"
    and ready: "\<not> ready_is_empty (rs_effective_readiness (nd_state n))"
    and room: "se_len dst < se_capacity dst"
    and token: "node_token n (rs_token_write_pos (nd_state n)) = Some t"
  obtains q' dst' where "rq_poll q dst = Some (q', dst')" "rq_holds q' [p]"
    "rq_nodes q' p = Some (n\<lparr>nd_state := poll_next (nd_state n), nd_job := NullJob\<rparr>)"
    "se_entries dst' = se_entries dst @
      [\<lparr>je_token_entry = t, je_job = nd_job n, je_ready = ready_empty\<rparr>]"
proof -
  obtain don rest q' dst' where r: "[p] = don @ rest" "rq_poll q dst = Some (q', dst')"
    "rq_holds q' (rest @ requeues (rq_nodes q) don)" "poll_effect don (rq_nodes q) (rq_arc q) q'"
    "se_entries dst' = se_entries dst @ entries (rq_nodes q) don" "se_capacity dst' = se_capacity dst"
    "rest = [] \<or> se_len dst' = se_capacity dst'"
    using poll_prefix [OF assms(1,2), of dst] room by auto
  have "rest = []"
  proof (rule ccontr)
    assume "rest \<noteq> []"
    then have "don = []" "se_len dst' = se_capacity dst" using r(1,6,7) by (cases don; auto)+
    then show False using r(5) room by (simp add: se_len_def entries_def)
  qed
  with r(1) have don: "don = [p]" by simp
  show ?thesis
    by (rule that [OF r(2)]; use r(3-5) assms(3-6) token \<open>rest = []\<close> in
      \<open>simp add: don requeues_def requeued_def entries_def polled_entry_def poll_effect_def polled_def\<close>)
qed

text \<open>
  C35: A job is run for one event only: \<^verbatim>\<open>poll\<close> takes the job of the node away. A level-triggered
  registration that stays ready is put back and polled again, but only its first poll hands
  out its job; the second hands out the empty closure.
\<close>

theorem polled_loses_job:
  assumes "rq_holds q [p]" "nodes_ok (rq_nodes q) [p]" "rq_nodes q p = Some n"
    "\<not> rs_is_dropped (nd_state n)" "\<not> opt_is_edge (rs_poll_opt (nd_state n))"
    "\<not> ready_is_empty (rs_effective_readiness (nd_state n))"
    "se_len dst < se_capacity dst" "se_len dst2 < se_capacity dst2"
  shows "\<exists>q1 dst' q2 dst2' t. rq_poll q dst = Some (q1, dst') \<and> rq_poll q1 dst2 = Some (q2, dst2') \<and>
    se_entries dst' = se_entries dst @
      [\<lparr>je_token_entry = t, je_job = nd_job n, je_ready = ready_empty\<rparr>] \<and>
    se_entries dst2' = se_entries dst2 @
      [\<lparr>je_token_entry = t, je_job = NullJob, je_ready = ready_empty\<rparr>] \<and> rq_holds q2 [p]"
proof -
  let ?s = "nd_state n" and ?n = "n\<lparr>nd_state := poll_next (nd_state n), nd_job := NullJob\<rparr>"
  have ok: "node_ok n" using assms(2,3) by (simp add: nodes_ok_def)
  obtain t where t: "node_token n (rs_token_write_pos ?s) = Some t"
    using node_token_wf [of ?s n] ok unfolding node_ok_def by auto
  obtain q1 dst' where r1: "rq_poll q dst = Some (q1, dst')" "rq_holds q1 [p]" "rq_nodes q1 p = Some ?n"
    "se_entries dst' = se_entries dst @ [\<lparr>je_token_entry = t, je_job = nd_job n, je_ready = ready_empty\<rparr>]"
    by (rule rq_poll_level [OF assms(1-7) t])
  have v: "rs_view (poll_next ?s) = (rs_view ?s)\<lparr>v_queued := True, v_rd := rs_token_write_pos ?s\<rparr>"
    using assms(5,6) ok by (simp add: view_poll_next Let_def node_ok_def) (simp add: rs_view_def)
  have eff: "rs_effective_readiness s = ready_bitand (v_readiness (rs_view s)) (v_interest (rs_view s))"
    for s by (simp add: rs_effective_readiness_def view_reads)
  have same: "rs_is_dropped (poll_next ?s) = rs_is_dropped ?s" "rs_poll_opt (poll_next ?s) = rs_poll_opt ?s"
    "rs_effective_readiness (poll_next ?s) = rs_effective_readiness ?s"
    "rs_token_write_pos (poll_next ?s) = rs_token_write_pos ?s" "rs_is_queued (poll_next ?s)"
    unfolding eff by (simp_all only: view_reads [symmetric] v, simp_all)
  have "rs_wf (poll_next ?s)" using poll_next_wf ok unfolding node_ok_def by blast
  then have ok1: "nodes_ok (rq_nodes q1) [p]" using r1(3) same(5) by (simp add: nodes_ok_def node_ok_def)
  have t1: "node_token ?n (rs_token_write_pos (nd_state ?n)) = Some t"
    using t same(4) by (simp add: node_token_def split: if_splits)
  obtain q2 dst2' where "rq_poll q1 dst2 = Some (q2, dst2')" "rq_holds q2 [p]"
    "se_entries dst2' = se_entries dst2 @ [\<lparr>je_token_entry = t, je_job = NullJob, je_ready = ready_empty\<rparr>]"
    by (rule rq_poll_level [OF r1(2) ok1 r1(3) _ _ _ assms(8) t1]) (use assms(4-6) same in simp_all)
  with r1 show ?thesis by blast
qed

lemma polled_loses_job_witness:
  "\<exists>(q :: nat rq) q1 dst' q2 dst2'. rq_poll q (se_with_capacity 8) = Some (q1, dst') \<and>
    rq_poll q1 (se_with_capacity 8) = Some (q2, dst2') \<and>
    map je_job (se_entries dst') = [UserJob 1] \<and> map je_job (se_entries dst2') = [NullJob]"
proof -
  let ?d = "se_with_capacity 8"
  have d: "se_len ?d = 0" "se_capacity ?d = 8" "se_entries ?d = []" by code_simp+
  let ?q = "demo_poll\<lparr>rq_tail := 10\<rparr>" and ?n = "(demo_node 2 None)\<lparr>nd_state := demo_state opt_level, nd_job := UserJob 1\<rparr>"
  have q: "rq_holds ?q [10]"
    unfolding rq_contents_def
    by (rule exI [of _ "[10]"])
      (simp add: rq_inv_def rq_data_def demo_poll_def demo_rq_def rq_markers_def demo_node_def)
  have n: "rq_nodes ?q 10 = Some ?n" "nodes_ok (rq_nodes ?q) [10]"
    using demo_poll_ok
    by (simp_all add: nodes_ok_def rq_nodes_def demo_poll_def demo_rq_def demo_node_def)
  have s: "\<not> rs_is_dropped (nd_state ?n)" "\<not> opt_is_edge (rs_poll_opt (nd_state ?n))"
    "\<not> ready_is_empty (rs_effective_readiness (nd_state ?n))" by code_simp+
  have "se_len ?d < se_capacity ?d" using d by simp
  from polled_loses_job [OF q n(2,1) s this this] show ?thesis using d(3) by fastforce
qed

end
