(* ===== verification/Registration.thy ===== *)
theory Registration
  imports Queue_Poll
begin

text \<open>
  User-space readiness: \<^verbatim>\<open>RegistrationInner\<close>, \<^verbatim>\<open>Registration\<close> and \<^verbatim>\<open>SetReadiness\<close> of
  \<^verbatim>\<open>src/poll.rs\<close>. A handle is the address of its node. The loops on the packed word are
  \<open>cas_loop\<close>s over the bodies \<open>set_readiness_body\<close> and \<open>update_body\<close>; the operations run
  them without interference. The second half counts the handles that are alive and
  proves that no sequence of operations panics, touches a freed node or leaks one.
\<close>

section \<open>RegistrationInner\<close>

definition regi_readiness :: "'p rq \<Rightarrow> ptr \<Rightarrow> ready option" where
  "regi_readiness q p = do { n \<leftarrow> rq_node q p; Some (rs_readiness (nd_state n)) }"

text \<open>\<^verbatim>\<open>next.set_queued()\<close> where the new effective readiness is not empty.\<close>

definition queue_if_ready :: "readiness_state \<Rightarrow> readiness_state option" where
  "queue_if_ready next =
     (if \<not> ready_is_empty (rs_effective_readiness next) then rs_set_queued next else Some next)"

definition set_readiness_body ::
  "ready \<Rightarrow> readiness_state \<Rightarrow> (unit + readiness_state) option" where
  "set_readiness_body ready state =
     (if rs_is_dropped state then Some (Inl ())
      else do {
        next \<leftarrow> queue_if_ready (rs_set_readiness state ready);
        Some (Inr next)
      })"

definition regi_set_readiness ::
  "'p pipe_write \<Rightarrow> 'p rq \<Rightarrow> ptr \<Rightarrow> ready \<Rightarrow> (unit io_result \<times> 'p rq) option" where
  "regi_set_readiness wr q p ready = do {
     n \<leftarrow> rq_node q p;
     word \<leftarrow> cas_loop (set_readiness_body ready) (nd_state n) [];
     (case word of
        Inl _ \<Rightarrow> Some (Inr (), q)
      | Inr (state, next) \<Rightarrow> do {
          q \<leftarrow> rq_write q p (\<lambda>n. n\<lparr>nd_state := next\<rparr>);
          if \<not> rs_is_queued state \<and> rs_is_queued next
          then node_enqueue_with_wakeup wr q p
          else Some (Inr (), q)
        })
   }"

definition other_poll :: io_error where
  "other_poll =
     Io_error OtherKind ''Registration handle associated with another Poll instance''"

text \<open>The node is attached to the queue on its first update.\<close>

definition regi_attach :: "'p rq \<Rightarrow> ptr \<Rightarrow> (unit io_result \<times> 'p rq) option" where
  "regi_attach q p = do {
     n \<leftarrow> rq_node q p;
     let other = Some (rq_addr q);
     if nd_queue n = None then do {
       (res, cell) \<leftarrow> compare_exchange (nd_queue n) None other Release Relaxed;
       q \<leftarrow> rq_write q p (\<lambda>n. n\<lparr>nd_queue := cell\<rparr>);
       let actual = (case res of Inl val \<Rightarrow> val | Inr val \<Rightarrow> val);
       if actual = None then do {
         q \<leftarrow> rq_write q p (\<lambda>n. n\<lparr>nd_ref_count := nd_ref_count n + 1\<rparr>);
         Some (Inr (), q\<lparr>rq_arc := (rq_arc q)(rq_addr q := rq_arc q (rq_addr q) + 1)\<rparr>)
       }
       else if actual \<noteq> other then Some (Inl other_poll, q)
       else Some (Inr (), q)
     }
     else if nd_queue n \<noteq> other then Some (Inl other_poll, q)
     else Some (Inr (), q)
   }"

definition node_set_token :: "node \<Rightarrow> usize \<Rightarrow> token_entry \<Rightarrow> node option" where
  "node_set_token n pos token =
     (if pos = 0 then Some (n\<lparr>nd_token_0 := token\<rparr>)
      else if pos = 1 then Some (n\<lparr>nd_token_1 := token\<rparr>)
      else if pos = 2 then Some (n\<lparr>nd_token_2 := token\<rparr>)
      else None)"

text \<open>
  A token that differs from the one written last goes into a cell nobody reads; the
  result is the position of the token.
\<close>

definition regi_put_token ::
  "'p rq \<Rightarrow> ptr \<Rightarrow> readiness_state \<Rightarrow> token_entry \<Rightarrow> (usize \<times> 'p rq) option" where
  "regi_put_token q p state token = do {
     let curr_pos = rs_token_write_pos state;
     n \<leftarrow> rq_node q p;
     curr_token \<leftarrow> node_token n curr_pos;
     if token \<noteq> curr_token then do {
       pos \<leftarrow> rs_next_token_pos state;
       n \<leftarrow> node_set_token n pos token;
       q \<leftarrow> rq_write q p (\<lambda>_. n);
       Some (pos, q)
     }
     else Some (curr_pos, q)
   }"

text \<open>
  \<open>curr_pos\<close> is the write position seen first; a word that another thread has put there
  must still have it.
\<close>

definition update_body ::
  "usize \<Rightarrow> usize \<Rightarrow> ready \<Rightarrow> poll_opt \<Rightarrow> readiness_state \<Rightarrow> (unit + readiness_state) option" where
  "update_body curr_pos next_pos interest opt state =
     (if rs_token_write_pos state \<noteq> curr_pos then None
      else if rs_is_dropped state then None
      else do {
        let next = rs_set_token_write_pos state next_pos;
        let next = rs_set_interest next interest;
        let next = rs_set_poll_opt next opt;
        next \<leftarrow> queue_if_ready next;
        Some (Inr next)
      })"

definition regi_update ::
  "'p pipe_write \<Rightarrow> 'p rq \<Rightarrow> ptr \<Rightarrow> token_entry \<Rightarrow> ready \<Rightarrow> poll_opt \<Rightarrow> job \<Rightarrow>
   (unit io_result \<times> 'p rq) option" where
  "regi_update wr q p token interest opt job = do {
     (res, q) \<leftarrow> regi_attach q p;
     (case res of
        Inl e \<Rightarrow> Some (Inl e, q)
      | Inr _ \<Rightarrow> do {
          let queue = Some (rq_addr q);
          n \<leftarrow> rq_node q p;
          if nd_update_lock n then Some (Inr (), q)
          else do {
            q \<leftarrow> rq_write q p (\<lambda>n. n\<lparr>nd_update_lock := True\<rparr>);
            let state = nd_state n;
            let curr_pos = rs_token_write_pos state;
            (next_pos, q) \<leftarrow> regi_put_token q p state token;
            word \<leftarrow> cas_loop (update_body curr_pos next_pos interest opt) state [];
            (case word of
               Inl _ \<Rightarrow> None
             | Inr (state, next) \<Rightarrow> do {
                 q \<leftarrow> rq_write q p (\<lambda>n. n\<lparr>nd_state := next, nd_update_lock := False\<rparr>);
                 if \<not> rs_is_queued state \<and> rs_is_queued next then do {
                   q \<leftarrow> rq_write q p (\<lambda>n. n\<lparr>nd_job := job\<rparr>);
                   enqueue_with_wakeup wr q queue p
                 }
                 else Some (Inr (), q)
               })
          }
        })
   }"

text \<open>\<^verbatim>\<open>process::abort()\<close> on too many clones does not return.\<close>

definition regi_clone :: "'p rq \<Rightarrow> ptr \<Rightarrow> (ptr \<times> 'p rq) option" where
  "regi_clone q p = do {
     n \<leftarrow> rq_node q p;
     let old_size = nd_ref_count n;
     q \<leftarrow> rq_write q p (\<lambda>n. n\<lparr>nd_ref_count := nd_ref_count n + 1\<rparr>);
     if old_size AND NOT MAX_REFCOUNT \<noteq> 0 then None else Some (p, q)
   }"

definition regi_drop :: "'p rq \<Rightarrow> ptr \<Rightarrow> 'p rq option" where
  "regi_drop q p = release_node q p"

section \<open>Registration and SetReadiness\<close>

text \<open>\<open>p\<close> is the address the allocator gives the node.\<close>

definition reg_new2 :: "'p rq \<Rightarrow> ptr \<Rightarrow> 'p rq option" where
  "reg_new2 q p = do {
     n \<leftarrow> node_new None default_token ready_empty opt_empty 2;
     Some (q\<lparr>rq_heap := (rq_heap q)(p \<mapsto> n)\<rparr>)
   }"

definition reg_new_priv ::
  "'p rq \<Rightarrow> ptr \<Rightarrow> token_entry \<Rightarrow> ready \<Rightarrow> poll_opt \<Rightarrow> 'p rq option" where
  "reg_new_priv q p token interest opt = do {
     let queue = rq_addr q;
     n \<leftarrow> node_new (Some queue) token interest opt 3;
     Some (q\<lparr>rq_heap := (rq_heap q)(p \<mapsto> n),
       rq_arc := (rq_arc q)(queue := rq_arc q queue + 1)\<rparr>)
   }"

definition reg_new ::
  "'p rq \<Rightarrow> ptr \<Rightarrow> token_entry \<Rightarrow> ready \<Rightarrow> poll_opt \<Rightarrow> 'p rq option" where
  "reg_new q p token interest opt = reg_new_priv q p token interest opt"

definition reg_update ::
  "'p pipe_write \<Rightarrow> 'p rq \<Rightarrow> ptr \<Rightarrow> token_entry \<Rightarrow> ready \<Rightarrow> poll_opt \<Rightarrow> job \<Rightarrow>
   (unit io_result \<times> 'p rq) option" where
  "reg_update wr q p token interest opt job = regi_update wr q p token interest opt job"

definition reg_deregister ::
  "'p pipe_write \<Rightarrow> 'p rq \<Rightarrow> ptr \<Rightarrow> (unit io_result \<times> 'p rq) option" where
  "reg_deregister wr q p = regi_update wr q p default_token ready_empty opt_empty NullJob"

text \<open>The \<^verbatim>\<open>Evented\<close> instance.\<close>

definition reg_ev_register ::
  "'p pipe_write \<Rightarrow> 'p rq \<Rightarrow> ptr \<Rightarrow> token_entry \<Rightarrow> ready \<Rightarrow> poll_opt \<Rightarrow> job \<Rightarrow>
   (unit io_result \<times> 'p rq) option" where
  "reg_ev_register wr q p token interest opts job = regi_update wr q p token interest opts job"

definition reg_ev_reregister ::
  "'p pipe_write \<Rightarrow> 'p rq \<Rightarrow> ptr \<Rightarrow> token_entry \<Rightarrow> ready \<Rightarrow> poll_opt \<Rightarrow>
   (unit io_result \<times> 'p rq) option" where
  "reg_ev_reregister wr q p token interest opts =
     regi_update wr q p token interest opts NullJob"

definition reg_ev_deregister ::
  "'p pipe_write \<Rightarrow> 'p rq \<Rightarrow> ptr \<Rightarrow> (unit io_result \<times> 'p rq) option" where
  "reg_ev_deregister wr q p = regi_update wr q p default_token ready_empty opt_empty NullJob"

text \<open>
  Dropping the registration runs its \<^verbatim>\<open>Drop\<close>, which ignores the outcome of the wake-up,
  and then drops its field.
\<close>

definition reg_drop :: "'p pipe_write \<Rightarrow> 'p rq \<Rightarrow> ptr \<Rightarrow> 'p rq option" where
  "reg_drop wr q p = do {
     n \<leftarrow> rq_node q p;
     (enq, state) \<leftarrow> as_flag_as_dropped (nd_state n);
     q \<leftarrow> rq_write q p (\<lambda>n. n\<lparr>nd_state := state\<rparr>);
     q \<leftarrow> (if enq then do {
              (_, q) \<leftarrow> node_enqueue_with_wakeup wr q p;
              Some q
            }
            else Some q);
     regi_drop q p
   }"

definition sr_readiness :: "'p rq \<Rightarrow> ptr \<Rightarrow> ready option" where
  "sr_readiness q p = regi_readiness q p"

definition sr_set_readiness ::
  "'p pipe_write \<Rightarrow> 'p rq \<Rightarrow> ptr \<Rightarrow> ready \<Rightarrow> (unit io_result \<times> 'p rq) option" where
  "sr_set_readiness wr q p ready = regi_set_readiness wr q p ready"

section \<open>Handles and the invariant\<close>

text \<open>
  Which handles are alive: of the registration at an address there is one or none, of
  its \<^verbatim>\<open>SetReadiness\<close> any number. \<open>node_inv\<close> relates them to the node: the reference
  count is the number of handles and one more while the queue has a claim on the node,
  that is, it is attached and either its registration is alive or it still waits in
  the queue to be let go.
\<close>

record handles =
  h_reg :: bool
  h_set :: nat

definition no_handles :: handles where
  "no_handles = \<lparr>h_reg = False, h_set = 0\<rparr>"

definition h_count :: "handles \<Rightarrow> nat" where
  "h_count h = h_set h + of_bool (h_reg h)"

definition queue_claim :: "bool \<Rightarrow> node \<Rightarrow> bool" where
  "queue_claim inq n \<longleftrightarrow> nd_queue n \<noteq> None \<and> (\<not> rs_is_dropped (nd_state n) \<or> inq)"

definition node_shape :: "ptr \<Rightarrow> handles \<Rightarrow> bool \<Rightarrow> node \<Rightarrow> bool" where
  "node_shape a h inq n \<longleftrightarrow>
     (nd_queue n = None \<or> nd_queue n = Some a) \<and> h_count h \<le> 2 ^ 63 \<and>
     rs_is_dropped (nd_state n) = (\<not> h_reg h) \<and>
     (inq \<longrightarrow> nd_queue n \<noteq> None \<and> rs_is_queued (nd_state n)) \<and>
     (\<not> rs_is_dropped (nd_state n) \<and> rs_is_queued (nd_state n) \<longrightarrow> inq) \<and>
     (nd_queue n = None \<longrightarrow> rs_interest (nd_state n) = ready_empty) \<and>
     rs_wf (nd_state n) \<and> \<not> nd_update_lock n"

definition node_inv :: "ptr \<Rightarrow> handles \<Rightarrow> bool \<Rightarrow> node \<Rightarrow> bool" where
  "node_inv a h inq n \<longleftrightarrow>
     node_shape a h inq n \<and> 0 < nd_ref_count n \<and>
     unat (nd_ref_count n) = h_count h + of_bool (queue_claim inq n)"

definition all_inv :: "'p rq \<Rightarrow> (ptr \<Rightarrow> handles) \<Rightarrow> ptr list \<Rightarrow> bool" where
  "all_inv q hs ps \<longleftrightarrow>
     (\<forall>p. p \<notin> rq_markers q \<longrightarrow>
       (case rq_nodes q p of
          None \<Rightarrow> hs p = no_handles
        | Some n \<Rightarrow> node_inv (rq_addr q) (hs p) (p \<in> set ps) n)) \<and>
     (\<forall>p \<in> rq_markers q. hs p = no_handles)"

definition reg_inv :: "'p rq \<Rightarrow> (ptr \<Rightarrow> handles) \<Rightarrow> bool" where
  "reg_inv q hs \<longleftrightarrow> (\<exists>ps. rq_holds q ps \<and> all_inv q hs ps)"

text \<open>What an operation on one node leaves alone.\<close>

definition rq_place :: "'p rq \<Rightarrow> ptr \<times> ptr \<times> ptr \<times> ptr" where
  "rq_place q = (rq_addr q, rq_end q, rq_sleep q, rq_closed q)"

lemma rq_place_eqs:
  "rq_place q' = rq_place q \<Longrightarrow> rq_addr q' = rq_addr q \<and> rq_markers q' = rq_markers q"
  by (simp add: rq_place_def rq_markers_def)

lemma rq_place_of: "rq_frame q q' \<Longrightarrow> rq_place q' = rq_place q"
  "rq_static q q' \<Longrightarrow> rq_place q' = rq_place q"
  by (simp_all add: rq_frame_def rq_static_def rq_place_def)

lemma node_inv_unlink [simp]: "node_inv a h i (unlink n) = node_inv a h i n"
  by (simp add: node_inv_def node_shape_def queue_claim_def)

lemma all_inv_node:
  "all_inv q hs ps \<Longrightarrow> x \<notin> rq_markers q \<Longrightarrow>
     (case rq_nodes q x of
        None \<Rightarrow> hs x = no_handles
      | Some n \<Rightarrow> node_inv (rq_addr q) (hs x) (x \<in> set ps) n)"
  by (simp add: all_inv_def)

text \<open>An operation that changes the node at \<open>p\<close> and the handles of it only.\<close>

lemma all_inv_step:
  assumes "all_inv q hs ps"
    and q': "rq_place q' = rq_place q" "rq_nodes q' = (rq_nodes q)(p := v)"
    and p: "p \<notin> rq_markers q" "set ps' - {p} = set ps - {p}"
    and v: "case v of None \<Rightarrow> h = no_handles | Some n \<Rightarrow> node_inv (rq_addr q) h (p \<in> set ps') n"
  shows "all_inv q' (hs(p := h)) ps'"
proof -
  have place: "rq_addr q' = rq_addr q" "rq_markers q' = rq_markers q"
    using rq_place_eqs [OF q'(1)] by auto
  have "case rq_nodes q' x of
      None \<Rightarrow> (hs(p := h)) x = no_handles
    | Some n \<Rightarrow> node_inv (rq_addr q') ((hs(p := h)) x) (x \<in> set ps') n"
    if x: "x \<notin> rq_markers q" for x
  proof (cases "x = p")
    case True
    then show ?thesis using v place q'(2) by (simp split: option.splits)
  next
    case False
    then have "(x \<in> set ps') = (x \<in> set ps)" using p(2) by blast
    then show ?thesis
      using False all_inv_node [OF assms(1) x] q'(2) place by (cases "rq_nodes q x") simp_all
  qed
  moreover have "\<forall>x \<in> rq_markers q'. (hs(p := h)) x = no_handles"
    using assms(1) p(1) place by (auto simp: all_inv_def)
  ultimately show ?thesis using place unfolding all_inv_def by metis
qed

text \<open>A live handle names an allocated node that is no marker.\<close>

lemma all_inv_handle:
  assumes "all_inv q hs ps" "0 < h_count (hs p)"
  shows "\<exists>n. rq_heap q p = Some n \<and> p \<notin> rq_markers q \<and>
    node_inv (rq_addr q) (hs p) (p \<in> set ps) n"
proof -
  have ne: "hs p \<noteq> no_handles" using assms(2) by (auto simp: no_handles_def h_count_def)
  then have pm: "p \<notin> rq_markers q" using assms(1) by (auto simp: all_inv_def)
  then obtain m where m: "rq_nodes q p = Some m" "node_inv (rq_addr q) (hs p) (p \<in> set ps) m"
    using ne all_inv_node [OF assms(1) pm] by (auto split: option.splits)
  obtain n where "rq_heap q p = Some n" "m = unlink n" using rq_nodes_Some [OF m(1)] by blast
  then show ?thesis using pm m(2) by auto
qed

section \<open>The operations on one node\<close>

lemma inv_release:
  assumes "node_shape a h inq n"
    and "unat (nd_ref_count n) = Suc (h_count h + of_bool (queue_claim inq n))"
  shows "case node_released n of None \<Rightarrow> h = no_handles \<and> \<not> inq | Some n \<Rightarrow> node_inv a h inq n"
proof (cases "nd_ref_count n = 1")
  case True
  then have "h_count h = 0" "\<not> queue_claim inq n" using assms(2) by auto
  moreover have "\<not> inq" using assms(1) calculation(2) by (auto simp: node_shape_def queue_claim_def)
  ultimately show ?thesis
    using True by (cases h) (auto simp: node_released_def h_count_def no_handles_def)
next
  case False
  let ?m = "n\<lparr>nd_ref_count := nd_ref_count n - 1\<rparr>"
  have pos: "nd_ref_count n \<noteq> 0" using assms(2) by (metis nat.simps(3) unat_0)
  then have u: "unat (nd_ref_count n - 1) = h_count h + of_bool (queue_claim inq n)"
    using assms(2) by (simp add: unat_minus_one)
  have "node_shape a h inq ?m" "queue_claim inq ?m = queue_claim inq n"
    using assms(1) by (simp_all add: node_shape_def queue_claim_def)
  moreover have "0 < nd_ref_count n - 1"
    using False by (simp add: word_greater_zero_iff)
  ultimately show ?thesis using False u by (simp add: node_released_def node_inv_def)
qed

text \<open>Enqueueing the node just written, which is attached to this queue.\<close>

lemma write_enqueue:
  assumes "rq_holds q ps" "rq_heap q p = Some n" "p \<notin> rq_markers q" "p \<notin> set ps"
    "nd_next m = nd_next n"
  shows "\<exists>r q'. enqueue_node_with_wakeup wr (q\<lparr>rq_heap := (rq_heap q)(p \<mapsto> m)\<rparr>) p = Some (r, q') \<and>
    rq_holds q' (ps @ [p]) \<and> rq_place q' = rq_place q \<and> rq_nodes q' = (rq_nodes q)(p \<mapsto> unlink m) \<and>
    rq_arc q' = rq_arc q"
proof -
  let ?q = "q\<lparr>rq_heap := (rq_heap q)(p \<mapsto> m)\<rparr>"
  have "rq_holds ?q ps" using write_contents [OF assms(2,5)] assms(1) by simp
  moreover have "p \<in> dom (rq_heap ?q)" "p \<notin> rq_markers ?q" using assms(3) by (simp_all add: rq_markers_def)
  ultimately obtain q1 where q1: "enqueue_node ?q p = Some (rq_asleep ?q, q1)"
    "rq_holds q1 (ps @ [p])" "rq_frame ?q q1" using enqueue_holds assms(4) by blast
  obtain r pipe where w: "awk_wakeup wr (rq_pipe q1) = (r, pipe)" by fastforce
  have up: "rq_holds (q1\<lparr>rq_pipe := pipe\<rparr>) (ps @ [p])"
    using q1(2) by (simp add: rq_contents_def rq_inv_def rq_data_def rq_markers_def)
  have same: "rq_nodes q1 = (rq_nodes q)(p \<mapsto> unlink m)" "rq_place q1 = rq_place q"
    "rq_arc q1 = rq_arc q"
    using q1(3) rq_nodes_upd [of q p m] by (simp_all add: rq_frame_def rq_place_def)
  moreover have "rq_nodes (q1\<lparr>rq_pipe := pipe\<rparr>) = rq_nodes q1"
    "rq_place (q1\<lparr>rq_pipe := pipe\<rparr>) = rq_place q1" by (simp_all add: rq_nodes_def rq_place_def fun_eq_iff)
  ultimately show ?thesis
    using q1 up w by (cases "rq_asleep ?q") (simp_all add: enqueue_node_with_wakeup_def rq_wakeup_def)
qed

lemma write_alone:
  assumes "rq_holds q ps" "rq_heap q p = Some n" "nd_next m = nd_next n"
  shows "rq_holds (q\<lparr>rq_heap := (rq_heap q)(p \<mapsto> m)\<rparr>) ps \<and>
    rq_place (q\<lparr>rq_heap := (rq_heap q)(p \<mapsto> m)\<rparr>) = rq_place q \<and>
    rq_nodes (q\<lparr>rq_heap := (rq_heap q)(p \<mapsto> m)\<rparr>) = (rq_nodes q)(p \<mapsto> unlink m)"
  using write_contents [OF assms(2,3)] assms(1) rq_nodes_upd by (simp add: rq_place_def)

definition eff :: "rs_view \<Rightarrow> ready" where
  "eff v = ready_bitand (v_readiness v) (v_interest v)"

lemma rs_effective_view: "rs_effective_readiness s = eff (rs_view s)"
  by (simp add: rs_effective_readiness_def eff_def view_reads)

lemma queue_if_ready_view:
  assumes "\<not> rs_is_dropped s"
  shows "\<exists>t. queue_if_ready s = Some t \<and>
    rs_view t = (rs_view s)\<lparr>v_queued := rs_is_queued s \<or> \<not> ready_is_empty (eff (rs_view s))\<rparr>"
proof (cases "ready_is_empty (eff (rs_view s))")
  case True
  then show ?thesis
    by (simp add: queue_if_ready_def rs_effective_view) (simp add: rs_view_def)
next
  case False
  then show ?thesis
    using assms by (simp add: queue_if_ready_def rs_effective_view rs_set_queued_def view_or_queued)
qed

lemma set_readiness_view:
  assumes "ready_fits r" "\<not> rs_is_dropped s"
  shows "\<exists>t. set_readiness_body r s = Some (Inr t) \<and>
    rs_view t = (rs_view s)\<lparr>v_readiness := r,
      v_queued := rs_is_queued s \<or> \<not> ready_is_empty (ready_bitand r (rs_interest s))\<rparr>"
proof -
  let ?n = "rs_set_readiness s r"
  have v: "rs_view ?n = (rs_view s)\<lparr>v_readiness := r\<rparr>" by (rule view_set_readiness [OF assms(1)])
  have "rs_is_dropped ?n = v_dropped (rs_view ?n)" "rs_is_queued ?n = v_queued (rs_view ?n)"
    by (simp_all add: view_reads)
  then have "\<not> rs_is_dropped ?n" "rs_is_queued ?n = rs_is_queued s"
    using assms(2) v by (simp_all add: view_reads)
  then show ?thesis
    using queue_if_ready_view [of ?n] assms(2) v
    by (auto simp: set_readiness_body_def eff_def view_reads)
qed

lemma update_view:
  assumes "ready_fits i" "opt_fits opt" "pos \<in> {0, 1, 2}" "\<not> rs_is_dropped s"
  shows "\<exists>t. update_body (rs_token_write_pos s) pos i opt s = Some (Inr t) \<and>
    rs_view t = (rs_view s)\<lparr>v_interest := i, v_opt := opt, v_wr := pos,
      v_queued := rs_is_queued s \<or> \<not> ready_is_empty (ready_bitand (rs_readiness s) i)\<rparr>"
proof -
  let ?n = "rs_set_poll_opt (rs_set_interest (rs_set_token_write_pos s pos) i) opt"
  have pos: "pos \<le> 3" using assms(3) by (auto simp: word_le_nat_alt)
  have v: "rs_view ?n = (rs_view s)\<lparr>v_interest := i, v_opt := opt, v_wr := pos\<rparr>"
    using assms(1,2) pos by (simp add: view_setters)
  have "rs_is_dropped ?n = v_dropped (rs_view ?n)" "rs_is_queued ?n = v_queued (rs_view ?n)"
    by (simp_all add: view_reads)
  then have "\<not> rs_is_dropped ?n" "rs_is_queued ?n = rs_is_queued s"
    using assms(4) v by (simp_all add: view_reads)
  then show ?thesis
    using queue_if_ready_view [of ?n] assms(4) v
    by (auto simp: update_body_def eff_def view_reads)
qed

text \<open>The invariant speaks of the word through its fields only.\<close>

lemma node_shape_view:
  "node_shape a h inq n \<longleftrightarrow>
     (nd_queue n = None \<or> nd_queue n = Some a) \<and> h_count h \<le> 2 ^ 63 \<and>
     v_dropped (rs_view (nd_state n)) = (\<not> h_reg h) \<and>
     (inq \<longrightarrow> nd_queue n \<noteq> None \<and> v_queued (rs_view (nd_state n))) \<and>
     (\<not> v_dropped (rs_view (nd_state n)) \<and> v_queued (rs_view (nd_state n)) \<longrightarrow> inq) \<and>
     (nd_queue n = None \<longrightarrow> v_interest (rs_view (nd_state n)) = ready_empty) \<and>
     v_rd (rs_view (nd_state n)) \<in> {0, 1, 2} \<and> v_wr (rs_view (nd_state n)) \<in> {0, 1, 2} \<and>
     \<not> nd_update_lock n"
  by (simp add: node_shape_def rs_wf_view view_reads)

lemma queue_claim_view:
  "queue_claim inq n \<longleftrightarrow> nd_queue n \<noteq> None \<and> (\<not> v_dropped (rs_view (nd_state n)) \<or> inq)"
  by (simp add: queue_claim_def view_reads)

lemma bitand_empty [simp]: "ready_is_empty (ready_bitand r ready_empty)"
  "ready_is_empty (ready_bitand ready_empty r)"
  by (simp_all add: ready_is_empty_def ready_bitand_def ready_empty_def)

text \<open>
  A live node whose word is replaced by one that differs in readiness, interest, options,
  token positions and, if it becomes queued, the queued flag.
\<close>

lemma node_inv_word:
  assumes inv: "node_inv a h inq n" and alive: "\<not> rs_is_dropped (nd_state n)"
    and m: "nd_queue m = Some a \<or> nd_queue m = nd_queue n \<and> rs_interest (nd_state m) = ready_empty"
      "\<not> nd_update_lock m"
      "unat (nd_ref_count m) = unat (nd_ref_count n) + of_bool (nd_queue n = None \<and> nd_queue m \<noteq> None)"
    and v: "v_dropped (rs_view (nd_state m)) = v_dropped (rs_view (nd_state n))"
      "v_queued (rs_view (nd_state m)) = (v_queued (rs_view (nd_state n)) \<or> inq')"
      "v_rd (rs_view (nd_state m)) = v_rd (rs_view (nd_state n))"
      "v_wr (rs_view (nd_state m)) \<in> {0, 1, 2}"
    and q: "inq' \<Longrightarrow> nd_queue m = Some a"
  shows "node_inv a h (inq \<or> inq') m"
proof -
  have qn: "nd_queue n = None \<or> nd_queue n = Some a" using inv by (simp add: node_inv_def node_shape_def)
  have keep: "nd_queue n \<noteq> None \<Longrightarrow> nd_queue m \<noteq> None" using m(1) qn by auto
  have old: "h_count h \<le> 2 ^ 63" "v_dropped (rs_view (nd_state n)) = (\<not> h_reg h)"
    "inq \<longrightarrow> nd_queue n \<noteq> None \<and> v_queued (rs_view (nd_state n))"
    "\<not> v_dropped (rs_view (nd_state n)) \<and> v_queued (rs_view (nd_state n)) \<longrightarrow> inq"
    "nd_queue n = None \<longrightarrow> v_interest (rs_view (nd_state n)) = ready_empty"
    "v_rd (rs_view (nd_state n)) \<in> {0, 1, 2}"
    using inv unfolding node_inv_def node_shape_view by blast+
  have live: "\<not> v_dropped (rs_view (nd_state n))" using alive by (simp add: view_reads)
  have mq: "nd_queue m = None \<or> nd_queue m = Some a" using m(1) qn by auto
  have "inq \<or> inq' \<longrightarrow> nd_queue m \<noteq> None \<and> v_queued (rs_view (nd_state m))"
    using old(3) q v(2) keep by blast
  moreover have "v_queued (rs_view (nd_state m)) \<longrightarrow> inq \<or> inq'"
    using old(4) live v(2) by blast
  moreover have "nd_queue m = None \<longrightarrow> v_interest (rs_view (nd_state m)) = ready_empty"
    using m(1) by (auto simp: view_reads)
  ultimately have "node_shape a h (inq \<or> inq') m"
    unfolding node_shape_view using mq m(2) old(1,2,6) v(1,3,4) by simp
  moreover have "queue_claim (inq \<or> inq') m = (nd_queue m \<noteq> None)" "queue_claim inq n = (nd_queue n \<noteq> None)"
    using alive v(1) by (auto simp: queue_claim_view view_reads)
  moreover have "0 < nd_ref_count m"
    using inv m(3) by (auto simp: node_inv_def word_less_nat_alt)
  ultimately show ?thesis
    using inv m(3) keep by (auto simp: node_inv_def)
qed

lemma all_inv_upd_same: "hs p = h \<Longrightarrow> all_inv q (hs(p := h)) ps = all_inv q hs ps"
  by (simp add: fun_upd_idem)

text \<open>
  Writing a word to a live node and enqueueing it when it becomes queued, the common end
  of \<^verbatim>\<open>set_readiness\<close> and \<^verbatim>\<open>update\<close>. \<open>m\<close> is the node that is written.
\<close>

lemma swap_inv:
  assumes "rq_holds q ps" "all_inv q hs ps" "rq_heap q p = Some n" "p \<notin> rq_markers q"
    and m: "node_inv (rq_addr q) (hs p) (p \<in> set ps \<or> inq') m" "nd_next m = nd_next n"
  shows "p \<notin> set ps \<and> inq' \<Longrightarrow>
      \<exists>r q'. enqueue_node_with_wakeup wr (q\<lparr>rq_heap := (rq_heap q)(p \<mapsto> m)\<rparr>) p = Some (r, q') \<and>
        rq_holds q' (ps @ [p]) \<and> all_inv q' hs (ps @ [p]) \<and> rq_place q' = rq_place q \<and>
        rq_nodes q' = (rq_nodes q)(p \<mapsto> unlink m)"
    and "\<not> (p \<notin> set ps \<and> inq') \<Longrightarrow>
      rq_holds (q\<lparr>rq_heap := (rq_heap q)(p \<mapsto> m)\<rparr>) ps \<and>
      all_inv (q\<lparr>rq_heap := (rq_heap q)(p \<mapsto> m)\<rparr>) hs ps"
proof -
  assume new: "p \<notin> set ps \<and> inq'"
  then obtain r q' where q': "enqueue_node_with_wakeup wr
      (q\<lparr>rq_heap := (rq_heap q)(p \<mapsto> m)\<rparr>) p = Some (r, q')"
    "rq_holds q' (ps @ [p])" "rq_place q' = rq_place q" "rq_nodes q' = (rq_nodes q)(p \<mapsto> unlink m)"
    using write_enqueue [OF assms(1,3,4) _ m(2), of wr] by auto
  have "node_inv (rq_addr q) (hs p) (p \<in> set (ps @ [p])) (unlink m)" using m(1) new by simp
  then have "all_inv q' (hs(p := hs p)) (ps @ [p])"
    using all_inv_step [OF assms(2) q'(3,4) assms(4), of "ps @ [p]" "hs p"] by auto
  then show "\<exists>r q'. enqueue_node_with_wakeup wr (q\<lparr>rq_heap := (rq_heap q)(p \<mapsto> m)\<rparr>) p = Some (r, q') \<and>
      rq_holds q' (ps @ [p]) \<and> all_inv q' hs (ps @ [p]) \<and> rq_place q' = rq_place q \<and>
      rq_nodes q' = (rq_nodes q)(p \<mapsto> unlink m)"
    using q' by (auto simp: all_inv_upd_same)
next
  let ?q = "q\<lparr>rq_heap := (rq_heap q)(p \<mapsto> m)\<rparr>"
  assume "\<not> (p \<notin> set ps \<and> inq')"
  then have "node_inv (rq_addr q) (hs p) (p \<in> set ps) (unlink m)" using m(1) by (cases "p \<in> set ps") auto
  moreover have w: "rq_holds ?q ps" "rq_place ?q = rq_place q" "rq_nodes ?q = (rq_nodes q)(p \<mapsto> unlink m)"
    using write_alone [OF assms(1,3) m(2)] by auto
  ultimately have "all_inv ?q (hs(p := hs p)) ps"
    using all_inv_step [OF assms(2) w(2,3) assms(4), of ps "hs p"] by auto
  then show "rq_holds ?q ps \<and> all_inv ?q hs ps" using w(1) by (simp add: all_inv_upd_same)
qed

definition reg_put :: "ptr list \<Rightarrow> ptr \<Rightarrow> bool \<Rightarrow> ptr list" where
  "reg_put ps p b = (if b \<and> p \<notin> set ps then ps @ [p] else ps)"

lemma set_readiness_spec:
  assumes "rq_holds q ps" "all_inv q hs ps" "0 < h_count (hs p)" "ready_fits r"
  shows "\<exists>n res q'. rq_heap q p = Some n \<and> regi_set_readiness wr q p r = Some (res, q') \<and>
    (let ps' = reg_put ps p (h_reg (hs p) \<and>
        \<not> ready_is_empty (ready_bitand r (rs_interest (nd_state n)))) in
     rq_holds q' ps' \<and> all_inv q' hs ps' \<and> rq_place q' = rq_place q \<and>
     (if h_reg (hs p)
      then \<exists>m. rq_nodes q' = (rq_nodes q)(p \<mapsto> m) \<and>
        rs_view (nd_state m) = (rs_view (nd_state n))\<lparr>v_readiness := r, v_queued := p \<in> set ps'\<rparr> \<and>
        m = (unlink n)\<lparr>nd_state := nd_state m\<rparr>
      else q' = q))"
proof -
  obtain n where n: "rq_heap q p = Some n" "p \<notin> rq_markers q"
    "node_inv (rq_addr q) (hs p) (p \<in> set ps) n" using all_inv_handle [OF assms(2,3)] by blast
  let ?s = "nd_state n"
  have dr: "rs_is_dropped ?s = (\<not> h_reg (hs p))" using n(3) by (simp add: node_inv_def node_shape_def)
  show ?thesis
  proof (cases "h_reg (hs p)")
    case False
    then have "regi_set_readiness wr q p r = Some (Inr (), q)"
      using n(1) dr by (simp add: regi_set_readiness_def rq_node_def cas_loop_alone set_readiness_body_def)
    then show ?thesis using False n(1) assms(1,2) by (simp add: reg_put_def Let_def)
  next
    case True
    then have alive: "\<not> rs_is_dropped ?s" using dr by simp
    let ?f = "\<not> ready_is_empty (ready_bitand r (rs_interest ?s))"
    obtain t where t: "set_readiness_body r ?s = Some (Inr t)"
      "rs_view t = (rs_view ?s)\<lparr>v_readiness := r, v_queued := rs_is_queued ?s \<or> ?f\<rparr>"
      using set_readiness_view [OF assms(4) alive] by blast
    let ?m = "n\<lparr>nd_state := t\<rparr>"
    have att: "nd_queue n = Some (rq_addr q) \<or> rs_interest ?s = ready_empty" "rs_wf ?s"
      "\<not> nd_update_lock n" "rs_is_queued ?s = (p \<in> set ps)"
      using n(3) alive by (auto simp: node_inv_def node_shape_def)
    have fq: "?f \<Longrightarrow> nd_queue n = Some (rq_addr q)" using att(1) by auto
    have minv: "node_inv (rq_addr q) (hs p) (p \<in> set ps \<or> ?f) ?m"
    proof (rule node_inv_word [OF n(3) alive])
      have "rs_interest t = v_interest (rs_view t)" by (simp add: view_reads)
      then show "nd_queue ?m = Some (rq_addr q) \<or>
          nd_queue ?m = nd_queue n \<and> rs_interest (nd_state ?m) = ready_empty"
        using att(1) t(2) by (auto simp: view_reads)
    qed (use att t(2) fq in \<open>auto simp: view_reads rs_wf_def\<close>)
    have qt: "rs_is_queued t = (p \<in> set ps \<or> ?f)"
      using t(2) att(4) view_reads(6) [of t] by simp
    let ?q = "q\<lparr>rq_heap := (rq_heap q)(p \<mapsto> ?m)\<rparr>"
    have run: "regi_set_readiness wr q p r =
        (if \<not> rs_is_queued ?s \<and> rs_is_queued t then node_enqueue_with_wakeup wr ?q p
         else Some (Inr (), ?q))"
      using n(1) t(1) by (simp add: regi_set_readiness_def rq_node_def cas_loop_alone)
    show ?thesis
    proof (cases "p \<notin> set ps \<and> ?f")
      case new: True
      obtain res q' where q': "enqueue_node_with_wakeup wr ?q p = Some (res, q')"
        "rq_holds q' (ps @ [p])" "all_inv q' hs (ps @ [p])" "rq_place q' = rq_place q"
        "rq_nodes q' = (rq_nodes q)(p \<mapsto> unlink ?m)"
        using swap_inv(1) [OF assms(1,2) n(1,2) minv _ new, of wr] by auto
      have "regi_set_readiness wr q p r = Some (res, q')"
        using run new att(4) qt fq q'(1)
        by (simp add: node_enqueue_with_wakeup_def rq_node_def enqueue_with_wakeup_def)
      then show ?thesis
        using q' n(1) True new t(2) by (auto simp: reg_put_def Let_def)
    next
      case old: False
      then have "regi_set_readiness wr q p r = Some (Inr (), ?q)"
        using run att(4) qt by auto
      moreover have "rq_holds ?q ps" "all_inv ?q hs ps"
        using swap_inv(2) [OF assms(1,2) n(1,2) minv _ old] by auto
      moreover have "rq_place ?q = rq_place q" "rq_nodes ?q = (rq_nodes q)(p \<mapsto> unlink ?m)"
        using rq_nodes_upd by (simp_all add: rq_place_def)
      moreover have "(rs_is_queued ?s \<or> ?f) = (p \<in> set ps)" using att(4) old by auto
      ultimately show ?thesis
        using n(1) True old t(2) by (auto simp: reg_put_def Let_def)
    qed
  qed
qed

lemma arc_irrelevant [simp]:
  "rq_contents (q\<lparr>rq_arc := f\<rparr>) c ps = rq_contents q c ps"
  "all_inv (q\<lparr>rq_arc := f\<rparr>) hs ps = all_inv q hs ps"
  "rq_markers (q\<lparr>rq_arc := f\<rparr>) = rq_markers q" "rq_place (q\<lparr>rq_arc := f\<rparr>) = rq_place q"
  "rq_nodes (q\<lparr>rq_arc := f\<rparr>) = rq_nodes q"
  by (simp_all add: rq_contents_def rq_inv_def rq_data_def rq_markers_def all_inv_def
      rq_place_def rq_nodes_def fun_eq_iff cong: option.case_cong)

definition attached :: "ptr \<Rightarrow> node \<Rightarrow> node" where
  "attached a n =
     (if nd_queue n = None
      then n\<lparr>nd_queue := Some a, nd_ref_count := nd_ref_count n + 1\<rparr> else n)"

definition attach_arcs :: "'p rq \<Rightarrow> node \<Rightarrow> ptr \<Rightarrow> nat" where
  "attach_arcs q n =
     (if nd_queue n = None then (rq_arc q)(rq_addr q := rq_arc q (rq_addr q) + 1) else rq_arc q)"

lemma attach_runs:
  assumes "rq_heap q p = Some n" "nd_queue n = None \<or> nd_queue n = Some (rq_addr q)"
  shows "regi_attach q p = Some (Inr (),
    q\<lparr>rq_heap := (rq_heap q)(p \<mapsto> attached (rq_addr q) n), rq_arc := attach_arcs q n\<rparr>)"
proof (cases "nd_queue n = None")
  case True
  then show ?thesis
    using assms(1)
    by (simp add: regi_attach_def rq_node_def compare_exchange_def attached_def attach_arcs_def Let_def)
next
  case False
  then have nq: "nd_queue n = Some (rq_addr q)" using assms(2) by (cases "nd_queue n") simp_all
  then have "attached (rq_addr q) n = n" "attach_arcs q n = rq_arc q"
    by (simp_all add: attached_def attach_arcs_def)
  then show ?thesis
    using assms(1) nq
    by (simp add: regi_attach_def rq_node_def Let_def map_upd_triv)
qed

text \<open>What \<open>n'\<close> has of \<open>n\<close>: everything but the tokens.\<close>

definition but_tokens :: "node \<Rightarrow> node \<Rightarrow> bool" where
  "but_tokens n n' \<longleftrightarrow>
     n' = n\<lparr>nd_token_0 := nd_token_0 n', nd_token_1 := nd_token_1 n', nd_token_2 := nd_token_2 n'\<rparr>"

lemma but_tokens_fields:
  "but_tokens n n' \<Longrightarrow> nd_state n' = nd_state n \<and> nd_next n' = nd_next n \<and>
     nd_queue n' = nd_queue n \<and> nd_update_lock n' = nd_update_lock n \<and>
     nd_ref_count n' = nd_ref_count n \<and> nd_job n' = nd_job n"
  unfolding but_tokens_def by (cases n, cases n') simp

lemma set_token_runs:
  assumes "pos \<in> {0, 1, 2}"
  shows "\<exists>n'. node_set_token n pos token = Some n' \<and> but_tokens n n' \<and> node_token n' pos = Some token"
  using assms by (auto simp: node_set_token_def but_tokens_def node_token_def)

lemma put_token_runs:
  assumes "rs_wf state" "rq_heap q p = Some n"
  shows "\<exists>pos n'. pos \<in> {0, 1, 2} \<and> but_tokens n n' \<and> node_token n' pos = Some token \<and>
    regi_put_token q p state token = Some (pos, q\<lparr>rq_heap := (rq_heap q)(p \<mapsto> n')\<rparr>)"
proof -
  obtain cur where cur: "node_token n (rs_token_write_pos state) = Some cur"
    using node_token_wf [OF assms(1)] by blast
  show ?thesis
  proof (cases "token = cur")
    case True
    then show ?thesis
      using assms cur
      by (intro exI [of _ "rs_token_write_pos state"] exI [of _ n])
        (simp add: rs_wf_def but_tokens_def map_upd_triv regi_put_token_def rq_node_def Let_def)
  next
    case False
    obtain pos where pos: "rs_next_token_pos state = Some pos" "pos \<in> {0, 1, 2}"
      using next_token_pos_fresh [OF assms(1)] by blast
    obtain n' where n': "node_set_token n pos token = Some n'" "but_tokens n n'"
      "node_token n' pos = Some token" using set_token_runs [OF pos(2)] by blast
    then show ?thesis
      using False pos assms(2) cur
      by (intro exI [of _ pos] exI [of _ n']) (simp add: rq_node_def regi_put_token_def Let_def)
  qed
qed

text \<open>The node an update leaves, before it is enqueued.\<close>

lemma update_runs:
  assumes "rq_heap q p = Some n" "nd_queue n = None \<or> nd_queue n = Some (rq_addr q)"
    "\<not> nd_update_lock n" "rs_wf (nd_state n)" "\<not> rs_is_dropped (nd_state n)"
    "ready_fits i" "opt_fits opt"
  shows "\<exists>t m. rs_view t = (rs_view (nd_state n))\<lparr>v_interest := i, v_opt := opt,
      v_wr := rs_token_write_pos t,
      v_queued := rs_is_queued (nd_state n) \<or>
        \<not> ready_is_empty (ready_bitand (rs_readiness (nd_state n)) i)\<rparr> \<and>
    rs_token_write_pos t \<in> {0, 1, 2} \<and> node_token m (rs_token_write_pos t) = Some token \<and>
    but_tokens ((attached (rq_addr q) n)\<lparr>nd_state := t\<rparr>) m \<and>
    (let q' = q\<lparr>rq_arc := attach_arcs q n\<rparr> in
     regi_update wr q p token i opt job =
       (if \<not> rs_is_queued (nd_state n) \<and> rs_is_queued t
        then enqueue_with_wakeup wr
          (q'\<lparr>rq_heap := (rq_heap q')(p \<mapsto> m\<lparr>nd_job := job\<rparr>)\<rparr>) (Some (rq_addr q)) p
        else Some (Inr (), q'\<lparr>rq_heap := (rq_heap q')(p \<mapsto> m)\<rparr>)))"
proof -
  let ?s = "nd_state n" and ?a = "attached (rq_addr q) n"
  let ?q1 = "q\<lparr>rq_heap := (rq_heap q)(p \<mapsto> ?a), rq_arc := attach_arcs q n\<rparr>"
  let ?l = "?a\<lparr>nd_update_lock := True\<rparr>"
  let ?q2 = "q\<lparr>rq_arc := attach_arcs q n, rq_heap := (rq_heap q)(p \<mapsto> ?l)\<rparr>"
  have a: "nd_state ?a = ?s" "nd_update_lock ?a = False" using assms(3) by (simp_all add: attached_def)
  have hl: "rq_heap ?q2 p = Some ?l" by simp
  obtain pos n' where tok: "pos \<in> {0, 1, 2}" "but_tokens ?l n'" "node_token n' pos = Some token"
    "regi_put_token ?q2 p ?s token = Some (pos, ?q2\<lparr>rq_heap := (rq_heap ?q2)(p \<mapsto> n')\<rparr>)"
    using put_token_runs [OF assms(4) hl, of token] by blast
  obtain t where t: "update_body (rs_token_write_pos ?s) pos i opt ?s = Some (Inr t)"
    "rs_view t = (rs_view ?s)\<lparr>v_interest := i, v_opt := opt, v_wr := pos,
      v_queued := rs_is_queued ?s \<or> \<not> ready_is_empty (ready_bitand (rs_readiness ?s) i)\<rparr>"
    using update_view [OF assms(6,7) tok(1) assms(5)] by blast
  have wt: "rs_token_write_pos t = pos" using t(2) view_reads(5) [of t] by simp
  let ?m = "n'\<lparr>nd_state := t, nd_update_lock := False\<rparr>"
  have m: "but_tokens (?a\<lparr>nd_state := t\<rparr>) ?m" "node_token ?m pos = Some token"
    using tok(2,3) a by (cases n', cases ?a, auto simp: but_tokens_def node_token_def split: if_splits)
  let ?q' = "q\<lparr>rq_arc := attach_arcs q n\<rparr>"
  have "regi_update wr q p token i opt job =
       (if \<not> rs_is_queued ?s \<and> rs_is_queued t
        then enqueue_with_wakeup wr
          (?q'\<lparr>rq_heap := (rq_heap ?q')(p \<mapsto> ?m\<lparr>nd_job := job\<rparr>)\<rparr>) (Some (rq_addr q)) p
        else Some (Inr (), ?q'\<lparr>rq_heap := (rq_heap ?q')(p \<mapsto> ?m)\<rparr>))"
    using attach_runs [OF assms(1,2)] a tok(4) t(1)
    by (simp add: regi_update_def rq_node_def Let_def cas_loop_alone)
  then show ?thesis
    using t(2) wt tok(1) m by (intro exI [of _ t] exI [of _ ?m]) (simp add: Let_def)
qed

lemma node_token_fields [simp]:
  "node_token (unlink n) pos = node_token n pos"
  "node_token (n\<lparr>nd_job := j\<rparr>) pos = node_token n pos"
  "node_token (n\<lparr>nd_state := s\<rparr>) pos = node_token n pos"
  by (simp_all add: node_token_def)

lemma attached_inv:
  assumes "node_inv a h inq n" "\<not> rs_is_dropped (nd_state n)"
  shows "nd_queue (attached a n) = Some a" "nd_next (attached a n) = nd_next n"
    "unat (nd_ref_count (attached a n)) = unat (nd_ref_count n) + of_bool (nd_queue n = None)"
    "nd_job (attached a n) = nd_job n"
proof -
  have "nd_queue n = None \<or> nd_queue n = Some a" and
    u: "h_count h \<le> 2 ^ 63" "unat (nd_ref_count n) = h_count h + of_bool (queue_claim inq n)"
    using assms(1) by (simp_all add: node_inv_def node_shape_def)
  then show "nd_queue (attached a n) = Some a" by (cases "nd_queue n") (simp_all add: attached_def)
  have "unat (nd_ref_count n) + 1 < 2 ^ 64" using u by (simp split: if_splits)
  then have "unat (nd_ref_count n + 1) = unat (nd_ref_count n) + 1"
    by (simp add: unat_word_ariths)
  then show "unat (nd_ref_count (attached a n)) =
      unat (nd_ref_count n) + of_bool (nd_queue n = None)"
    by (simp add: attached_def)
qed (simp_all add: attached_def)

lemma update_spec:
  assumes "rq_holds q ps" "all_inv q hs ps" "h_reg (hs p)" "ready_fits i" "opt_fits opt"
  shows "\<exists>n res q' m. rq_heap q p = Some n \<and>
    regi_update wr q p token i opt job = Some (res, q') \<and>
    (let ps' = reg_put ps p (\<not> ready_is_empty (ready_bitand (rs_readiness (nd_state n)) i)) in
     rq_holds q' ps' \<and> all_inv q' hs ps' \<and> rq_place q' = rq_place q \<and>
     rq_nodes q' = (rq_nodes q)(p \<mapsto> m) \<and> nd_queue m = Some (rq_addr q) \<and>
     rs_view (nd_state m) = (rs_view (nd_state n))\<lparr>v_interest := i, v_opt := opt,
       v_wr := rs_token_write_pos (nd_state m), v_queued := p \<in> set ps'\<rparr> \<and>
     node_token m (rs_token_write_pos (nd_state m)) = Some token \<and>
     nd_job m = (if ps' = ps then nd_job n else job) \<and> (ps' = ps \<longrightarrow> res = Inr ()))"
proof -
  have "0 < h_count (hs p)" using assms(3) by (simp add: h_count_def)
  then obtain n where n: "rq_heap q p = Some n" "p \<notin> rq_markers q"
    "node_inv (rq_addr q) (hs p) (p \<in> set ps) n" using all_inv_handle [OF assms(2)] by blast
  let ?s = "nd_state n" and ?a = "attached (rq_addr q) n"
  let ?f = "\<not> ready_is_empty (ready_bitand (rs_readiness ?s) i)"
  let ?q = "q\<lparr>rq_arc := attach_arcs q n\<rparr>"
  have sh: "nd_queue n = None \<or> nd_queue n = Some (rq_addr q)" "\<not> nd_update_lock n" "rs_wf ?s"
    "\<not> rs_is_dropped ?s" "rs_is_queued ?s = (p \<in> set ps)"
    using n(3) assms(3) by (auto simp: node_inv_def node_shape_def)
  note att = attached_inv [OF n(3) sh(4)]
  obtain t m where t: "rs_view t = (rs_view ?s)\<lparr>v_interest := i, v_opt := opt,
      v_wr := rs_token_write_pos t, v_queued := rs_is_queued ?s \<or> ?f\<rparr>"
    "rs_token_write_pos t \<in> {0, 1, 2}" "node_token m (rs_token_write_pos t) = Some token"
    "but_tokens (?a\<lparr>nd_state := t\<rparr>) m"
    and run: "regi_update wr q p token i opt job =
       (if \<not> rs_is_queued ?s \<and> rs_is_queued t
        then enqueue_with_wakeup wr
          (?q\<lparr>rq_heap := (rq_heap ?q)(p \<mapsto> m\<lparr>nd_job := job\<rparr>)\<rparr>) (Some (rq_addr q)) p
        else Some (Inr (), ?q\<lparr>rq_heap := (rq_heap ?q)(p \<mapsto> m)\<rparr>))"
    using update_runs [OF n(1) sh(1-4) assms(4,5), of token wr job] by (auto simp: Let_def)
  have mf: "nd_state m = t" "nd_next m = nd_next n" "nd_queue m = Some (rq_addr q)"
    "\<not> nd_update_lock m" "nd_job m = nd_job n"
    "unat (nd_ref_count m) = unat (nd_ref_count n) + of_bool (nd_queue n = None)"
    using but_tokens_fields [OF t(4)] att sh(2) by (auto simp: attached_def)
  have minv: "node_inv (rq_addr q) (hs p) (p \<in> set ps \<or> ?f) m"
    by (rule node_inv_word [OF n(3) sh(4)]) (use mf t(1,2) in \<open>simp_all add: view_reads\<close>)
  then have jinv: "node_inv (rq_addr q) (hs p) (p \<in> set ps \<or> ?f) (m\<lparr>nd_job := job\<rparr>)"
    by (simp add: node_inv_def node_shape_def queue_claim_def)
  have qt: "rs_is_queued t = (p \<in> set ps \<or> ?f)"
    using t(1) sh(5) view_reads(6) [of t] by simp
  have base: "rq_holds ?q ps" "all_inv ?q hs ps" "rq_heap ?q p = Some n" "p \<notin> rq_markers ?q"
    using assms(1,2) n(1,2) by simp_all
  show ?thesis
  proof (cases "p \<notin> set ps \<and> ?f")
    case new: True
    let ?j = "m\<lparr>nd_job := job\<rparr>"
    have jn: "nd_next ?j = nd_next n" using mf(2) by simp
    obtain res q' where q': "enqueue_node_with_wakeup wr
        (?q\<lparr>rq_heap := (rq_heap ?q)(p \<mapsto> ?j)\<rparr>) p = Some (res, q')"
      "rq_holds q' (ps @ [p])" "all_inv q' hs (ps @ [p])" "rq_place q' = rq_place q"
      "rq_nodes q' = (rq_nodes q)(p \<mapsto> unlink ?j)"
      using swap_inv(1) [OF base _ jn new, of wr] jinv by auto
    have "regi_update wr q p token i opt job = Some (res, q')"
      using run new sh(5) qt q'(1) by (simp add: enqueue_with_wakeup_def)
    moreover have "node_token (unlink ?j) (rs_token_write_pos t) = Some token"
      using t(3) by simp
    ultimately show ?thesis
      using q' n(1) new t(1) mf by (auto simp: reg_put_def Let_def intro!: exI [of _ "unlink ?j"])
  next
    case old: False
    let ?q' = "?q\<lparr>rq_heap := (rq_heap ?q)(p \<mapsto> m)\<rparr>"
    have "regi_update wr q p token i opt job = Some (Inr (), ?q')"
      using run old sh(5) qt by auto
    moreover have "rq_holds ?q' ps" "all_inv ?q' hs ps"
      using swap_inv(2) [OF base _ mf(2) old] minv by auto
    moreover have "rq_place ?q' = rq_place q" "rq_nodes ?q' = (rq_nodes q)(p \<mapsto> unlink m)"
      using rq_nodes_upd [of ?q p m] by (simp_all add: rq_place_def)
    moreover have "(rs_is_queued ?s \<or> ?f) = (p \<in> set ps)" using sh(5) old by auto
    moreover have "node_token (unlink m) (rs_token_write_pos t) = Some token"
      using t(3) by simp
    ultimately show ?thesis
      using n(1) old t(1) mf by (auto simp: reg_put_def Let_def intro!: exI [of _ "unlink m"])
  qed
qed

lemma fresh_contents:
  assumes "rq_holds q ps" "p \<notin> dom (rq_heap q)"
  shows "p \<notin> rq_markers q" "p \<notin> set ps"
    "rq_holds (q\<lparr>rq_heap := (rq_heap q)(p \<mapsto> n), rq_arc := arcs\<rparr>) ps"
proof -
  show p: "p \<notin> rq_markers q" "p \<notin> set ps" using rq_contents_set [OF assms(1)] assms(2) by auto
  show "rq_holds (q\<lparr>rq_heap := (rq_heap q)(p \<mapsto> n), rq_arc := arcs\<rparr>) ps"
    by (rule release_contents [OF assms(1) p]) simp
qed

lemma new_spec:
  assumes "rq_holds q ps" "all_inv q hs ps" "p \<notin> dom (rq_heap q)"
    and n: "node_inv (rq_addr q) h False n"
    and q': "q' = q\<lparr>rq_heap := (rq_heap q)(p \<mapsto> n), rq_arc := arcs\<rparr>"
  shows "rq_holds q' ps \<and> all_inv q' (hs(p := h)) ps"
proof -
  note f = fresh_contents [OF assms(1,3)]
  have "rq_place q' = rq_place q" "rq_nodes q' = (rq_nodes q)(p \<mapsto> unlink n)"
    unfolding q' using rq_nodes_upd [of q p n] by (simp_all add: rq_place_def rq_nodes_def)
  from all_inv_step [OF assms(2) this f(1), of ps h] n f(2)
  have "all_inv q' (hs(p := h)) ps" by simp
  then show ?thesis using f(3) unfolding q' by blast
qed

lemma node_new_inv:
  assumes "ready_fits i" "opt_fits opt" "queue = None \<Longrightarrow> i = ready_empty"
    "queue = None \<or> queue = Some a" "unat refs = 2 + of_bool (queue \<noteq> None)"
  shows "\<exists>n. node_new queue token i opt refs = Some n \<and>
    node_inv a \<lparr>h_reg = True, h_set = 1\<rparr> False n"
proof -
  obtain s where s: "as_new i opt = Some s"
    "rs_view s = \<lparr>v_readiness = ready_empty, v_interest = i, v_opt = opt, v_rd = 0, v_wr = 0,
      v_queued = False, v_dropped = False\<rparr>"
    using rs_new_view [OF assms(1,2)] by (auto simp: as_new_def)
  have "0 < refs" using assms(5) by (simp add: word_less_nat_alt)
  then show ?thesis
    using s assms(3,4,5)
    by (simp add: node_new_def node_inv_def node_shape_view queue_claim_view h_count_def)
qed

lemma and_not_max: "r < 2 ^ 63 \<Longrightarrow> r AND NOT MAX_REFCOUNT = 0"
  using less_mask_eq [of r 63]
  by (metis MAX_REFCOUNT_def and.assoc and_zero_eq word_and_not)

lemma clone_spec:
  assumes "rq_holds q ps" "all_inv q hs ps" "0 < h_count (hs p)" "Suc (h_count (hs p)) < 2 ^ 63"
  shows "\<exists>q'. regi_clone q p = Some (p, q') \<and> rq_holds q' ps \<and>
    all_inv q' (hs(p := (hs p)\<lparr>h_set := Suc (h_set (hs p))\<rparr>)) ps"
proof -
  obtain n where n: "rq_heap q p = Some n" "p \<notin> rq_markers q"
    "node_inv (rq_addr q) (hs p) (p \<in> set ps) n" using all_inv_handle [OF assms(2,3)] by blast
  let ?h = "(hs p)\<lparr>h_set := Suc (h_set (hs p))\<rparr>"
  let ?m = "n\<lparr>nd_ref_count := nd_ref_count n + 1\<rparr>"
  let ?q = "q\<lparr>rq_heap := (rq_heap q)(p \<mapsto> ?m)\<rparr>"
  have u: "unat (nd_ref_count n) < 2 ^ 63"
    using n(3) assms(4) by (auto simp: node_inv_def split: if_splits)
  then have "nd_ref_count n < 2 ^ 63" by (simp add: word_less_nat_alt)
  then have run: "regi_clone q p = Some (p, ?q)"
    using n(1) and_not_max by (simp add: regi_clone_def rq_node_def Let_def)
  have u1: "unat (nd_ref_count n + 1) = unat (nd_ref_count n) + 1"
    using u by (simp add: unat_word_ariths)
  then have "0 < nd_ref_count n + 1" by (simp add: word_less_nat_alt)
  then have "node_inv (rq_addr q) ?h (p \<in> set ps) (unlink ?m)"
    using n(3) u1 assms(4) by (simp add: node_inv_def node_shape_def queue_claim_def h_count_def)
  then have "all_inv ?q (hs(p := ?h)) ps"
    using all_inv_step [OF assms(2) _ rq_nodes_upd n(2), of ?m ps ?h]
    by (simp add: rq_place_def)
  then show ?thesis using run write_alone [OF assms(1) n(1), of ?m] by simp
qed

text \<open>Giving up one handle of a node whose flags already say so.\<close>

lemma release_spec:
  assumes "rq_holds q ps" "all_inv q' hs' ps0" "rq_place q = rq_place q'"
    "rq_nodes q = (rq_nodes q')(p := v)" "rq_heap q p = Some n" "p \<notin> rq_markers q"
    "node_shape (rq_addr q) h (p \<in> set ps) n"
    "unat (nd_ref_count n) = Suc (h_count h + of_bool (queue_claim (p \<in> set ps) n))"
    "set ps - {p} = set ps0 - {p}"
  shows "\<exists>q2. release_node q p = Some q2 \<and> rq_holds q2 ps \<and> all_inv q2 (hs'(p := h)) ps"
proof -
  obtain q2 where q2: "release_node q p = Some q2"
    "rq_heap q2 = (rq_heap q)(p := node_released n)"
    "q2 = q\<lparr>rq_heap := rq_heap q2, rq_arc := rq_arc q2\<rparr>"
    using release_runs [OF assms(5)] by blast
  have q2': "q2 = q\<lparr>rq_heap := (rq_heap q)(p := node_released n), rq_arc := rq_arc q2\<rparr>"
    using q2(2,3) by simp
  note rel = inv_release [OF assms(7,8)]
  have "rq_holds q2 ps"
  proof (cases "node_released n")
    case None
    then have "p \<notin> set ps" using rel by simp
    then show ?thesis using release_contents [OF assms(1,6) _ q2'] by blast
  next
    case (Some m)
    then have "nd_next m = nd_next n" by (auto simp: node_released_def split: if_splits)
    then have "rq_holds (q\<lparr>rq_heap := (rq_heap q)(p \<mapsto> m)\<rparr>) ps"
      using write_contents [OF assms(5)] assms(1) by blast
    then show ?thesis by (subst q2') (simp add: Some)
  qed
  moreover have "all_inv q2 (hs'(p := h)) ps"
  proof (rule all_inv_step [OF assms(2)])
    show "rq_place q2 = rq_place q'" using assms(3) by (subst q2') (simp add: rq_place_def)
    then show "p \<notin> rq_markers q'" using assms(3,6) rq_place_eqs by metis
    have "rq_nodes q2 = (rq_nodes q)(p := map_option unlink (node_released n))"
      by (subst q2') (auto simp: rq_nodes_def fun_eq_iff)
    then show "rq_nodes q2 = (rq_nodes q')(p := node_released (unlink n))"
      using assms(4) by (simp add: node_released_link)
    have "rq_addr q' = rq_addr q" using assms(3) rq_place_eqs by metis
    then show "case node_released (unlink n) of
        None \<Rightarrow> h = no_handles | Some m \<Rightarrow> node_inv (rq_addr q') h (p \<in> set ps) m"
      using rel by (simp add: node_released_link [symmetric] split: option.splits)
  qed (rule assms(9))
  ultimately show ?thesis using q2(1) by blast
qed

lemma set_drop_spec:
  assumes "rq_holds q ps" "all_inv q hs ps" "0 < h_set (hs p)"
  shows "\<exists>q'. regi_drop q p = Some q' \<and> rq_holds q' ps \<and>
    all_inv q' (hs(p := (hs p)\<lparr>h_set := h_set (hs p) - 1\<rparr>)) ps"
proof -
  have "0 < h_count (hs p)" using assms(3) by (simp add: h_count_def)
  then obtain n where n: "rq_heap q p = Some n" "p \<notin> rq_markers q"
    "node_inv (rq_addr q) (hs p) (p \<in> set ps) n" using all_inv_handle [OF assms(2)] by blast
  let ?h = "(hs p)\<lparr>h_set := h_set (hs p) - 1\<rparr>"
  have c: "h_count (hs p) = Suc (h_count ?h)" using assms(3) by (simp add: h_count_def)
  have "node_shape (rq_addr q) ?h (p \<in> set ps) n"
    using n(3) c by (simp add: node_inv_def node_shape_def)
  moreover have "unat (nd_ref_count n) = Suc (h_count ?h + of_bool (queue_claim (p \<in> set ps) n))"
    using n(3) c by (simp add: node_inv_def)
  ultimately show ?thesis
    using release_spec [OF assms(1,2) refl _ n(1,2), of "rq_nodes q p" ?h]
    by (simp add: regi_drop_def)
qed

lemma node_shape_unlink [simp]: "node_shape a h i (unlink n) = node_shape a h i n"
  and queue_claim_unlink [simp]: "queue_claim i (unlink n) = queue_claim i n"
  by (simp_all add: node_shape_def queue_claim_def)

text \<open>The flags are set, then the node is enqueued if it was not, then let go.\<close>

lemma dropped_release:
  assumes "rq_holds q' ps'" "all_inv q hs ps" "rq_place q' = rq_place q"
    "rq_nodes q' = (rq_nodes q)(p \<mapsto> unlink m)" "p \<notin> rq_markers q"
    "node_shape (rq_addr q) h (p \<in> set ps') m"
    "unat (nd_ref_count m) = Suc (h_count h + of_bool (queue_claim (p \<in> set ps') m))"
    "set ps' - {p} = set ps - {p}"
  shows "\<exists>q2. regi_drop q' p = Some q2 \<and> rq_holds q2 ps' \<and> all_inv q2 (hs(p := h)) ps'"
proof -
  have "rq_nodes q' p = Some (unlink m)" using assms(4) by simp
  then obtain n where n: "rq_heap q' p = Some n" "unlink m = unlink n"
    using rq_nodes_Some by blast
  have e: "rq_addr q' = rq_addr q" "rq_markers q' = rq_markers q"
    using rq_place_eqs [OF assms(3)] by auto
  have "node_shape (rq_addr q') h (p \<in> set ps') n"
    using assms(6) e(1) node_shape_unlink [of "rq_addr q" h "p \<in> set ps'" n, folded n(2)] by simp
  moreover have "nd_ref_count n = nd_ref_count m"
    using arg_cong [OF n(2), of nd_ref_count] by simp
  then have "unat (nd_ref_count n) = Suc (h_count h + of_bool (queue_claim (p \<in> set ps') n))"
    using assms(7) queue_claim_unlink [of "p \<in> set ps'" n, folded n(2)] by simp
  ultimately show ?thesis
    using release_spec [OF assms(1,2,3,4) n(1)] assms(5,8) e(2) by (simp add: regi_drop_def)
qed

lemma reg_drop_spec:
  assumes "rq_holds q ps" "all_inv q hs ps" "h_reg (hs p)"
  shows "\<exists>n q'. rq_heap q p = Some n \<and> reg_drop wr q p = Some q' \<and>
    (let ps' = reg_put ps p (nd_queue n \<noteq> None) in
     rq_holds q' ps' \<and> all_inv q' (hs(p := (hs p)\<lparr>h_reg := False\<rparr>)) ps')"
proof -
  have "0 < h_count (hs p)" using assms(3) by (simp add: h_count_def)
  then obtain n where n: "rq_heap q p = Some n" "p \<notin> rq_markers q"
    "node_inv (rq_addr q) (hs p) (p \<in> set ps) n" using all_inv_handle [OF assms(2)] by blast
  let ?s = "nd_state n" and ?h = "(hs p)\<lparr>h_reg := False\<rparr>"
  let ?t = "?s OR (DROPPED_MASK OR QUEUED_MASK)"
  let ?m = "n\<lparr>nd_state := ?t\<rparr>"
  let ?q = "q\<lparr>rq_heap := (rq_heap q)(p \<mapsto> ?m)\<rparr>"
  have sh: "nd_queue n = None \<or> nd_queue n = Some (rq_addr q)" "\<not> rs_is_dropped ?s"
    "rs_is_queued ?s = (p \<in> set ps)" "p \<in> set ps \<Longrightarrow> nd_queue n \<noteq> None"
    using n(3) assms(3) by (auto simp: node_inv_def node_shape_def)
  have c: "h_count (hs p) = Suc (h_count ?h)" using assms(3) by (simp add: h_count_def)
  have flag: "as_flag_as_dropped ?s = Some (p \<notin> set ps, ?t)"
    using sh(2,3) by (simp add: as_flag_as_dropped_def Let_def)
  have shape: "node_shape (rq_addr q) ?h (nd_queue n \<noteq> None) ?m"
    using n(3) c by (simp add: node_inv_def node_shape_view view_or_dropped)
  have count: "unat (nd_ref_count ?m) = Suc (h_count ?h + of_bool (queue_claim (nd_queue n \<noteq> None) ?m))"
    using n(3) c sh(2) by (simp add: node_inv_def queue_claim_def)
  have m: "nd_next ?m = nd_next n" by simp
  note w = write_alone [OF assms(1) n(1) m]
  have run: "reg_drop wr q p = Option.bind
      (if p \<notin> set ps then Option.bind (node_enqueue_with_wakeup wr ?q p) (\<lambda>(_, q). Some q)
       else Some ?q) (\<lambda>q. regi_drop q p)"
    using n(1) flag by (simp add: reg_drop_def rq_node_def)
  show ?thesis
  proof (cases "p \<notin> set ps \<and> nd_queue n \<noteq> None")
    case True
    then have nq: "nd_queue n = Some (rq_addr q)" using sh(1) by auto
    obtain r q1 where q1: "enqueue_node_with_wakeup wr ?q p = Some (r, q1)"
      "rq_holds q1 (ps @ [p])" "rq_place q1 = rq_place q" "rq_nodes q1 = (rq_nodes q)(p \<mapsto> unlink ?m)"
      using write_enqueue [OF assms(1) n(1,2) _ m, of wr] True by blast
    have "node_enqueue_with_wakeup wr ?q p = Some (r, q1)"
      using q1(1) nq by (simp add: node_enqueue_with_wakeup_def rq_node_def enqueue_with_wakeup_def)
    then have r: "reg_drop wr q p = regi_drop q1 p" using run True by simp
    have "p \<in> set (ps @ [p])" by simp
    then show ?thesis
      using dropped_release [OF q1(2) assms(2) q1(3,4) n(2), of ?h] shape count True n(1) r
      by (auto simp: reg_put_def Let_def)
  next
    case False
    then have in_ps: "(p \<in> set ps) = (nd_queue n \<noteq> None)" using sh(4) by auto
    have "node_enqueue_with_wakeup wr ?q p = Some (Inr (), ?q)" if "p \<notin> set ps"
      using that in_ps by (simp add: node_enqueue_with_wakeup_def rq_node_def)
    then have r: "reg_drop wr q p = regi_drop ?q p" using run by simp
    show ?thesis
      using dropped_release [of ?q ps q hs ps p ?m ?h] w assms(2) n(2) shape count in_ps n(1) r False
      by (auto simp: reg_put_def Let_def)
  qed
qed

section \<open>Polling keeps the invariant\<close>

lemma polled_inv:
  assumes "node_inv a h True n"
  shows "case polled n of None \<Rightarrow> h = no_handles | Some m \<Rightarrow> node_inv a h (requeued n) m"
proof (cases "rs_is_dropped (nd_state n)")
  case True
  have "node_shape a h False n"
    using assms True by (simp add: node_inv_def node_shape_def)
  moreover have "unat (nd_ref_count n) = Suc (h_count h + of_bool (queue_claim False n))"
    using assms True by (simp add: node_inv_def node_shape_def queue_claim_def)
  ultimately show ?thesis
    using inv_release [of a h False n] True
    by (simp add: polled_def requeued_def split: option.splits)
next
  case False
  let ?m = "n\<lparr>nd_state := poll_next (nd_state n),
    nd_job := (if ready_is_empty (rs_effective_readiness (nd_state n)) then nd_job n else NullJob)\<rparr>"
  have q: "nd_queue n \<noteq> None" "node_ok n"
    using assms by (simp_all add: node_inv_def node_shape_def node_ok_def)
  have d: "rs_is_dropped (poll_next (nd_state n)) = rs_is_dropped (nd_state n)"
    using view_reads(7) [of "poll_next (nd_state n)"] view_poll_next [of "nd_state n"]
    by (simp add: Let_def view_reads)
  have "node_shape a h (requeued n) ?m"
    using assms q False d requeued_next [OF q(2) False] poll_next_wf [of "nd_state n"]
    by (simp add: node_inv_def node_shape_def)
  moreover have "queue_claim (requeued n) ?m" "queue_claim True n"
    using q(1) d False by (simp_all add: queue_claim_def)
  ultimately show ?thesis
    using assms False by (simp add: polled_def node_inv_def)
qed

lemma poll_spec:
  assumes "rq_holds q ps" "all_inv q hs ps" "se_len dst \<le> se_capacity dst"
  shows "\<exists>q' dst' ps'. rq_poll q dst = Some (q', dst') \<and> rq_holds q' ps' \<and> all_inv q' hs ps' \<and>
    se_len dst' \<le> se_capacity dst'"
proof -
  note set = rq_contents_set [OF assms(1)]
  have inq: "\<exists>n. rq_nodes q p = Some n \<and> node_inv (rq_addr q) (hs p) True n" if "p \<in> set ps" for p
  proof -
    have "p \<notin> rq_markers q" "rq_nodes q p \<noteq> None"
      using that set(1,3) rq_nodes_dom [of q] by auto
    then show ?thesis using all_inv_node [OF assms(2)] that by fastforce
  qed
  have "nodes_ok (rq_nodes q) ps"
    using inq by (fastforce simp: nodes_ok_def node_ok_def node_inv_def node_shape_def)
  then obtain don rest q' dst' where r: "ps = don @ rest" "rq_poll q dst = Some (q', dst')"
    "rq_holds q' (rest @ requeues (rq_nodes q) don)"
    "poll_effect don (rq_nodes q) (rq_arc q) q'" "rq_static q q'"
    "se_len dst' \<le> se_capacity dst'"
    using poll_prefix [OF assms(1) _ assms(3)] by blast
  have place: "rq_addr q' = rq_addr q" "rq_markers q' = rq_markers q"
    using rq_place_eqs [OF rq_place_of(2) [OF r(5)]] by auto
  let ?ps = "rest @ requeues (rq_nodes q) don"
  have "case rq_nodes q' x of None \<Rightarrow> hs x = no_handles
      | Some n \<Rightarrow> node_inv (rq_addr q') (hs x) (x \<in> set ?ps) n" if x: "x \<notin> rq_markers q" for x
  proof (cases "x \<in> set don")
    case True
    obtain n where n: "rq_nodes q x = Some n" "node_inv (rq_addr q) (hs x) True n"
      using inq [of x] True r(1) by auto
    have "(x \<in> set ?ps) = requeued n"
      using True set(2) r(1) n(1) by (auto simp: requeues_def)
    moreover have "rq_nodes q' x = polled n" using r(4) True n(1) by (simp add: poll_effect_def)
    ultimately show ?thesis
      using polled_inv [OF n(2)] place(1) by (cases "polled n") simp_all
  next
    case False
    then have "(x \<in> set ?ps) = (x \<in> set ps)" using r(1) by (auto simp: requeues_def)
    moreover have "rq_nodes q' x = rq_nodes q x" using r(4) False by (simp add: poll_effect_def)
    ultimately show ?thesis
      using all_inv_node [OF assms(2) x] place(1) by (cases "rq_nodes q x") simp_all
  qed
  then have "all_inv q' hs ?ps" using assms(2) place by (simp add: all_inv_def)
  then show ?thesis using r(2,3,6) by blast
qed

section \<open>Programs over registrations\<close>

text \<open>
  A client holds handles and calls their methods in any order; \<open>reg_exec\<close> runs one call,
  \<open>reg_allowed\<close> says what a safe Rust client can do: use a handle it has, give each new
  node a fresh address (the allocator's promise), and pass readiness that fits the four
  bits. Clones stop well before \<^verbatim>\<open>MAX_REFCOUNT\<close>, where the code aborts the process.
\<close>

datatype reg_op =
    New2 ptr
  | New ptr token_entry ready poll_opt
  | SetReady ptr ready
  | Update ptr token_entry ready poll_opt job
  | Deregister ptr
  | CloneSet ptr
  | DropSet ptr
  | DropReg ptr
  | PollQueue nat
  | Sleep

fun reg_exec ::
  "'p pipe_write \<Rightarrow> reg_op \<Rightarrow> 'p rq \<times> (ptr \<Rightarrow> handles) \<Rightarrow> ('p rq \<times> (ptr \<Rightarrow> handles)) option" where
  "reg_exec wr (New2 p) (q, hs) = do {
     q \<leftarrow> reg_new2 q p;
     Some (q, hs(p := \<lparr>h_reg = True, h_set = 1\<rparr>))
   }"
| "reg_exec wr (New p token interest opt) (q, hs) = do {
     q \<leftarrow> reg_new q p token interest opt;
     Some (q, hs(p := \<lparr>h_reg = True, h_set = 1\<rparr>))
   }"
| "reg_exec wr (SetReady p r) (q, hs) = do {
     (_, q) \<leftarrow> sr_set_readiness wr q p r;
     Some (q, hs)
   }"
| "reg_exec wr (Update p token interest opt job) (q, hs) = do {
     (_, q) \<leftarrow> reg_update wr q p token interest opt job;
     Some (q, hs)
   }"
| "reg_exec wr (Deregister p) (q, hs) = do {
     (_, q) \<leftarrow> reg_deregister wr q p;
     Some (q, hs)
   }"
| "reg_exec wr (CloneSet p) (q, hs) = do {
     (_, q) \<leftarrow> regi_clone q p;
     Some (q, hs(p := (hs p)\<lparr>h_set := Suc (h_set (hs p))\<rparr>))
   }"
| "reg_exec wr (DropSet p) (q, hs) = do {
     q \<leftarrow> regi_drop q p;
     Some (q, hs(p := (hs p)\<lparr>h_set := h_set (hs p) - 1\<rparr>))
   }"
| "reg_exec wr (DropReg p) (q, hs) = do {
     q \<leftarrow> reg_drop wr q p;
     Some (q, hs(p := (hs p)\<lparr>h_reg := False\<rparr>))
   }"
| "reg_exec wr (PollQueue cap) (q, hs) = do {
     (q, _) \<leftarrow> rq_poll q (se_with_capacity cap);
     Some (q, hs)
   }"
| "reg_exec wr Sleep (q, hs) = do {
     (_, q) \<leftarrow> prepare_for_sleep q;
     Some (q, hs)
   }"

fun reg_allowed :: "reg_op \<Rightarrow> 'p rq \<times> (ptr \<Rightarrow> handles) \<Rightarrow> bool" where
  "reg_allowed (New2 p) (q, hs) = (p \<notin> dom (rq_heap q))"
| "reg_allowed (New p token interest opt) (q, hs) =
     (p \<notin> dom (rq_heap q) \<and> ready_fits interest \<and> opt_fits opt)"
| "reg_allowed (SetReady p r) (q, hs) = (0 < h_set (hs p) \<and> ready_fits r)"
| "reg_allowed (Update p token interest opt job) (q, hs) =
     (h_reg (hs p) \<and> ready_fits interest \<and> opt_fits opt)"
| "reg_allowed (Deregister p) (q, hs) = h_reg (hs p)"
| "reg_allowed (CloneSet p) (q, hs) = (0 < h_set (hs p) \<and> Suc (h_count (hs p)) < 2 ^ 63)"
| "reg_allowed (DropSet p) (q, hs) = (0 < h_set (hs p))"
| "reg_allowed (DropReg p) (q, hs) = h_reg (hs p)"
| "reg_allowed (PollQueue cap) (q, hs) = True"
| "reg_allowed Sleep (q, hs) = True"

inductive reg_reach :: "'p pipe_write \<Rightarrow> 'p rq \<times> (ptr \<Rightarrow> handles) \<Rightarrow> bool" for wr where
  start: "rq_new (Inr pipe) Map.empty arcs a e s c = Some (Inr q) \<Longrightarrow> distinct [e, s, c] \<Longrightarrow>
    reg_reach wr (q, \<lambda>_. no_handles)"
| step: "reg_reach wr st \<Longrightarrow> reg_allowed op st \<Longrightarrow> reg_exec wr op st = Some st' \<Longrightarrow>
    reg_reach wr st'"

lemma empty_fits: "ready_fits ready_empty" "opt_fits opt_empty"
  by (simp_all add: ready_fits_def opt_fits_def ready_empty_def opt_empty_def)

text \<open>One call: it returns, and the invariant holds for what it returns.\<close>

lemma exec_inv:
  assumes "rq_holds q ps" "all_inv q hs ps" "reg_allowed op (q, hs)"
  shows "\<exists>q' hs' ps'. reg_exec wr op (q, hs) = Some (q', hs') \<and> rq_holds q' ps' \<and>
    all_inv q' hs' ps'"
proof (cases op)
  case (New2 p)
  obtain n where n: "node_new None default_token ready_empty opt_empty 2 = Some n"
    "node_inv (rq_addr q) \<lparr>h_reg = True, h_set = 1\<rparr> False n"
    using node_new_inv [OF empty_fits, of None "rq_addr q" 2 default_token] by auto
  have "reg_new2 q p = Some (q\<lparr>rq_heap := (rq_heap q)(p \<mapsto> n), rq_arc := rq_arc q\<rparr>)"
    using n(1) by (simp add: reg_new2_def)
  then show ?thesis
    using new_spec [OF assms(1,2) _ n(2) refl] assms(3) New2 by auto
next
  case (New p token i opt)
  obtain n where n: "node_new (Some (rq_addr q)) token i opt 3 = Some n"
    "node_inv (rq_addr q) \<lparr>h_reg = True, h_set = 1\<rparr> False n"
    using node_new_inv [of i opt "Some (rq_addr q)" "rq_addr q" 3 token] assms(3) New by auto
  show ?thesis
    using new_spec [OF assms(1,2) _ n(2) refl] assms(3) New n(1)
    by (auto simp: reg_new_def reg_new_priv_def Let_def)
next
  case (SetReady p r)
  then have "0 < h_count (hs p)" "ready_fits r" using assms(3) by (simp_all add: h_count_def)
  then obtain res q' ps' where "regi_set_readiness wr q p r = Some (res, q')"
    "rq_holds q' ps'" "all_inv q' hs ps'"
    using set_readiness_spec [OF assms(1,2), of p r wr] by (auto simp: Let_def)
  then show ?thesis using SetReady by (auto simp: sr_set_readiness_def)
next
  case (Update p token i opt job)
  then obtain res q' ps' where "regi_update wr q p token i opt job = Some (res, q')"
    "rq_holds q' ps'" "all_inv q' hs ps'"
    using update_spec [OF assms(1,2), of p i opt wr token job] assms(3) by (auto simp: Let_def)
  then show ?thesis using Update by (auto simp: reg_update_def)
next
  case (Deregister p)
  then obtain res q' ps' where
    "regi_update wr q p default_token ready_empty opt_empty NullJob = Some (res, q')"
    "rq_holds q' ps'" "all_inv q' hs ps'"
    using update_spec [OF assms(1,2) _ empty_fits, of p wr default_token NullJob] assms(3)
    by (auto simp: Let_def)
  then show ?thesis using Deregister by (auto simp: reg_deregister_def)
next
  case (CloneSet p)
  then show ?thesis
    using clone_spec [OF assms(1,2), of p] assms(3) by (auto simp: h_count_def)
next
  case (DropSet p)
  then show ?thesis using set_drop_spec [OF assms(1,2), of p] assms(3) by auto
next
  case (DropReg p)
  then show ?thesis using reg_drop_spec [OF assms(1,2), of p wr] assms(3) by (auto simp: Let_def)
next
  case (PollQueue cap)
  have "se_len (se_with_capacity cap) \<le> se_capacity (se_with_capacity cap)"
    by (simp add: se_len_def se_capacity_def se_with_capacity_def)
  then show ?thesis using poll_spec [OF assms(1,2)] PollQueue by fastforce
next
  case Sleep
  obtain q' where q': "prepare_for_sleep q = Some (ps = [], q')" "rq_holds q' ps" "rq_frame q q'"
    using prepare_holds [OF assms(1)] by blast
  then have "all_inv q' hs ps"
    using assms(2) rq_frame_markers [OF q'(3)] by (simp add: all_inv_def rq_frame_def cong: option.case_cong)
  then show ?thesis using q' Sleep by auto
qed

lemma reach_inv: "reg_reach wr st \<Longrightarrow> \<exists>ps. rq_holds (fst st) ps \<and> all_inv (fst st) (snd st) ps"
proof (induction rule: reg_reach.induct)
  case (start pipe arcs a e s c q)
  obtain q' where q': "rq_new (Inr pipe) Map.empty arcs a e s c = Some (Inr q')" "rq_holds q' []"
    "rq_markers q' = {e, s, c}" "\<forall>p. p \<notin> {e, s, c} \<longrightarrow> rq_heap q' p = None"
    using rq_new_holds [OF start(2), of pipe Map.empty arcs a] by auto
  then have "all_inv q (\<lambda>_. no_handles) []"
    using start(1) by (simp add: all_inv_def rq_nodes_def)
  then show ?case using q'(1,2) start(1) by auto
next
  case (step st op st')
  then obtain ps where "rq_holds (fst st) ps" "all_inv (fst st) (snd st) ps" by blast
  then show ?case
    using exec_inv [of "fst st" ps "snd st" op wr] step.hyps by auto
qed

text \<open>A state to start from: the registration at 10 and one \<^verbatim>\<open>SetReadiness\<close> of it.\<close>

definition demo_handles :: "ptr \<Rightarrow> handles" where
  "demo_handles = (\<lambda>_. no_handles)(10 := \<lparr>h_reg = True, h_set = 1\<rparr>)"

lemma demo_reach:
  "\<exists>(q :: nat rq) n. reg_reach (demo_write 5) (q, demo_handles) \<and> rq_heap q 10 = Some n \<and>
    nd_job n = NullJob \<and> rs_readiness (nd_state n) = ready_empty \<and>
    \<not> rs_is_queued (nd_state n)"
proof -
  obtain q :: "nat rq" where q: "rq_new (Inr 0) Map.empty (\<lambda>_. 0) 7 0 1 2 = Some (Inr q)"
    "\<forall>p. p \<notin> {0, 1, 2} \<longrightarrow> rq_heap q p = None"
    using rq_new_holds [of 0 1 2 0 Map.empty "\<lambda>_. 0" 7] by auto
  have start: "reg_reach (demo_write 5) (q, \<lambda>_. no_handles)"
    by (rule reg_reach.start [OF q(1)]) simp
  obtain s where s: "as_new ready_empty opt_empty = Some s"
    "rs_view s = \<lparr>v_readiness = ready_empty, v_interest = ready_empty, v_opt = opt_empty,
      v_rd = 0, v_wr = 0, v_queued = False, v_dropped = False\<rparr>"
    using rs_new_view [OF empty_fits] by (auto simp: as_new_def)
  obtain n where n: "node_new None default_token ready_empty opt_empty 2 = Some n"
    "nd_job n = NullJob" "nd_state n = s"
    using s(1) by (simp add: node_new_def)
  let ?q = "q\<lparr>rq_heap := (rq_heap q)(10 \<mapsto> n)\<rparr>"
  have "reg_exec (demo_write 5) (New2 10) (q, \<lambda>_. no_handles) = Some (?q, demo_handles)"
    using n(1) by (simp add: reg_new2_def demo_handles_def)
  moreover have "reg_allowed (New2 10) (q, \<lambda>_. no_handles)" using q(2) by auto
  ultimately have "reg_reach (demo_write 5) (?q, demo_handles)"
    using reg_reach.step [OF start] by blast
  moreover have "rs_readiness s = ready_empty" "\<not> rs_is_queued s"
    using s(2) view_reads(1,6) [of s] by simp_all
  ultimately show ?thesis using n(2,3) by (intro exI [of _ ?q] exI [of _ n]) simp
qed

section \<open>Properties\<close>

text \<open>
  C1: No sequence of calls on registrations and their handles, polls and preparations
  for sleep in between, makes the code panic, fail an assertion, touch a freed node or
  loop: whatever the client may call next returns. What a client may call includes that
  readiness, interest and options fit four bits, which the code asserts.
\<close>

theorem registration_calls_return:
  assumes "reg_reach wr (q, hs)" "reg_allowed op (q, hs)"
  shows "\<exists>q' hs'. reg_exec wr op (q, hs) = Some (q', hs') \<and> reg_reach wr (q', hs')"
proof -
  obtain ps where "rq_holds q ps" "all_inv q hs ps" using reach_inv [OF assms(1)] by auto
  then show ?thesis using exec_inv [OF _ _ assms(2)] reg_reach.step [OF assms] by blast
qed

lemma registration_calls_return_witness:
  "\<exists>(q :: nat rq) q' hs'. reg_reach (demo_write 5) (q, demo_handles) \<and>
    reg_exec (demo_write 5) (DropReg 10) (q, demo_handles) = Some (q', hs')"
proof -
  obtain q :: "nat rq" where q: "reg_reach (demo_write 5) (q, demo_handles)"
    using demo_reach by blast
  have "reg_allowed (DropReg 10) (q, demo_handles)" by (simp add: demo_handles_def)
  then show ?thesis using q registration_calls_return [OF q] by blast
qed

text \<open>
  C2: Reference counting is exact in every reachable state: besides the markers, the
  nodes in memory are exactly those that some handle still names or that the queue has
  yet to let go, so nothing leaks and nothing is freed early; the count is the number of
  handles plus the reference of the queue.
\<close>

theorem registration_memory_exact:
  assumes "reg_reach wr (q, hs)"
  shows "\<exists>ps. rq_holds q ps \<and>
    (\<forall>p. p \<notin> rq_markers q \<longrightarrow> (rq_heap q p \<noteq> None) = (0 < h_count (hs p) \<or> p \<in> set ps)) \<and>
    (\<forall>p n. p \<notin> rq_markers q \<and> rq_heap q p = Some n \<longrightarrow>
      unat (nd_ref_count n) = h_set (hs p) + of_bool (h_reg (hs p)) +
        of_bool (nd_queue n \<noteq> None \<and> (h_reg (hs p) \<or> p \<in> set ps)))"
proof -
  obtain ps where ps: "rq_holds q ps" "all_inv q hs ps" using reach_inv [OF assms] by auto
  have inv: "node_inv (rq_addr q) (hs p) (p \<in> set ps) n"
    if "p \<notin> rq_markers q" "rq_heap q p = Some n" for p n
    using all_inv_node [OF ps(2) that(1)] that(2) by (simp add: rq_nodes_def)
  have "(rq_heap q p \<noteq> None) = (0 < h_count (hs p) \<or> p \<in> set ps)" if p: "p \<notin> rq_markers q" for p
  proof (cases "rq_heap q p")
    case None
    then have "hs p = no_handles" using all_inv_node [OF ps(2) p] by (simp add: rq_nodes_def)
    moreover have "p \<notin> set ps" using None rq_contents_set(1) [OF ps(1)] by auto
    ultimately show ?thesis using None by (simp add: no_handles_def h_count_def)
  next
    case (Some n)
    have "0 < h_count (hs p) + of_bool (queue_claim (p \<in> set ps) n)"
      using inv [OF p Some] by (auto simp: node_inv_def word_less_nat_alt)
    moreover have "queue_claim (p \<in> set ps) n \<Longrightarrow> 0 < h_count (hs p) \<or> p \<in> set ps"
      using inv [OF p Some] by (auto simp: node_inv_def node_shape_def queue_claim_def h_count_def)
    ultimately show ?thesis using Some by (auto split: if_splits)
  qed
  moreover have "unat (nd_ref_count n) = h_set (hs p) + of_bool (h_reg (hs p)) +
        of_bool (nd_queue n \<noteq> None \<and> (h_reg (hs p) \<or> p \<in> set ps))"
    if "p \<notin> rq_markers q" "rq_heap q p = Some n" for p n
    using inv [OF that] by (simp add: node_inv_def node_shape_def queue_claim_def h_count_def)
  ultimately show ?thesis using ps(1) by blast
qed

lemma registration_memory_exact_witness:
  "\<exists>(q :: nat rq) ps. reg_reach (demo_write 5) (q, demo_handles) \<and> rq_holds q ps"
proof -
  obtain q :: "nat rq" where q: "reg_reach (demo_write 5) (q, demo_handles)"
    using demo_reach by blast
  show ?thesis using q registration_memory_exact [OF q] by blast
qed

text \<open>
  C30: Readiness set on a live registration is never lost: the node reads it back, and it
  waits in the queue exactly when it waited there before or the new readiness meets its
  interest. The readiness fits the four bits of its field.
\<close>

theorem set_readiness_queues:
  assumes "reg_reach wr (q, hs)" "h_reg (hs p)" "ready_fits r" "rq_heap q p = Some n"
  shows "\<exists>res q' ps. sr_set_readiness wr q p r = Some (res, q') \<and>
    sr_readiness q' p = Some r \<and> rq_holds q' ps \<and>
    (p \<in> set ps) = (rs_is_queued (nd_state n) \<or>
      \<not> ready_is_empty (ready_bitand r (rs_interest (nd_state n))))"
proof -
  obtain ps where ps: "rq_holds q ps" "all_inv q hs ps" using reach_inv [OF assms(1)] by auto
  have c: "0 < h_count (hs p)" using assms(2) by (simp add: h_count_def)
  have inq: "rs_is_queued (nd_state n) = (p \<in> set ps)"
    using all_inv_handle [of q hs ps p, OF ps(2) c] assms(2,4)
    by (auto simp: node_inv_def node_shape_def)
  let ?ps = "reg_put ps p (\<not> ready_is_empty (ready_bitand r (rs_interest (nd_state n))))"
  obtain res q' m where q': "regi_set_readiness wr q p r = Some (res, q')" "rq_holds q' ?ps"
    "rq_nodes q' = (rq_nodes q)(p \<mapsto> m)"
    "rs_view (nd_state m) = (rs_view (nd_state n))\<lparr>v_readiness := r, v_queued := p \<in> set ?ps\<rparr>"
    using set_readiness_spec [OF ps c assms(3), of wr] assms(2,4) by (auto simp: Let_def)
  obtain m' where m': "rq_heap q' p = Some m'" "m = unlink m'"
    using rq_nodes_Some [of q' p m] q'(3) by auto
  have "rs_readiness (nd_state m') = r"
    using q'(4) m'(2) view_reads(1) [of "nd_state m'"] by simp
  then have "sr_readiness q' p = Some r"
    using m'(1) by (simp add: sr_readiness_def regi_readiness_def rq_node_def)
  then show ?thesis
    using q'(1,2) inq by (auto simp: sr_set_readiness_def reg_put_def intro!: exI [of _ ?ps])
qed

lemma set_readiness_queues_witness:
  "\<exists>(q :: nat rq) res q'. sr_set_readiness (demo_write 5) q 10 ready_readable = Some (res, q') \<and>
    sr_readiness q' 10 = Some ready_readable"
proof -
  obtain q :: "nat rq" and n where q: "reg_reach (demo_write 5) (q, demo_handles)"
    "rq_heap q 10 = Some n" using demo_reach by blast
  have "h_reg (demo_handles 10)" by (simp add: demo_handles_def)
  then show ?thesis
    using set_readiness_queues [OF q(1) _ demo_fits(1) q(2)] by blast
qed

text \<open>
  C31: The job given to an update is kept only if the update itself queues the node. When
  the readiness comes later, as it does for every source that is registered before it
  fires, the event carries the new token but still the old job, at first the empty one.
\<close>

theorem update_drops_job:
  assumes "reg_reach wr (q, hs)" "h_reg (hs p)" "rq_heap q p = Some n"
    "\<not> rs_is_queued (nd_state n)" "ready_fits i" "opt_fits opt" "ready_fits r"
    "ready_is_empty (ready_bitand (rs_readiness (nd_state n)) i)"
    "\<not> ready_is_empty (ready_bitand r i)"
  shows "\<exists>q1 res q2 m. reg_update wr q p token i opt job = Some (Inr (), q1) \<and>
    sr_set_readiness wr q1 p r = Some (res, q2) \<and> rq_nodes q2 p = Some m \<and>
    polled_entry m =
      Some \<lparr>je_token_entry = token, je_job = nd_job n, je_ready = ready_empty\<rparr>"
proof -
  obtain ps where ps: "rq_holds q ps" "all_inv q hs ps" using reach_inv [OF assms(1)] by auto
  have c: "0 < h_count (hs p)" using assms(2) by (simp add: h_count_def)
  have np: "p \<notin> set ps"
    using all_inv_handle [of q hs ps p, OF ps(2) c] assms(3,4)
    by (auto simp: node_inv_def node_shape_def)
  obtain q1 m1 where q1: "regi_update wr q p token i opt job = Some (Inr (), q1)"
    "rq_holds q1 ps" "all_inv q1 hs ps" "rq_nodes q1 = (rq_nodes q)(p \<mapsto> m1)"
    "rs_view (nd_state m1) = (rs_view (nd_state n))\<lparr>v_interest := i, v_opt := opt,
       v_wr := rs_token_write_pos (nd_state m1), v_queued := p \<in> set ps\<rparr>"
    "node_token m1 (rs_token_write_pos (nd_state m1)) = Some token" "nd_job m1 = nd_job n"
    using update_spec [OF ps assms(2,5,6), of wr token job] assms(3,8)
    by (auto simp: Let_def reg_put_def)
  obtain n1 where n1: "rq_heap q1 p = Some n1" "m1 = unlink n1"
    using rq_nodes_Some [of q1 p m1] q1(4) by auto
  have i: "rs_interest (nd_state n1) = i"
    using q1(5) n1(2) view_reads(2) [of "nd_state n1"] by simp
  obtain res q2 m where q2: "regi_set_readiness wr q1 p r = Some (res, q2)"
    "rq_nodes q2 = (rq_nodes q1)(p \<mapsto> m)"
    "rs_view (nd_state m) = (rs_view (nd_state n1))\<lparr>v_readiness := r, v_queued := True\<rparr>"
    "m = (unlink n1)\<lparr>nd_state := nd_state m\<rparr>"
    using set_readiness_spec [OF q1(2,3) c assms(7), of wr] assms(2,9) n1(1) i
    by (auto simp: Let_def reg_put_def)
  have live: "\<not> rs_is_dropped (nd_state n)"
    using all_inv_handle [of q hs ps p, OF ps(2) c] assms(2,3)
    by (auto simp: node_inv_def node_shape_def)
  have v: "rs_is_dropped (nd_state m) = rs_is_dropped (nd_state n)"
    "rs_effective_readiness (nd_state m) = ready_bitand r i"
    "rs_token_write_pos (nd_state m) = rs_token_write_pos (nd_state m1)"
    using q2(3) q1(5) n1(2) i view_reads [of "nd_state m"] view_reads [of "nd_state n1"]
      view_reads(7) [of "nd_state n"]
    by (simp_all add: rs_effective_view eff_def)
  have "node_token m (rs_token_write_pos (nd_state m1)) = Some token" "nd_job m = nd_job n"
    using q1(6,7) n1(2) arg_cong [OF q2(4), of nd_job]
      arg_cong [OF q2(4), of "\<lambda>n. node_token n (rs_token_write_pos (nd_state m1))"]
    by simp_all
  then have "polled_entry m =
      Some \<lparr>je_token_entry = token, je_job = nd_job n, je_ready = ready_empty\<rparr>"
    using live v assms(9) by (simp add: polled_entry_def)
  moreover have "rq_nodes q2 p = Some m" using q2(2) by simp
  ultimately show ?thesis
    using q1(1) q2(1) unfolding reg_update_def sr_set_readiness_def by blast
qed

lemma update_drops_job_witness:
  "\<exists>(q :: nat rq) q1 res q2 m e.
    reg_update (demo_write 5) q 10 default_token ready_readable opt_level (UserJob 3) =
      Some (Inr (), q1) \<and>
    sr_set_readiness (demo_write 5) q1 10 ready_readable = Some (res, q2) \<and>
    rq_nodes q2 10 = Some m \<and> polled_entry m = Some e \<and> je_job e = NullJob"
proof -
  obtain q :: "nat rq" and n where q: "reg_reach (demo_write 5) (q, demo_handles)"
    "rq_heap q 10 = Some n" "nd_job n = NullJob" "rs_readiness (nd_state n) = ready_empty"
    "\<not> rs_is_queued (nd_state n)" using demo_reach by blast
  have h: "h_reg (demo_handles 10)"
    "ready_is_empty (ready_bitand (rs_readiness (nd_state n)) ready_readable)"
    "\<not> ready_is_empty (ready_bitand ready_readable ready_readable)"
    by (simp add: demo_handles_def, simp add: q(4), code_simp)
  show ?thesis
    using update_drops_job [OF q(1) h(1) q(2,5) demo_fits(1,2) demo_fits(1) h(2,3),
        of default_token "UserJob 3"] q(3)
    by fastforce
qed

end
