(* ===== verification/Timer_Evented.thy ===== *)
theory Timer_Evented
  imports Wakeup_Thread Registration
begin

text \<open>
  The timer as an event source: its builder, and its \<^verbatim>\<open>Evented\<close> instance of
  \<^verbatim>\<open>src/timer.rs\<close>, which owns a registration and a \<^verbatim>\<open>SetReadiness\<close> in the readiness
  queue and lends a second \<^verbatim>\<open>SetReadiness\<close> to its thread.
\<close>

section \<open>Builder\<close>

record builder =
  b_tick :: duration
  b_num_slots :: usize
  b_capacity :: usize

definition tick_duration :: "duration \<Rightarrow> builder \<Rightarrow> builder" where
  "tick_duration d b = b\<lparr>b_tick := d\<rparr>"

definition builder_num_slots :: "usize \<Rightarrow> builder \<Rightarrow> builder" where
  "builder_num_slots n b = b\<lparr>b_num_slots := n\<rparr>"

definition builder_capacity :: "usize \<Rightarrow> builder \<Rightarrow> builder" where
  "builder_capacity n b = b\<lparr>b_capacity := n\<rparr>"

definition build :: "('s, 'e) slab_ops \<Rightarrow> builder \<Rightarrow> 's timer option" where
  "build sl b = timer_new sl (millis (b_tick b)) (b_num_slots b) (b_capacity b)"

definition builder_default :: builder where
  "builder_default = \<lparr>b_tick = \<lparr>dur_secs = 0, dur_nanos = 100000000\<rparr>, b_num_slots = 256, b_capacity = 65536\<rparr>"

definition timer_default :: "('s, 'e) slab_ops \<Rightarrow> 's timer option" where
  "timer_default sl = build sl builder_default"

section \<open>Evented\<close>

text \<open>
  \<open>p\<close> is the address the allocator gives the node of the registration; \<open>spawned\<close> says that
  the thread could be started. The job is not used.
\<close>

definition timer_register ::
  "('s, 'a entry) slab_ops \<Rightarrow> bool \<Rightarrow> ptr \<Rightarrow> 's timer \<Rightarrow> 'p rq \<Rightarrow> token_entry \<Rightarrow> ready \<Rightarrow> poll_opt \<Rightarrow> job \<Rightarrow>
   (unit io_result \<times> 's timer \<times> 'p rq) option" where
  "timer_register sl spawned p t q token interest opts job =
     (if lc_borrow (tm_inner t) \<noteq> None
      then Some (Inl (Io_error OtherKind ''timer alreay registered''), t, q)
      else do {
        q \<leftarrow> reg_new q p token interest opts;
        (s, q) \<leftarrow> regi_clone q p;
        if \<not> spawned then None
        else do {
          inner \<leftarrow> (case lc_fill \<lparr>ti_registration = p, ti_set_readiness = s,
                           ti_wakeup_state = usize_max, ti_unparks = 0\<rparr> (tm_inner t) of
              (Inl _, _) \<Rightarrow> None
            | (Inr _, inner) \<Rightarrow> Some inner);
          let t = t\<lparr>tm_inner := inner\<rparr>;
          nt \<leftarrow> next_tick sl t;
          t \<leftarrow> (case nt of Some tick \<Rightarrow> schedule_readiness t tick | None \<Rightarrow> Some t);
          Some (Inr (), t, q)
        }
      })"

definition timer_reregister ::
  "'p pipe_write \<Rightarrow> 's timer \<Rightarrow> 'p rq \<Rightarrow> token_entry \<Rightarrow> ready \<Rightarrow> poll_opt \<Rightarrow>
   (unit io_result \<times> 'p rq) option" where
  "timer_reregister wr t q token interest opts =
     (case lc_borrow (tm_inner t) of
        Some inner \<Rightarrow> reg_update wr q (ti_registration inner) token interest opts NullJob
      | None \<Rightarrow> Some (Inl (Io_error OtherKind ''receiver not register''), q))"

definition timer_deregister ::
  "'p pipe_write \<Rightarrow> 's timer \<Rightarrow> 'p rq \<Rightarrow> (unit io_result \<times> 'p rq) option" where
  "timer_deregister wr t q =
     (case lc_borrow (tm_inner t) of
        Some inner \<Rightarrow> reg_deregister wr q (ti_registration inner)
      | None \<Rightarrow> Some (Inl (Io_error OtherKind ''receiver not register''), q))"

text \<open>Setting the readiness through the queue, for \<open>poll_to\<close>.\<close>

definition queue_setr :: "'p pipe_write \<Rightarrow> nat \<Rightarrow> ready \<Rightarrow> 'p rq \<Rightarrow> 'p rq option" where
  "queue_setr wr p r q = do { (_, q) \<leftarrow> sr_set_readiness wr q p r; Some q }"

lemma reg_inv_exec:
  assumes "reg_inv q hs" "reg_allowed op (q, hs)"
  obtains q' hs' where "reg_exec wr op (q, hs) = Some (q', hs')" "reg_inv q' hs'"
  using exec_inv [of q _ hs op wr] assms unfolding reg_inv_def by blast

lemma set_readiness_empty:
  assumes "reg_inv q hs" "0 < h_set (hs p)"
  obtains q' where "queue_setr wr p ready_empty q = Some q'" "reg_inv q' hs"
    "h_reg (hs p) \<Longrightarrow> regi_readiness q' p = Some ready_empty"
proof -
  obtain ps where i: "rq_holds q ps" "all_inv q hs ps" using assms(1) unfolding reg_inv_def by blast
  have c: "0 < h_count (hs p)" using assms(2) by (simp add: h_count_def)
  from set_readiness_spec [OF i c empty_fits(1), of wr] obtain n res q' ps' where
    q': "regi_set_readiness wr q p ready_empty = Some (res, q')" "rq_holds q' ps'" "all_inv q' hs ps'"
    and r: "h_reg (hs p) \<longrightarrow> (\<exists>m. rq_nodes q' = (rq_nodes q)(p \<mapsto> m) \<and> v_readiness (rs_view (nd_state m)) = ready_empty)"
    by (fastforce simp: Let_def)
  have "regi_readiness q' p = Some ready_empty" if h: "h_reg (hs p)"
  proof -
    obtain m where "rq_nodes q' p = Some m" "v_readiness (rs_view (nd_state m)) = ready_empty"
      using r h by auto
    then show ?thesis
      by (auto simp: regi_readiness_def rq_node_def rq_nodes_def view_reads split: if_splits)
  qed
  then show ?thesis using that q' unfolding reg_inv_def
    by (simp add: queue_setr_def sr_set_readiness_def) blast
qed

section \<open>Properties\<close>

text \<open>
  Registering a timer in the queue creates its node with one registration and two
  \<^verbatim>\<open>SetReadiness\<close> handles, the second for the thread, and leaves the thread a wake-up at or
  before every timeout set so far; registering a second time is an error that changes
  nothing.
\<close>

lemma timer_register_once:
  assumes "slab_laws sl" "timer_prompt sl t" "tick_bound sl t {}" "lc_borrow (tm_inner t) = None"
    "reg_inv q hs" "reg_allowed (New p token interest opts) (q, hs)"
  shows "\<exists>t' q'. timer_register sl True p t q token interest opts job = Some (Inr (), t', q') \<and>
    reg_inv q' (hs(p := \<lparr>h_reg = True, h_set = 2\<rparr>)) \<and>
    wake_ok sl t' \<and> lc_borrow (tm_inner t') \<noteq> None \<and> pending sl t' = pending sl t \<and>
    timer_register sl spawned p' t' q' token' interest' opts' job' =
      Some (Inl (Io_error OtherKind ''timer alreay registered''), t', q')"
proof -
  have none: "lc_inner (tm_inner t) = None" using assms(4) by (simp add: lc_borrow_def)
  obtain q1 hs1 where q1: "reg_exec wr (New p token interest opts) (q, hs) = Some (q1, hs1)"
    "reg_inv q1 hs1" by (rule reg_inv_exec [OF assms(5,6)])
  then have new: "reg_new q p token interest opts = Some q1"
    and hs1: "hs1 = hs(p := \<lparr>h_reg = True, h_set = 1\<rparr>)" by (auto split: Option.bind_splits)
  have "reg_allowed (CloneSet p) (q1, hs1)" by (simp add: hs1 h_count_def)
  then obtain q2 hs2 where q2: "reg_exec wr (CloneSet p) (q1, hs1) = Some (q2, hs2)" "reg_inv q2 hs2"
    by (rule reg_inv_exec [OF q1(2)])
  then obtain s where clone: "regi_clone q1 p = Some (s, q2)"
    and hs2: "hs2 = hs(p := \<lparr>h_reg = True, h_set = 2\<rparr>)"
    by (auto simp: hs1 numeral_2_eq_2 split: Option.bind_splits)
  let ?inner = "(tm_inner t)\<lparr>lc_inner := Some \<lparr>ti_registration = p, ti_set_readiness = s,
      ti_wakeup_state = usize_max, ti_unparks = 0\<rparr>\<rparr>"
  let ?t = "t\<lparr>tm_inner := ?inner\<rparr>"
  obtain L xs ys where inv: "wheel_inv sl ?t L xs ys" using assms(2) unfolding timer_prompt_def by auto
  obtain n where n: "next_tick sl ?t = Some (Some n)"
    "tick_bound sl ?t {} \<Longrightarrow> not_after sl ?t (tm_tick ?t) \<Longrightarrow> not_after sl ?t n"
    by (rule next_tick_ok [OF inv]) blast
  let ?u = "?t\<lparr>tm_inner := woken n ?inner\<rparr>"
  have "not_after sl ?t (tm_tick ?t)" by (rule prompt_not_after) (simp add: assms(2))
  then have "wake_ok sl ?u" using wake_ok_woken [of sl ?t n] n(2) assms(3) by simp
  moreover have "timer_register sl True p t q token interest opts job = Some (Inr (), ?u, q2)"
    using none new clone n(1)
    by (simp add: timer_register_def lc_borrow_def lc_fill_def schedule_readiness_eq Let_def)
  moreover have "lc_borrow (tm_inner ?u) \<noteq> None" by (simp add: lc_borrow_def woken_def)
  ultimately show ?thesis using q2(2) hs2
    by (intro exI [of _ ?u] exI [of _ q2]) (simp add: timer_register_def)
qed

lemma timer_register_once_example:
  "\<exists>(q :: nat rq) t t' q'. timer_new demo_slab 100 4 4 = Some t \<and>
    timer_register (demo_slab :: (_, string entry) slab_ops) True 10 t q default_token ready_readable opt_empty NullJob =
      Some (Inr (), t', q') \<and> wake_ok demo_slab t' \<and>
    timer_register demo_slab True 11 t' q' default_token ready_readable opt_empty NullJob =
      Some (Inl (Io_error OtherKind ''timer alreay registered''), t', q')"
proof -
  obtain q :: "nat rq" where q: "rq_new (Inr 0) Map.empty (\<lambda>_. 0) 7 0 1 2 = Some (Inr q)"
    "\<forall>p. p \<notin> {0, 1, 2} \<longrightarrow> rq_heap q p = None"
    using rq_new_holds [of 0 1 2 0 Map.empty "\<lambda>_. 0" 7] by auto
  have "reg_reach (demo_write 5) (q, \<lambda>_. no_handles)" by (rule reg_reach.start [OF q(1)]) simp
  from reach_inv [OF this] have inv: "reg_inv q (\<lambda>_. no_handles)" unfolding reg_inv_def by simp
  have "ready_fits ready_readable" "opt_fits opt_empty" by code_simp+
  then have al: "reg_allowed (New 10 default_token ready_readable opt_empty) (q, \<lambda>_. no_handles)"
    using q(2) by auto
  have le: "unat (4 :: usize) \<le> 2 ^ 63" by simp
  obtain t where t: "timer_new (demo_slab :: (_, string entry) slab_ops) 100 4 4 = Some t"
    using next_power_of_two_None [of 4] le by (cases "next_power_of_two 4") (auto simp: timer_new_def Let_def)
  note n = timer_new_spec [OF demo_slab_laws t]
  have b: "tick_bound (demo_slab :: (_, string entry) slab_ops) t {}" by (simp add: tick_bound_def n(2))
  have none: "lc_borrow (tm_inner t) = None" using n(5) by (simp add: lc_borrow_def)
  from timer_register_once [OF demo_slab_laws n(1) b none inv al, of NullJob True 11 default_token ready_readable opt_empty NullJob] t
  show ?thesis by blast
qed

text \<open>
  Polling a registered timer works together with the readiness queue: it never panics,
  the queue keeps its invariant, and when nothing is due the readiness of the timer is
  cleared, so the event loop is not called again before the next wake-up.
\<close>

lemma timer_poll_clears_readiness:
  assumes "slab_laws sl" "timer_ok sl t" "target < u64_max" "tm_tick t < u64_max"
    "lc_borrow (tm_inner t) = Some inner" "reg_inv q hs" "0 < h_set (hs (ti_set_readiness inner))"
  shows "\<exists>res t' q'. poll_to sl (queue_setr wr) target t q = Some (res, t', q') \<and> reg_inv q' hs \<and>
    timer_ok sl t' \<and>
    (res = None \<and> h_reg (hs (ti_set_readiness inner)) \<longrightarrow>
       regi_readiness q' (ti_set_readiness inner) = Some ready_empty)"
proof -
  have inner: "lc_inner (tm_inner t) = Some inner" using assms(5) by (simp add: lc_borrow_def)
  obtain q' where q': "queue_setr wr (ti_set_readiness inner) ready_empty q = Some q'" "reg_inv q' hs"
    "h_reg (hs (ti_set_readiness inner)) \<Longrightarrow> regi_readiness q' (ti_set_readiness inner) = Some ready_empty"
    by (rule set_readiness_empty [OF assms(6,7)]) blast
  have setr: "\<And>i. lc_inner (tm_inner t) = Some i \<Longrightarrow> queue_setr wr (ti_set_readiness i) ready_empty q \<noteq> None"
    using inner q'(1) by simp
  obtain res t' w' where r: "poll_to sl (queue_setr wr) target t q = Some (res, t', w')" "timer_ok sl t'"
    "case res of Some _ \<Rightarrow> w' = q
       | None \<Rightarrow> (case lc_inner (tm_inner t) of None \<Rightarrow> w' = q
           | Some inner \<Rightarrow> queue_setr wr (ti_set_readiness inner) ready_empty q = Some w')"
    by (rule poll_to_ok [where setr = "queue_setr wr" and w = q, OF assms(1) setr assms(2,3,4)]) blast
  show ?thesis
  proof (cases res)
    case None
    then show ?thesis using r q' inner by (intro exI [of _ res] exI [of _ t'] exI [of _ w']) simp
  next
    case (Some a)
    then show ?thesis using r assms(6) by (intro exI [of _ res] exI [of _ t'] exI [of _ w']) simp
  qed
qed

lemma timer_poll_clears_readiness_example:
  "\<exists>(q :: nat rq) t res t' q'. reg_inv q demo_handles \<and>
    poll_to (demo_slab :: (_, string entry) slab_ops) (queue_setr (demo_write 5)) 1 t q = Some (res, t', q') \<and> reg_inv q' demo_handles"
proof -
  obtain q :: "nat rq" where q: "reg_reach (demo_write 5) (q, demo_handles)" using demo_reach by blast
  have inv: "reg_inv q demo_handles" using reach_inv [OF q] unfolding reg_inv_def by simp
  obtain t where t: "timer_prompt (demo_slab :: (_, string entry) slab_ops) t" "tm_tick t = 0" by (rule demo_timer_ok) blast
  let ?inner = "\<lparr>ti_registration = 10, ti_set_readiness = 10, ti_wakeup_state = u64_max, ti_unparks = 0\<rparr>"
  let ?t = "t\<lparr>tm_inner := \<lparr>lc_inner = Some ?inner\<rparr>\<rparr>"
  have ok: "timer_ok demo_slab ?t" using prompt_ok [OF t(1)] by simp
  have lt: "(1 :: u64) < u64_max" "(0 :: u64) < u64_max" by code_simp+
  have "lc_borrow (tm_inner ?t) = Some ?inner" "tm_tick ?t < u64_max"
    "0 < h_set (demo_handles (ti_set_readiness ?inner))"
    using t(2) lt by (simp_all add: lc_borrow_def demo_handles_def)
  from timer_poll_clears_readiness [OF demo_slab_laws ok lt(1) this(2,1) inv this(3), of "demo_write 5"] inv
  show ?thesis by blast
qed

end
