(* ===== verification/Poll_Lock.thy ===== *)
theory Poll_Lock
  imports Event_Imp
begin

text \<open>
  The lock of \<^verbatim>\<open>Poll::poll1\<close> in \<^verbatim>\<open>src/poll.rs\<close>: many threads may call poll, one at a time
  polls. The word \<^verbatim>\<open>lock_state\<close> holds the lock bit and, from bit 1 on, the number of
  threads that wait on the condition variable. Each transition is one access to shared
  memory: an atomic operation on the word, or one on the mutex or the condition variable.
\<close>

section \<open>Durations\<close>

definition duration_zero :: duration where
  "duration_zero = \<lparr>dur_secs = 0, dur_nanos = 0\<rparr>"

definition duration_le :: "duration \<Rightarrow> duration \<Rightarrow> bool" where
  "duration_le a b \<longleftrightarrow>
     dur_secs a < dur_secs b \<or> dur_secs a = dur_secs b \<and> dur_nanos a \<le> dur_nanos b"

text \<open>\<^verbatim>\<open>a - b\<close>, where \<open>b\<close> is not the longer.\<close>

definition duration_sub :: "duration \<Rightarrow> duration \<Rightarrow> duration" where
  "duration_sub a b =
     (if dur_nanos b \<le> dur_nanos a
      then \<lparr>dur_secs = dur_secs a - dur_secs b, dur_nanos = dur_nanos a - dur_nanos b\<rparr>
      else \<lparr>dur_secs = dur_secs a - dur_secs b - 1, dur_nanos = dur_nanos a + 1000000000 - dur_nanos b\<rparr>)"

type_synonym timeout_opt = "duration option"

text \<open>What is left of a timeout after waiting.\<close>

definition time_left :: "duration \<Rightarrow> timeout_opt \<Rightarrow> timeout_opt" where
  "time_left elapsed timeout =
     (case timeout of
        None \<Rightarrow> None
      | Some t \<Rightarrow> if duration_le t elapsed then Some duration_zero else Some (duration_sub t elapsed))"

section \<open>The transitions\<close>

text \<open>
  Where a thread is in \<^verbatim>\<open>poll1\<close>: not in it; before the first \<^verbatim>\<open>compare_exchange\<close>; before
  locking the mutex, with \<^verbatim>\<open>curr\<close>; at the head of the loop, with \<^verbatim>\<open>curr\<close> and \<^verbatim>\<open>inc\<close>; counted
  and about to wait; waiting; woken up and before locking the mutex again; in \<^verbatim>\<open>poll2\<close>; about
  to notify; dead of the overflow.
\<close>

datatype pl_pc =
    Idle
  | Enter timeout_opt
  | Want usize timeout_opt
  | Loop usize bool timeout_opt
  | To_wait timeout_opt
  | Waiting timeout_opt
  | Woken timeout_opt
  | Polling timeout_opt
  | Notify
  | Panicked

record pl =
  pl_lock :: usize
  pl_mutex :: "nat option"
  pl_pc :: "nat \<Rightarrow> pl_pc"

definition pl_init :: pl where
  "pl_init = \<lparr>pl_lock = 0, pl_mutex = None, pl_pc = (\<lambda>_. Idle)\<rparr>"

text \<open>The first attempt, and where it leads.\<close>

definition pl_enter :: "timeout_opt \<Rightarrow> usize \<Rightarrow> usize \<times> pl_pc" where
  "pl_enter timeout word =
     (if word = 0 then (1, Polling timeout) else (word, Want word timeout))"

text \<open>One turn of the loop: the word and the place after it.\<close>

definition pl_turn :: "usize \<Rightarrow> bool \<Rightarrow> timeout_opt \<Rightarrow> usize \<Rightarrow> usize \<times> pl_pc" where
  "pl_turn cur inc timeout word =
     (if cur AND 1 = 0 then
        (let next = cur OR 1; next = (if inc then next - 2 else next) in
         if word = cur then (next, Polling timeout) else (word, Loop word inc timeout))
      else if timeout = Some duration_zero then ((if inc then word - 2 else word), Idle)
      else if \<not> inc then
        (case checked_add cur 2 of
           None \<Rightarrow> (word, Panicked)
         | Some next \<Rightarrow> if word = cur then (next, To_wait timeout) else (word, Loop word inc timeout))
      else (word, To_wait timeout))"

text \<open>\<^verbatim>\<open>fetch_and(!1)\<close> after \<^verbatim>\<open>poll2\<close>.\<close>

definition pl_unlock :: "usize \<Rightarrow> usize \<times> pl_pc" where
  "pl_unlock word = (word AND NOT 1, if word \<noteq> 1 then Notify else Idle)"

definition pl_set :: "nat \<Rightarrow> usize \<times> pl_pc \<Rightarrow> pl \<Rightarrow> pl" where
  "pl_set i r s = s\<lparr>pl_lock := fst r, pl_pc := (pl_pc s)(i := snd r)\<rparr>"

text \<open>The mutex is kept while the thread goes round the loop.\<close>

definition pl_release :: "pl \<Rightarrow> pl" where
  "pl_release s = s\<lparr>pl_mutex := None\<rparr>"

definition in_loop :: "pl_pc \<Rightarrow> bool" where
  "in_loop c \<longleftrightarrow> (case c of Loop _ _ _ \<Rightarrow> True | To_wait _ \<Rightarrow> True | _ \<Rightarrow> False)"

inductive pl_trans :: "nat \<Rightarrow> pl \<Rightarrow> pl \<Rightarrow> bool" for n :: nat where
  call: "i < n \<Longrightarrow> pl_pc s i = Idle \<Longrightarrow>
    pl_trans n s (pl_set i (pl_lock s, Enter timeout) s)"
| enter: "i < n \<Longrightarrow> pl_pc s i = Enter timeout \<Longrightarrow>
    pl_trans n s (pl_set i (pl_enter timeout (pl_lock s)) s)"
| lock: "i < n \<Longrightarrow> pl_pc s i = Want cur timeout \<Longrightarrow> pl_mutex s = None \<Longrightarrow>
    pl_trans n s (pl_set i (pl_lock s, Loop cur False timeout) s\<lparr>pl_mutex := Some i\<rparr>)"
| turn: "i < n \<Longrightarrow> pl_pc s i = Loop cur inc timeout \<Longrightarrow>
    r = pl_turn cur inc timeout (pl_lock s) \<Longrightarrow>
    pl_trans n s (if in_loop (snd r) then pl_set i r s else pl_release (pl_set i r s))"
| wait: "i < n \<Longrightarrow> pl_pc s i = To_wait timeout \<Longrightarrow>
    pl_trans n s (pl_release (pl_set i (pl_lock s, Waiting timeout) s))"
| wake: "i < n \<Longrightarrow> pl_pc s i = Waiting timeout \<Longrightarrow>
    pl_trans n s (pl_set i (pl_lock s, Woken (time_left elapsed timeout)) s)"
| relock: "i < n \<Longrightarrow> pl_pc s i = Woken timeout \<Longrightarrow> pl_mutex s = None \<Longrightarrow>
    pl_trans n s (pl_set i (pl_lock s, Loop (pl_lock s) True timeout) s\<lparr>pl_mutex := Some i\<rparr>)"
| unlock: "i < n \<Longrightarrow> pl_pc s i = Polling timeout \<Longrightarrow>
    pl_trans n s (pl_set i (pl_unlock (pl_lock s)) s)"
| notify: "i < n \<Longrightarrow> pl_pc s i = Notify \<Longrightarrow> pl_mutex s = None \<Longrightarrow> j < n \<Longrightarrow>
    pl_pc s j = Waiting timeout \<Longrightarrow>
    pl_trans n s (pl_set j (pl_lock s, Woken (time_left elapsed timeout))
      (pl_set i (pl_lock s, Idle) s))"
| notify_none: "i < n \<Longrightarrow> pl_pc s i = Notify \<Longrightarrow> pl_mutex s = None \<Longrightarrow>
    (\<forall>j < n. \<forall>timeout. pl_pc s j \<noteq> Waiting timeout) \<Longrightarrow>
    pl_trans n s (pl_set i (pl_lock s, Idle) s)"

abbreviation pl_reach :: "nat \<Rightarrow> pl \<Rightarrow> pl \<Rightarrow> bool" where
  "pl_reach n \<equiv> (pl_trans n)\<^sup>*\<^sup>*"

section \<open>Invariant\<close>

text \<open>Counted in the word.\<close>

definition counted :: "pl_pc \<Rightarrow> bool" where
  "counted c \<longleftrightarrow>
     (case c of Loop _ inc _ \<Rightarrow> inc | To_wait _ \<Rightarrow> True | Waiting _ \<Rightarrow> True | Woken _ \<Rightarrow> True | _ \<Rightarrow> False)"

definition polling :: "pl_pc \<Rightarrow> bool" where
  "polling c \<longleftrightarrow> (case c of Polling _ \<Rightarrow> True | _ \<Rightarrow> False)"

definition waiting :: "pl_pc \<Rightarrow> bool" where
  "waiting c \<longleftrightarrow> (case c of Waiting _ \<Rightarrow> True | _ \<Rightarrow> False)"

definition count :: "nat \<Rightarrow> (pl_pc \<Rightarrow> bool) \<Rightarrow> pl \<Rightarrow> nat" where
  "count n P s = card {i. i < n \<and> P (pl_pc s i)}"

text \<open>
  The word is the count of the counted threads and the lock bit, which is set exactly
  while one thread polls. The mutex is held by the thread in the loop. While the lock is
  free and someone waits, a notification is on its way or a counted thread is awake; one
  that has seen the lock bit set and finds it gone can rely on a notification.
\<close>

definition awake :: "pl_pc \<Rightarrow> bool" where
  "awake c \<longleftrightarrow> c = Notify \<or> (case c of Loop _ inc _ \<Rightarrow> inc | Woken _ \<Rightarrow> True | _ \<Rightarrow> False)"

definition saw_locked :: "pl_pc \<Rightarrow> bool" where
  "saw_locked c \<longleftrightarrow>
     (case c of Loop cur inc _ \<Rightarrow> inc \<and> cur AND 1 \<noteq> 0 | To_wait _ \<Rightarrow> True | _ \<Rightarrow> False)"

definition place_ok :: "nat \<Rightarrow> pl_pc \<Rightarrow> bool" where
  "place_ok n c \<longleftrightarrow>
     (case c of Want cur _ \<Rightarrow> unat cur \<le> 2 * n + 1 | Loop cur _ _ \<Rightarrow> unat cur \<le> 2 * n + 1
      | Panicked \<Rightarrow> False | _ \<Rightarrow> True)"

lemmas places = counted_def polling_def waiting_def awake_def saw_locked_def place_ok_def in_loop_def

definition pl_inv :: "nat \<Rightarrow> pl \<Rightarrow> bool" where
  "pl_inv n s \<longleftrightarrow>
     unat (pl_lock s) = 2 * count n counted s + count n polling s \<and> count n polling s \<le> 1 \<and>
     (\<forall>i. in_loop (pl_pc s i) = (pl_mutex s = Some i)) \<and>
     (\<forall>i \<ge> n. pl_pc s i = Idle) \<and>
     (\<forall>i. place_ok n (pl_pc s i)) \<and>
     (count n polling s = 0 \<longrightarrow> 0 < count n waiting s \<longrightarrow> 0 < count n awake s) \<and>
     (count n polling s = 0 \<longrightarrow> 0 < count n saw_locked s \<longrightarrow> (\<exists>i < n. pl_pc s i = Notify))"

lemma pl_invD:
  assumes "pl_inv n s"
  shows "unat (pl_lock s) = 2 * count n counted s + count n polling s" "count n polling s \<le> 1"
    "in_loop (pl_pc s i) = (pl_mutex s = Some i)" "n \<le> i \<Longrightarrow> pl_pc s i = Idle"
    "place_ok n (pl_pc s i)"
    "count n polling s = 0 \<Longrightarrow> 0 < count n waiting s \<Longrightarrow> 0 < count n awake s"
    "count n polling s = 0 \<Longrightarrow> 0 < count n saw_locked s \<Longrightarrow> \<exists>i < n. pl_pc s i = Notify"
  using assms unfolding pl_inv_def by blast+

lemma count_set:
  assumes "i < n"
  shows "count n P (pl_set i (w, c) s) + of_bool (P (pl_pc s i)) = count n P s + of_bool (P c)"
proof -
  let ?A = "{j. j < n \<and> j \<noteq> i \<and> P (pl_pc s j)}"
  have f: "finite ?A" "i \<notin> ?A" by auto
  have "{j. j < n \<and> P (pl_pc s j)} = (if P (pl_pc s i) then insert i ?A else ?A)"
    "{j. j < n \<and> P (pl_pc (pl_set i (w, c) s) j)} = (if P c then insert i ?A else ?A)"
    using assms by (auto simp: pl_set_def split: if_splits)
  then show ?thesis using f by (simp add: count_def)
qed

lemma count_pos: "(0 < count n P s) = (\<exists>i < n. P (pl_pc s i))"
  by (auto simp: count_def card_gt_0_iff)

lemma count_le: "count n P s \<le> n"
proof -
  have "count n P s \<le> card {..<n}" unfolding count_def by (intro card_mono) auto
  then show ?thesis by simp
qed

lemma count_mutex [simp]: "count n P (s\<lparr>pl_mutex := m\<rparr>) = count n P s"
  by (simp add: count_def)

section \<open>The word\<close>

lemma even_unat: "even (unat w) = even (w :: usize)"
proof -
  have "bit (unat w) 0 = bit w 0" by (simp add: bit_unsigned_iff)
  then show ?thesis by (simp add: bit_0)
qed

lemma and_one: "(w AND 1 = 0) = even (unat (w :: usize))"
  by (simp add: and_one_eq even_unat mod2_eq_if)

lemma or_one:
  assumes "even (unat (w :: usize))"
  shows "unat (w OR 1) = unat w + 1"
proof -
  have "unat w < 2 ^ 64" by (rule order.strict_trans2 [OF unsigned_less]) simp
  then have "unat w + 1 < 2 ^ 64" using assms by (auto elim!: evenE)
  moreover have "w OR 1 = w + 1" using assms by (simp add: or_one_eq even_unat)
  ultimately show ?thesis by (simp add: unat_word_ariths)
qed

lemma and_not_one: "unat ((w :: usize) AND NOT 1) = unat w - unat w mod 2"
proof (cases "even w")
  case True
  then have "w AND NOT 1 = w"
    by (intro bit_word_eqI) (auto simp: bit_and_iff bit_not_iff bit_1_iff bit_0 intro: gr0I)
  then show ?thesis using True by (simp add: even_unat [symmetric] even_iff_mod_2_eq_zero)
next
  case False
  have "w - 1 = w AND NOT 1"
    using False by (intro disjunctive_diff) (auto simp: bit_1_iff bit_0)
  moreover have "unat (w - 1) = unat w - 1" using False by (intro unat_minus_one) auto
  moreover have "unat w mod 2 = 1" using False by (simp add: even_unat [symmetric] odd_iff_mod_2_eq_one)
  ultimately show ?thesis by simp
qed

lemma unat_minus_two: "2 \<le> unat w \<Longrightarrow> unat (w - 2 :: usize) = unat w - 2"
  by (subst unat_sub) (simp_all add: word_le_nat_alt)

lemma checked_add_two:
  "unat w + 2 < 2 ^ 64 \<Longrightarrow> checked_add w 2 = Some (w + 2) \<and> unat (w + 2) = unat w + 2"
  by (simp add: checked_add_def unat_word_ariths)

section \<open>Preservation\<close>

lemma pl_set_simps [simp]:
  "pl_lock (pl_set i r s) = fst r" "pl_mutex (pl_set i r s) = pl_mutex s"
  "pl_pc (pl_set i r s) = (pl_pc s)(i := snd r)"
  by (simp_all add: pl_set_def)

lemma keep_mutex [simp]: "(pl_set i r s)\<lparr>pl_mutex := pl_mutex s\<rparr> = pl_set i r s"
  by (simp add: pl_set_def)

text \<open>
  One thread \<open>i\<close> moves from \<open>pl_pc s i\<close> to \<open>c\<close>, the word becomes \<open>w\<close> and the mutex \<open>m\<close>. The
  obligations are local to the thread.
\<close>

lemma pl_inv_move:
  assumes inv: "pl_inv n s" and i: "i < n"
    and word: "unat w + 2 * of_bool (counted (pl_pc s i)) + of_bool (polling (pl_pc s i)) =
      unat (pl_lock s) + 2 * of_bool (counted c) + of_bool (polling c)"
    and free: "polling c \<Longrightarrow> \<not> polling (pl_pc s i) \<Longrightarrow> count n polling s = 0"
    and mutex: "in_loop c \<longleftrightarrow> m = Some i"
      "m = pl_mutex s \<or> m = None \<and> pl_mutex s = Some i \<or> pl_mutex s = None \<and> m = Some i"
    and ok: "place_ok n c"
    and wait: "\<not> polling c \<Longrightarrow> polling (pl_pc s i) \<or> count n polling s = 0 \<Longrightarrow>
      polling (pl_pc s i) \<or> waiting c \<or> awake (pl_pc s i) \<and> \<not> awake c \<Longrightarrow>
      0 < count n awake (pl_set i (w, c) s) \<or> count n waiting (pl_set i (w, c) s) = 0"
    and saw: "\<not> polling c \<Longrightarrow> polling (pl_pc s i) \<or> count n polling s = 0 \<Longrightarrow>
      polling (pl_pc s i) \<or> saw_locked c \<and> \<not> saw_locked (pl_pc s i) \<or> pl_pc s i = Notify \<Longrightarrow>
      (\<exists>j < n. pl_pc (pl_set i (w, c) s) j = Notify) \<or> count n saw_locked (pl_set i (w, c) s) = 0"
  shows "pl_inv n ((pl_set i (w, c) s)\<lparr>pl_mutex := m\<rparr>)"
proof -
  let ?s = "pl_set i (w, c) s"
  note cs = count_set [OF i, where w = w and c = c and s = s]
  have pol: "count n polling ?s + of_bool (polling (pl_pc s i)) = count n polling s + of_bool (polling c)"
    by (rule cs)
  have one: "polling (pl_pc s i) \<Longrightarrow> 0 < count n polling s" using i by (auto simp: count_pos)
  have w: "unat w = 2 * count n counted ?s + count n polling ?s"
    using word pl_invD(1) [OF inv] cs [where P = counted] pol by (simp split: if_splits)
  have le: "count n polling ?s \<le> 1"
    using pl_invD(2) [OF inv] pol free by (cases "polling c"; cases "polling (pl_pc s i)") auto
  have "in_loop (pl_pc ?s j) = (m = Some j)" for j
    using pl_invD(3) [OF inv, of j] mutex by (cases "j = i") auto
  moreover have "n \<le> j \<Longrightarrow> pl_pc ?s j = Idle" for j using pl_invD(4) [OF inv] i by simp
  moreover have "place_ok n (pl_pc ?s j)" for j using pl_invD(5) [OF inv] ok by simp
  moreover have "0 < count n awake ?s" if z: "count n polling ?s = 0" "0 < count n waiting ?s"
  proof -
    have np: "\<not> polling c" "polling (pl_pc s i) \<or> count n polling s = 0"
      using z(1) pol one by (cases "polling c"; cases "polling (pl_pc s i)"; simp)+
    show ?thesis
    proof (cases "polling (pl_pc s i) \<or> waiting c \<or> awake (pl_pc s i) \<and> \<not> awake c")
      case True
      then show ?thesis using wait [OF np] z(2) by simp
    next
      case False
      then have "0 < count n waiting s" "count n polling s = 0"
        using z(2) cs [where P = waiting] np by (auto split: if_splits)
      then have "0 < count n awake s" using pl_invD(6) [OF inv] by blast
      then show ?thesis using False cs [where P = awake]
        by (cases "awake (pl_pc s i)"; cases "awake c") auto
    qed
  qed
  moreover have "\<exists>j < n. pl_pc ?s j = Notify" if z: "count n polling ?s = 0" "0 < count n saw_locked ?s"
  proof -
    have np: "\<not> polling c" "polling (pl_pc s i) \<or> count n polling s = 0"
      using z(1) pol one by (cases "polling c"; cases "polling (pl_pc s i)"; simp)+
    show ?thesis
    proof (cases "polling (pl_pc s i) \<or> saw_locked c \<and> \<not> saw_locked (pl_pc s i) \<or> pl_pc s i = Notify")
      case True
      then show ?thesis using saw [OF np] z(2) by simp
    next
      case False
      then have "0 < count n saw_locked s" "count n polling s = 0"
        using z(2) cs [where P = saw_locked] np
        by (cases "saw_locked (pl_pc s i)"; cases "saw_locked c"; simp)+
      then obtain j where "j < n" "pl_pc s j = Notify" using pl_invD(7) [OF inv] by blast
      then show ?thesis using False by (intro exI [of _ j]) auto
    qed
  qed
  ultimately show ?thesis unfolding pl_inv_def using w le by simp
qed

lemma places_simps [simp]:
  "counted Idle = False" "counted (Enter x) = False" "counted (Want cur x) = False"
  "counted (Loop cur inc x) = inc" "counted (To_wait x) = True" "counted (Waiting x) = True"
  "counted (Woken x) = True" "counted (Polling x) = False" "counted Notify = False"
  "polling Idle = False" "polling (Enter x) = False" "polling (Want cur x) = False"
  "polling (Loop cur inc x) = False" "polling (To_wait x) = False" "polling (Waiting x) = False"
  "polling (Woken x) = False" "polling (Polling x) = True" "polling Notify = False"
  "waiting Idle = False" "waiting (Enter x) = False" "waiting (Want cur x) = False"
  "waiting (Loop cur inc x) = False" "waiting (To_wait x) = False" "waiting (Waiting x) = True"
  "waiting (Woken x) = False" "waiting (Polling x) = False" "waiting Notify = False"
  "awake Idle = False" "awake (Enter x) = False" "awake (Want cur x) = False"
  "awake (Loop cur inc x) = inc" "awake (To_wait x) = False" "awake (Waiting x) = False"
  "awake (Woken x) = True" "awake (Polling x) = False" "awake Notify = True"
  "saw_locked Idle = False" "saw_locked (Enter x) = False" "saw_locked (Want cur x) = False"
  "saw_locked (Loop cur inc x) = (inc \<and> cur AND 1 \<noteq> 0)" "saw_locked (To_wait x) = True"
  "saw_locked (Waiting x) = False" "saw_locked (Woken x) = False" "saw_locked (Polling x) = False"
  "saw_locked Notify = False"
  "in_loop Idle = False" "in_loop (Enter x) = False" "in_loop (Want cur x) = False"
  "in_loop (Loop cur inc x) = True" "in_loop (To_wait x) = True" "in_loop (Waiting x) = False"
  "in_loop (Woken x) = False" "in_loop (Polling x) = False" "in_loop Notify = False"
  "in_loop Panicked = False" "counted Panicked = False" "polling Panicked = False"
  "waiting Panicked = False" "awake Panicked = False" "saw_locked Panicked = False"
  "place_ok n Idle = True" "place_ok n (Enter x) = True" "place_ok n (Want cur x) = (unat cur \<le> 2 * n + 1)"
  "place_ok n (Loop cur inc x) = (unat cur \<le> 2 * n + 1)" "place_ok n (To_wait x) = True"
  "place_ok n (Waiting x) = True" "place_ok n (Woken x) = True" "place_ok n (Polling x) = True"
  "place_ok n Notify = True" "place_ok n Panicked = False"
  by (simp_all add: places)

lemma pl_word_le: "pl_inv n s \<Longrightarrow> unat (pl_lock s) \<le> 2 * n + 1"
  using pl_invD(1,2) [of n s] count_le [of n counted s] by simp

lemma pl_bit: "pl_inv n s \<Longrightarrow> (pl_lock s AND 1 = 0) = (count n polling s = 0)"
  using pl_invD(1,2) [of n s] by (cases "count n polling s") (auto simp: and_one)

text \<open>While the mutex is free no thread is in the loop.\<close>

lemma no_saw:
  assumes "pl_inv n s" "pl_mutex s = None"
  shows "count n saw_locked s = 0"
proof -
  have "\<not> saw_locked (pl_pc s i)" for i
    using pl_invD(3) [OF assms(1), of i] assms(2)
    by (cases "pl_pc s i") (auto simp: saw_locked_def)
  then show ?thesis by (simp add: count_def)
qed

lemma pl_inv_init: "pl_inv n pl_init"
  by (simp add: pl_inv_def pl_init_def count_def)

lemma pl_turn_inv:
  assumes inv: "pl_inv n s" and i: "i < n" and n: "n < 2 ^ 62"
    and pc: "pl_pc s i = Loop cur inc timeout"
    and r: "pl_turn cur inc timeout (pl_lock s) = (w, c)"
  shows "pl_inv n ((pl_set i (w, c) s)\<lparr>pl_mutex := (if in_loop c then pl_mutex s else None)\<rparr>)"
proof -
  have mutex: "pl_mutex s = Some i" using pl_invD(3) [OF inv, of i] pc by simp
  have cur: "unat cur \<le> 2 * n + 1" using pl_invD(5) [OF inv, of i] pc by simp
  have word: "unat (pl_lock s) = 2 * count n counted s + count n polling s" using pl_invD(1) [OF inv] .
  have cnt: "inc \<Longrightarrow> 0 < count n counted s" using i pc by (auto simp: count_pos)
  note mv = pl_inv_move [OF inv i, where w = w and c = c, unfolded pc]
  consider (take) "cur AND 1 = 0" "pl_lock s = cur" "c = Polling timeout"
      "w = (if inc then (cur OR 1) - 2 else cur OR 1)"
    | (again) "w = pl_lock s" "c = Loop (pl_lock s) inc timeout"
    | (quit) "cur AND 1 \<noteq> 0" "c = Idle" "w = (if inc then pl_lock s - 2 else pl_lock s)"
    | (reg) "cur AND 1 \<noteq> 0" "pl_lock s = cur" "\<not> inc" "c = To_wait timeout" "w = cur + 2"
    | (still) "cur AND 1 \<noteq> 0" "inc" "c = To_wait timeout" "w = pl_lock s"
    using r cur n checked_add_two [of cur]
    by (auto simp: pl_turn_def Let_def split: if_splits option.splits)
  then show ?thesis
  proof cases
    case take
    have z: "count n polling s = 0" using take(1,2) pl_bit [OF inv] by simp
    have "unat (cur OR 1) = unat cur + 1" using take(1) or_one and_one by blast
    moreover have "inc \<Longrightarrow> 2 \<le> unat (cur OR 1)" using calculation cnt word take(2) z by simp
    ultimately have "unat w + 2 * of_bool inc = unat (pl_lock s) + 1"
      using unat_minus_two [of "cur OR 1"] take(2,4) by (cases inc) auto
    then show ?thesis using z mutex take(3) by (intro mv) simp_all
  next
    case again
    show ?thesis
    proof (intro mv)
      assume "\<not> polling c" and p: "polling (Loop cur inc timeout) \<or> count n polling s = 0"
      then have "pl_lock s AND 1 = 0" using pl_bit [OF inv] by simp
      then show "polling (Loop cur inc timeout) \<or> saw_locked c \<and> \<not> saw_locked (Loop cur inc timeout) \<or>
          Loop cur inc timeout = Notify \<Longrightarrow>
        (\<exists>j < n. pl_pc (pl_set i (w, c) s) j = Notify) \<or> count n saw_locked (pl_set i (w, c) s) = 0"
        using again by simp
    qed (use again mutex pl_word_le [OF inv] in simp_all)
  next
    case quit
    have "inc \<Longrightarrow> 2 \<le> unat (pl_lock s)" using cnt word by simp
    then have "unat w + 2 * of_bool inc = unat (pl_lock s)" using unat_minus_two quit(3) by auto
    moreover have "0 < count n awake (pl_set i (w, c) s)" if h: "inc" "count n polling s = 0"
    proof -
      have "0 < count n saw_locked s" using i pc h quit(1) by (auto simp: count_pos)
      then obtain j where "j < n" "pl_pc s j = Notify" using pl_invD(7) [OF inv h(2)] by blast
      then show ?thesis using pc by (auto simp: count_pos intro!: exI [of _ j])
    qed
    ultimately show ?thesis using quit(2) mutex by (intro mv) simp_all
  next
    case reg
    have "count n polling s \<noteq> 0" using reg(1,2) pl_bit [OF inv] by simp
    moreover have "unat w = unat cur + 2" using checked_add_two [of cur] cur n reg(5) by simp
    ultimately show ?thesis using reg mutex by (intro mv) simp_all
  next
    case still
    have "\<exists>j < n. pl_pc (pl_set i (w, c) s) j = Notify" if h: "count n polling s = 0"
    proof -
      have "0 < count n saw_locked s" using i pc still(1,2) by (auto simp: count_pos)
      then obtain j where "j < n" "pl_pc s j = Notify" using pl_invD(7) [OF inv h] by blast
      then show ?thesis using pc by (intro exI [of _ j]) auto
    qed
    moreover from this have "0 < count n awake (pl_set i (w, c) s)" if "count n polling s = 0"
      using that by (force simp: count_pos)
    ultimately show ?thesis using still mutex by (intro mv) simp_all
  qed
qed

lemma pl_inv_trans:
  assumes "pl_trans n s s'" "pl_inv n s" "n < 2 ^ 62"
  shows "pl_inv n s'"
  using assms
proof (induction rule: pl_trans.induct)
  case (call i s timeout)
  have "pl_inv n ((pl_set i (pl_lock s, Enter timeout) s)\<lparr>pl_mutex := pl_mutex s\<rparr>)"
    using call pl_invD(3) [OF call(3), of i] by (intro pl_inv_move) simp_all
  then show ?case by simp
next
  case (enter i s timeout)
  have m: "pl_mutex s \<noteq> Some i" using pl_invD(3) [OF enter(3), of i] enter(2) by simp
  show ?case
  proof (cases "pl_lock s = 0")
    case True
    then have "count n polling s = 0" using pl_invD(1) [OF enter(3)] by simp
    then have "pl_inv n ((pl_set i (1, Polling timeout) s)\<lparr>pl_mutex := pl_mutex s\<rparr>)"
      using True enter m by (intro pl_inv_move) simp_all
    then show ?thesis using True by (simp add: pl_enter_def)
  next
    case False
    have "pl_inv n ((pl_set i (pl_lock s, Want (pl_lock s) timeout) s)\<lparr>pl_mutex := pl_mutex s\<rparr>)"
      using enter m pl_word_le [OF enter(3)] by (intro pl_inv_move) simp_all
    then show ?thesis using False by (simp add: pl_enter_def)
  qed
next
  case (lock i s cur timeout)
  have "pl_inv n ((pl_set i (pl_lock s, Loop cur False timeout) s)\<lparr>pl_mutex := Some i\<rparr>)"
    using lock pl_invD(5) [OF lock(4), of i] by (intro pl_inv_move) simp_all
  then show ?case by simp
next
  case (turn i s cur inc timeout r)
  obtain w c where r: "r = (w, c)" by (cases r)
  have "pl_turn cur inc timeout (pl_lock s) = (w, c)" using turn(3) r by simp
  from pl_turn_inv [OF turn(4,1,5,2) this] show ?case
    by (cases "in_loop c") (simp_all add: r pl_release_def)
next
  case (wait i s timeout)
  have m: "pl_mutex s = Some i" using pl_invD(3) [OF wait(3), of i] wait(2) by simp
  have "0 < count n awake (pl_set i (pl_lock s, Waiting timeout) s)" if h: "count n polling s = 0"
  proof -
    have "0 < count n saw_locked s" using wait(1,2) by (auto simp: count_pos)
    then obtain j where "j < n" "pl_pc s j = Notify" using pl_invD(7) [OF wait(3) h] by blast
    then show ?thesis using wait(2) by (auto simp: count_pos intro!: exI [of _ j])
  qed
  then have "pl_inv n ((pl_set i (pl_lock s, Waiting timeout) s)\<lparr>pl_mutex := None\<rparr>)"
    using wait m by (intro pl_inv_move) simp_all
  then show ?case by (simp add: pl_release_def)
next
  case (wake i s timeout elapsed)
  have "pl_inv n ((pl_set i (pl_lock s, Woken (time_left elapsed timeout)) s)\<lparr>pl_mutex := pl_mutex s\<rparr>)"
    using wake pl_invD(3) [OF wake(3), of i] by (intro pl_inv_move) simp_all
  then show ?case by simp
next
  case (relock i s timeout)
  have "pl_inv n ((pl_set i (pl_lock s, Loop (pl_lock s) True timeout) s)\<lparr>pl_mutex := Some i\<rparr>)"
    using relock pl_word_le [OF relock(4)] pl_bit [OF relock(4)] by (intro pl_inv_move) simp_all
  then show ?case by simp
next
  case (unlock i s timeout)
  have p: "count n polling s = 1"
    using pl_invD(2) [OF unlock(3)] unlock(1,2) count_pos [of n polling s] by fastforce
  have w: "unat (pl_lock s AND NOT 1) = 2 * count n counted s"
    unfolding and_not_one using pl_invD(1) [OF unlock(3)] p by simp
  let ?c = "if pl_lock s \<noteq> 1 then Notify else Idle"
  let ?s = "pl_set i (pl_lock s AND NOT 1, ?c) s"
  have none: "count n P ?s = 0" if "pl_lock s = 1" "\<And>c. P c \<Longrightarrow> counted c" for P
  proof -
    have "count n counted s = 0" using pl_invD(1) [OF unlock(3)] p that(1) by simp
    then have "\<not> counted (pl_pc s j)" if "j < n" for j using that count_pos [of n counted s] by auto
    then have "\<not> counted (pl_pc ?s j)" if "j < n" for j using that \<open>pl_lock s = 1\<close> by simp
    then have "\<not> P (pl_pc ?s j)" if "j < n" for j using that \<open>\<And>c. P c \<Longrightarrow> counted c\<close> by blast
    then show ?thesis using count_pos [of n P ?s] by auto
  qed
  have nw: "pl_lock s = 1 \<Longrightarrow> count n waiting ?s = 0" "pl_lock s = 1 \<Longrightarrow> count n saw_locked ?s = 0"
    by (rule none; auto simp: places split: pl_pc.splits)+
  have "pl_inv n (?s\<lparr>pl_mutex := pl_mutex s\<rparr>)"
  proof (cases "pl_lock s = 1")
    case True
    then show ?thesis using unlock pl_invD(3) [OF unlock(3), of i] nw pl_invD(1) [OF unlock(3)] p w
      by (intro pl_inv_move) simp_all
  next
    case False
    then show ?thesis using unlock pl_invD(3) [OF unlock(3), of i] pl_invD(1) [OF unlock(3)] p w
      by (intro pl_inv_move) (auto simp: count_pos intro!: exI [of _ i])
  qed
  then show ?case by (simp add: pl_unlock_def)
next
  case (notify i s j timeout elapsed)
  let ?r = "(pl_lock s, Woken (time_left elapsed timeout))"
  let ?s = "pl_set j ?r s"
  have ij: "i \<noteq> j" using notify(2,5) by auto
  have "pl_inv n (?s\<lparr>pl_mutex := pl_mutex s\<rparr>)"
    using notify by (intro pl_inv_move) simp_all
  then have inv: "pl_inv n ?s" by simp
  have "pl_inv n ((pl_set i (pl_lock ?s, Idle) ?s)\<lparr>pl_mutex := pl_mutex ?s\<rparr>)"
  proof (intro pl_inv_move [OF inv notify(1)])
    have "0 < count n awake (pl_set i (pl_lock ?s, Idle) ?s)"
      using notify(4) ij by (auto simp: count_pos intro!: exI [of _ j])
    then show "0 < count n awake (pl_set i (pl_lock ?s, Idle) ?s) \<or>
      count n waiting (pl_set i (pl_lock ?s, Idle) ?s) = 0" ..
    have "count n saw_locked (pl_set i (pl_lock ?s, Idle) ?s) = 0"
      using no_saw [OF inv] count_set [OF notify(1), of saw_locked "pl_lock ?s" Idle ?s] notify(3) by simp
    then show "(\<exists>k < n. pl_pc (pl_set i (pl_lock ?s, Idle) ?s) k = Notify) \<or>
      count n saw_locked (pl_set i (pl_lock ?s, Idle) ?s) = 0" ..
  qed (use notify(2,3) ij in simp_all)
  moreover have "pl_set j ?r (pl_set i (pl_lock s, Idle) s) = pl_set i (pl_lock ?s, Idle) ?s"
    using ij by (simp add: pl_set_def fun_upd_twist)
  ultimately show ?case by (metis keep_mutex)
next
  case (notify_none i s)
  let ?s = "pl_set i (pl_lock s, Idle) s"
  have "pl_inv n (?s\<lparr>pl_mutex := pl_mutex s\<rparr>)"
  proof (intro pl_inv_move [OF notify_none(5,1)])
    have "count n waiting s = 0"
    proof -
      have "\<not> waiting (pl_pc s j)" if "j < n" for j
        using notify_none(4) that by (cases "pl_pc s j") auto
      then show ?thesis using count_pos [of n waiting s] by auto
    qed
    then show "0 < count n awake ?s \<or> count n waiting ?s = 0"
      using count_set [OF notify_none(1), of waiting "pl_lock s" Idle s] notify_none(2) by simp
    show "(\<exists>j < n. pl_pc ?s j = Notify) \<or> count n saw_locked ?s = 0"
      using no_saw [OF notify_none(5,3)] count_set [OF notify_none(1), of saw_locked "pl_lock s" Idle s]
        notify_none(2) by simp
  qed (use notify_none(2,3) in simp_all)
  then show ?case by simp
qed

lemma pl_inv_reach: "pl_reach n pl_init s \<Longrightarrow> n < 2 ^ 62 \<Longrightarrow> pl_inv n s"
  by (induction rule: rtranclp_induct) (auto intro: pl_inv_init pl_inv_trans)

lemma pl_step: "pl_reach n a b \<Longrightarrow> pl_trans n b c \<Longrightarrow> pl_reach n a c"
  by (rule rtranclp.rtrancl_into_rtrancl)

text \<open>One thread polls, then another waits for it.\<close>

definition demo_polling :: pl where
  "demo_polling = pl_set 0 (pl_enter None 0) (pl_set 0 (0, Enter None) pl_init)"

definition demo_waiting :: pl where
  "demo_waiting = \<lparr>pl_lock = 3, pl_mutex = None,
     pl_pc = (\<lambda>_. Idle)(0 := Polling None, 1 := Waiting None)\<rparr>"

lemma demo_polling_eq:
  "demo_polling = \<lparr>pl_lock = 1, pl_mutex = None, pl_pc = (\<lambda>_. Idle)(0 := Polling None)\<rparr>"
  by (simp add: demo_polling_def pl_enter_def pl_set_def pl_init_def)

lemma demo_polling_reach: "pl_reach 2 pl_init demo_polling"
proof -
  let ?a = "pl_set 0 (pl_lock pl_init, Enter None) pl_init"
  have "pl_trans 2 pl_init ?a" by (rule pl_trans.call) (simp_all add: pl_init_def)
  moreover have "pl_trans 2 ?a (pl_set 0 (pl_enter None (pl_lock ?a)) ?a)"
    by (rule pl_trans.enter) (simp_all add: pl_init_def)
  ultimately show ?thesis
    by (simp add: demo_polling_def pl_init_def)
qed

lemma demo_waiting_reach: "pl_reach 2 pl_init demo_waiting"
proof -
  let ?p = demo_polling
  let ?a = "pl_set 1 (pl_lock ?p, Enter None) ?p"
  let ?b = "pl_set 1 (pl_enter None (pl_lock ?a)) ?a"
  let ?c = "pl_set 1 (pl_lock ?b, Loop 1 False None) ?b\<lparr>pl_mutex := Some 1\<rparr>"
  let ?d = "pl_set 1 (3, To_wait None) ?c"
  let ?e = "pl_release (pl_set 1 (pl_lock ?d, Waiting None) ?d)"
  have t: "pl_turn 1 False None 1 = (3, To_wait None)" by code_simp
  have t1: "pl_trans 2 ?p ?a" by (rule pl_trans.call) (simp_all add: demo_polling_eq)
  have t2: "pl_trans 2 ?a ?b" by (rule pl_trans.enter) simp_all
  have t3: "pl_trans 2 ?b ?c"
    by (rule pl_trans.lock) (simp_all add: demo_polling_eq pl_enter_def)
  have t4: "pl_trans 2 ?c ?d"
    using pl_trans.turn [of 1 2 ?c 1 False None "(3, To_wait None)"]
    by (simp add: demo_polling_eq pl_enter_def t)
  have t5: "pl_trans 2 ?d ?e" by (rule pl_trans.wait) simp_all
  have "?e = demo_waiting"
    by (simp add: demo_waiting_def demo_polling_eq pl_set_def pl_release_def fun_eq_iff)
  moreover have "pl_reach 2 pl_init ?e"
    by (rule pl_step [OF pl_step [OF pl_step [OF pl_step [OF pl_step [OF demo_polling_reach t1] t2] t3] t4] t5])
  ultimately show ?thesis by simp
qed

section \<open>Properties\<close>

text \<open>
  C11: Whatever the interleaving of the threads that call poll, at most one polls at a time;
  the word is exactly the lock bit and the number of waiting threads, so it never
  overflows; and no notification is lost: while the lock is free and a thread waits on the
  condition variable, another is awake to take the lock or about to notify.
\<close>

theorem poll_lock_correct:
  assumes "pl_reach n pl_init s" "n < 2 ^ 62"
  shows "(\<forall>i j x y. pl_pc s i = Polling x \<longrightarrow> pl_pc s j = Polling y \<longrightarrow> i = j) \<and>
    (\<forall>i. pl_pc s i \<noteq> Panicked) \<and>
    unat (pl_lock s) = 2 * count n counted s + of_bool (\<exists>i x. pl_pc s i = Polling x) \<and>
    (pl_lock s AND 1 = 0 \<and> (\<exists>i x. pl_pc s i = Waiting x) \<longrightarrow>
       (\<exists>j. pl_pc s j = Notify \<or> (\<exists>x. pl_pc s j = Woken x) \<or> (\<exists>cur x. pl_pc s j = Loop cur True x)))"
proof -
  note inv = pl_inv_reach [OF assms]
  have lt: "i < n" if "pl_pc s i \<noteq> Idle" for i using pl_invD(4) [OF inv, of i] that by (meson not_le)
  have lt': "pl_pc s i = Polling x \<Longrightarrow> i < n" for i x by (rule lt) simp
  have pol: "polling c \<longleftrightarrow> (\<exists>x. c = Polling x)" for c by (cases c) simp_all
  have ex: "(0 < count n polling s) = (\<exists>i x. pl_pc s i = Polling x)"
    using lt' by (auto simp: count_pos pol)
  have "i = j" if p: "pl_pc s i = Polling x" "pl_pc s j = Polling y" for i j x y
  proof -
    have "{i, j} \<subseteq> {k. k < n \<and> polling (pl_pc s k)}" using p lt [of i] lt [of j] by auto
    then have "card {i, j} \<le> count n polling s" unfolding count_def by (intro card_mono) auto
    also have "\<dots> \<le> 1" using pl_invD(2) [OF inv] .
    finally show ?thesis by (auto simp: card_insert_if split: if_splits)
  qed
  moreover have "pl_pc s i \<noteq> Panicked" for i using pl_invD(5) [OF inv, of i] by auto
  moreover have "count n polling s = of_bool (\<exists>i x. pl_pc s i = Polling x)"
    using ex pl_invD(2) [OF inv] by (auto simp: le_Suc_eq)
  then have "unat (pl_lock s) = 2 * count n counted s + of_bool (\<exists>i x. pl_pc s i = Polling x)"
    using pl_invD(1) [OF inv] by simp
  moreover have "\<exists>j. pl_pc s j = Notify \<or> (\<exists>x. pl_pc s j = Woken x) \<or> (\<exists>cur x. pl_pc s j = Loop cur True x)"
    if w: "pl_lock s AND 1 = 0" "pl_pc s i = Waiting x" for i x
  proof -
    have "0 < count n waiting s" using w(2) lt [of i] by (auto simp: count_pos)
    moreover have "count n polling s = 0" using pl_bit [OF inv] w(1) by simp
    ultimately have "0 < count n awake s" using pl_invD(6) [OF inv] by simp
    then obtain j where "awake (pl_pc s j)" by (auto simp: count_pos)
    then show ?thesis by (cases "pl_pc s j") auto
  qed
  ultimately show ?thesis by blast
qed

lemma poll_lock_correct_witness:
  "unat (pl_lock demo_waiting) = 2 * count 2 counted demo_waiting + 1 \<and> count 2 counted demo_waiting = 1"
proof -
  have "pl_pc demo_waiting 0 = Polling None" by (simp add: demo_waiting_def)
  then have "of_bool (\<exists>i x. pl_pc demo_waiting i = Polling x) = (1 :: nat)" by auto
  moreover have "unat (pl_lock demo_waiting) = 3" by (simp add: demo_waiting_def)
  ultimately show ?thesis using poll_lock_correct [OF demo_waiting_reach] by simp
qed

text \<open>
  When all calls have returned, the lock is as it was at the start: the word is zero and
  the mutex is free.
\<close>

lemma poll_lock_quiescent:
  assumes "pl_reach n pl_init s" "n < 2 ^ 62" "\<forall>i. pl_pc s i = Idle"
  shows "pl_lock s = 0 \<and> pl_mutex s = None"
proof -
  note inv = pl_inv_reach [OF assms(1,2)]
  have "unat (pl_lock s) = 0" using pl_invD(1) [OF inv] assms(3) by (simp add: count_def)
  moreover have "pl_mutex s = None"
    using pl_invD(3) [OF inv] assms(3) by (cases "pl_mutex s") (metis places_simps(46) not_Some_eq)+
  ultimately show ?thesis by (simp add: unat_eq_0)
qed

lemma poll_lock_quiescent_example:
  "pl_lock (pl_set 0 (pl_unlock 1) demo_polling) = 0"
proof -
  have u: "pl_unlock 1 = (0, Idle)" by code_simp
  let ?s = "pl_set 0 (pl_unlock (pl_lock demo_polling)) demo_polling"
  have "pl_trans 2 demo_polling ?s"
    by (rule pl_trans.unlock) (simp_all add: demo_polling_eq)
  then have r: "pl_reach 2 pl_init ?s" using demo_polling_reach by simp
  have "\<forall>i. pl_pc ?s i = Idle" by (simp add: demo_polling_eq u)
  then have "pl_lock ?s = 0" using poll_lock_quiescent [OF r] by simp
  then show ?thesis by (simp add: demo_polling_eq)
qed

end
