(* ===== verification/Poller.thy ===== *)
theory Poller
  imports Registration Poll_Lock
begin

text \<open>
  \<^verbatim>\<open>Poll\<close> of \<^verbatim>\<open>src/poll.rs\<close>: the selector and the readiness queue behind one call, the
  registration of file descriptors (\<^verbatim>\<open>EventedFd\<close>, \<^verbatim>\<open>Io\<close> and the awakener of
  \<^verbatim>\<open>src/sys/unix\<close>), and \<^verbatim>\<open>SelectorId\<close>. The kernel is one state \<open>'k\<close>, kept in the queue
  next to the awakener's pipe; its calls are arguments. What other threads do to the
  queue while \<^verbatim>\<open>select\<close> blocks is an argument too.
\<close>

section \<open>Poll\<close>

record 'k poll =
  po_selector :: selector
  po_queue :: "'k rq"

definition poll_selector :: "'k poll \<Rightarrow> selector" where
  "poll_selector po = po_selector po"

definition po_kernel :: "'k poll \<Rightarrow> 'k" where
  "po_kernel po = rq_pipe (po_queue po)"

definition po_update :: "selector \<Rightarrow> 'k \<Rightarrow> 'k poll \<Rightarrow> 'k poll" where
  "po_update sel k po = po\<lparr>po_selector := sel, po_queue := (po_queue po)\<lparr>rq_pipe := k\<rparr>\<rparr>"

section \<open>File descriptors as event sources\<close>

definition evfd_register ::
  "'k epoll_ctl \<Rightarrow> i32 \<Rightarrow> 'k poll \<Rightarrow> token_entry \<Rightarrow> ready \<Rightarrow> poll_opt \<Rightarrow> job \<Rightarrow>
   unit io_result \<times> 'k poll" where
  "evfd_register ctl fd po token interest opts job =
     (let (r, sel, k) =
        selector_register ctl (poll_selector po) fd token interest opts job (po_kernel po)
      in (r, po_update sel k po))"

definition evfd_reregister ::
  "'k epoll_ctl \<Rightarrow> i32 \<Rightarrow> 'k poll \<Rightarrow> token_entry \<Rightarrow> ready \<Rightarrow> poll_opt \<Rightarrow> unit io_result \<times> 'k poll" where
  "evfd_reregister ctl fd po token interest opts =
     (let (r, k) = selector_reregister ctl (poll_selector po) fd token interest opts (po_kernel po)
      in (r, po_update (po_selector po) k po))"

definition evfd_deregister ::
  "bool \<Rightarrow> 'k epoll_ctl \<Rightarrow> i32 \<Rightarrow> 'k poll \<Rightarrow> (unit io_result \<times> 'k poll) option" where
  "evfd_deregister debug_on ctl fd po = do {
     (r, sel, k) \<leftarrow> selector_deregister debug_on ctl (poll_selector po) fd (po_kernel po);
     Some (r, po_update sel k po)
   }"

text \<open>An \<^verbatim>\<open>Io\<close> is its descriptor.\<close>

record io =
  io_fd :: i32

definition io_register ::
  "'k epoll_ctl \<Rightarrow> io \<Rightarrow> 'k poll \<Rightarrow> token_entry \<Rightarrow> ready \<Rightarrow> poll_opt \<Rightarrow> job \<Rightarrow>
   unit io_result \<times> 'k poll" where
  "io_register ctl io po token interest opts job =
     evfd_register ctl (io_fd io) po token interest opts job"

definition io_reregister ::
  "'k epoll_ctl \<Rightarrow> io \<Rightarrow> 'k poll \<Rightarrow> token_entry \<Rightarrow> ready \<Rightarrow> poll_opt \<Rightarrow> unit io_result \<times> 'k poll" where
  "io_reregister ctl io po token interest opts =
     evfd_reregister ctl (io_fd io) po token interest opts"

definition io_deregister ::
  "bool \<Rightarrow> 'k epoll_ctl \<Rightarrow> io \<Rightarrow> 'k poll \<Rightarrow> (unit io_result \<times> 'k poll) option" where
  "io_deregister debug_on ctl io po = evfd_deregister debug_on ctl (io_fd io) po"

section \<open>The awakener's pipe\<close>

text \<open>
  \<^verbatim>\<open>unix::pipe\<close>. The calls of the C library are arguments: \<open>pipe2\<close> where \<^verbatim>\<open>dlsym\<close> finds it,
  \<open>pipe\<close>, \<open>fcntl\<close>, and \<open>close\<close>, which runs when an \<^verbatim>\<open>Io\<close> is dropped.
\<close>

datatype fcntl_cmd = F_GETFL | F_SETFL | F_GETFD | F_SETFD

definition O_NONBLOCK :: i32 where [mio_defs]: "O_NONBLOCK = 2048"
definition O_CLOEXEC :: i32 where [mio_defs]: "O_CLOEXEC = 524288"
definition FD_CLOEXEC :: i32 where [mio_defs]: "FD_CLOEXEC = 1"

type_synonym 'k pipe_call = "'k \<Rightarrow> (sysret \<times> i32 \<times> i32) \<times> 'k"
type_synonym 'k fcntl_call = "i32 \<Rightarrow> fcntl_cmd \<Rightarrow> i32 \<Rightarrow> 'k \<Rightarrow> sysret \<times> 'k"

definition set_nonblock :: "'k fcntl_call \<Rightarrow> i32 \<Rightarrow> 'k \<Rightarrow> unit io_result \<times> 'k" where
  "set_nonblock fcntl fd k =
     (let (flags, k) = fcntl fd F_GETFL 0 k;
          (ret, k) = fcntl fd F_SETFL (word_of_int (fst flags) OR O_NONBLOCK) k
      in (case cvt ret of Inl e \<Rightarrow> Inl e | Inr _ \<Rightarrow> Inr (), k))"

definition set_cloexec :: "'k fcntl_call \<Rightarrow> i32 \<Rightarrow> 'k \<Rightarrow> unit io_result \<times> 'k" where
  "set_cloexec fcntl fd k =
     (let (flags, k) = fcntl fd F_GETFD 0 k;
          (ret, k) = fcntl fd F_SETFD (word_of_int (fst flags) OR FD_CLOEXEC) k
      in (case cvt ret of Inl e \<Rightarrow> Inl e | Inr _ \<Rightarrow> Inr (), k))"

fun fcntl_all :: "'k fcntl_call \<Rightarrow> (i32 \<times> fcntl_cmd \<times> i32) list \<Rightarrow> 'k \<Rightarrow> unit io_result \<times> 'k" where
  "fcntl_all fcntl [] k = (Inr (), k)"
| "fcntl_all fcntl ((fd, cmd, arg) # cs) k =
     (let (ret, k) = fcntl fd cmd arg k
      in case cvt ret of Inl e \<Rightarrow> (Inl e, k) | Inr _ \<Rightarrow> fcntl_all fcntl cs k)"

definition unix_pipe ::
  "(i32 \<Rightarrow> 'k pipe_call) option \<Rightarrow> 'k pipe_call \<Rightarrow> 'k fcntl_call \<Rightarrow> (i32 \<Rightarrow> 'k \<Rightarrow> 'k) \<Rightarrow> 'k \<Rightarrow>
   (io \<times> io) io_result \<times> 'k" where
  "unix_pipe pipe2 pipe fcntl close k =
     (case pipe2 of
        Some pipe2_fn \<Rightarrow>
          (let ((ret, rd, wr), k) = pipe2_fn (O_NONBLOCK OR O_CLOEXEC) k
           in case cvt ret of
                Inl e \<Rightarrow> (Inl e, k)
              | Inr _ \<Rightarrow> (Inr (\<lparr>io_fd = rd\<rparr>, \<lparr>io_fd = wr\<rparr>), k))
      | None \<Rightarrow>
          (let ((ret, rd, wr), k) = pipe k
           in case cvt ret of
                Inl e \<Rightarrow> (Inl e, k)
              | Inr _ \<Rightarrow>
                  (case fcntl_all fcntl [(rd, F_SETFD, FD_CLOEXEC), (wr, F_SETFD, FD_CLOEXEC),
                      (rd, F_SETFL, O_NONBLOCK), (wr, F_SETFL, O_NONBLOCK)] k of
                     (Inl e, k) \<Rightarrow> (Inl e, close rd (close wr k))
                   | (Inr _, k) \<Rightarrow> (Inr (\<lparr>io_fd = rd\<rparr>, \<lparr>io_fd = wr\<rparr>), k))))"

text \<open>The awakener registers the reading end of its pipe.\<close>

record awakener =
  awk_reader :: io
  awk_writer :: io

definition awk_new :: "(io \<times> io) io_result \<Rightarrow> awakener io_result" where
  "awk_new pipe =
     (case pipe of Inl e \<Rightarrow> Inl e | Inr (rd, wr) \<Rightarrow> Inr \<lparr>awk_reader = rd, awk_writer = wr\<rparr>)"

definition awk_register ::
  "'k epoll_ctl \<Rightarrow> awakener \<Rightarrow> 'k poll \<Rightarrow> token_entry \<Rightarrow> ready \<Rightarrow> poll_opt \<Rightarrow> job \<Rightarrow>
   unit io_result \<times> 'k poll" where
  "awk_register ctl a po token interest opts job =
     io_register ctl (awk_reader a) po token interest opts job"

definition awk_reregister ::
  "'k epoll_ctl \<Rightarrow> awakener \<Rightarrow> 'k poll \<Rightarrow> token_entry \<Rightarrow> ready \<Rightarrow> poll_opt \<Rightarrow> unit io_result \<times> 'k poll" where
  "awk_reregister ctl a po token interest opts = io_reregister ctl (awk_reader a) po token interest opts"

definition awk_deregister ::
  "bool \<Rightarrow> 'k epoll_ctl \<Rightarrow> awakener \<Rightarrow> 'k poll \<Rightarrow> (unit io_result \<times> 'k poll) option" where
  "awk_deregister debug_on ctl a po = io_deregister debug_on ctl (awk_reader a) po"

section \<open>Making a poll\<close>

definition notify_entry :: token_entry where
  "notify_entry = \<lparr>te_ttype = NotifyEvent, te_token = Token 0\<rparr>"

text \<open>
  \<open>pipe\<close> is the pipe and the kernel after making it; \<open>a\<close> to \<open>c\<close> are the addresses of the
  queue and its markers.
\<close>

definition poll_new ::
  "sysret option \<Rightarrow> sysret \<Rightarrow> usize \<Rightarrow> ((io \<times> io) io_result \<times> 'k) \<Rightarrow> 'k epoll_ctl \<Rightarrow>
   (ptr \<rightharpoonup> node) \<Rightarrow> (ptr \<Rightarrow> nat) \<Rightarrow> ptr \<Rightarrow> ptr \<Rightarrow> ptr \<Rightarrow> ptr \<Rightarrow> ('k poll io_result \<times> usize) option" where
  "poll_new create1 create next_id pipe ctl heap arcs a e s c =
     (case selector_new create1 create next_id of
        (Inl err, next_id) \<Rightarrow> Some (Inl err, next_id)
      | (Inr sel, next_id) \<Rightarrow>
          (case awk_new (fst pipe) of
             Inl err \<Rightarrow> do {
               _ \<leftarrow> rq_new (Inl err :: 'k io_result) heap arcs a e s c;
               Some (Inl err, next_id)
             }
           | Inr awk \<Rightarrow> do {
               res \<leftarrow> rq_new (Inr (snd pipe)) heap arcs a e s c;
               (case res of
                  Inl err \<Rightarrow> Some (Inl err, next_id)
                | Inr q \<Rightarrow>
                    (case awk_register ctl awk \<lparr>po_selector = sel, po_queue = q\<rparr> notify_entry
                        ready_readable opt_edge NullJob of
                       (Inl err, _) \<Rightarrow> Some (Inl err, next_id)
                     | (Inr _, po) \<Rightarrow> Some (Inr po, next_id)))
             }))"

text \<open>
  The methods of \<^verbatim>\<open>Poll\<close> on a handle call the handle's: its method is the argument, and
  \<open>'h\<close> the state it keeps behind a shared reference.
\<close>

definition poll_register ::
  "('h \<Rightarrow> 'k poll \<Rightarrow> (unit io_result \<times> 'h \<times> 'k poll) option) \<Rightarrow> 'h \<Rightarrow> 'k poll \<Rightarrow>
   (unit io_result \<times> 'h \<times> 'k poll) option" where
  "poll_register handle h po = do {
     (res, h, po) \<leftarrow> handle h po;
     Some (case res of Inl e \<Rightarrow> (Inl e, h, po) | Inr _ \<Rightarrow> (Inr (), h, po))
   }"

definition poll_reregister ::
  "('h \<Rightarrow> 'k poll \<Rightarrow> (unit io_result \<times> 'h \<times> 'k poll) option) \<Rightarrow> 'h \<Rightarrow> 'k poll \<Rightarrow>
   (unit io_result \<times> 'h \<times> 'k poll) option" where
  "poll_reregister handle h po = do {
     (res, h, po) \<leftarrow> handle h po;
     Some (case res of Inl e \<Rightarrow> (Inl e, h, po) | Inr _ \<Rightarrow> (Inr (), h, po))
   }"

definition poll_deregister ::
  "('h \<Rightarrow> 'k poll \<Rightarrow> (unit io_result \<times> 'h \<times> 'k poll) option) \<Rightarrow> 'h \<Rightarrow> 'k poll \<Rightarrow>
   (unit io_result \<times> 'h \<times> 'k poll) option" where
  "poll_deregister handle h po = do {
     (res, h, po) \<leftarrow> handle h po;
     Some (case res of Inl e \<Rightarrow> (Inl e, h, po) | Inr _ \<Rightarrow> (Inr (), h, po))
   }"

section \<open>Polling\<close>

text \<open>
  The loop around \<^verbatim>\<open>select\<close>. In its \<open>i\<close>-th turn \<open>others i\<close> is what other threads do to
  the queue while it blocks, \<open>elapsed i\<close> how long that takes. \<open>Inl\<close> is the early return of
  an error.
\<close>

partial_function (option) poll2_select ::
  "'k epoll_wait \<Rightarrow> 'k pipe_read \<Rightarrow> (nat \<Rightarrow> 'k rq \<Rightarrow> 'k rq) \<Rightarrow> (nat \<Rightarrow> duration) \<Rightarrow> bool \<Rightarrow> nat \<Rightarrow>
   timeout_opt \<Rightarrow> 'k poll \<Rightarrow> sys_events \<Rightarrow> (unit io_result \<times> 'k poll \<times> sys_events) option" where
  "poll2_select wait rd others elapsed interruptible i timeout po evts =
     (let po = po\<lparr>po_queue := others i (po_queue po)\<rparr> in
      Option.bind (selector_select wait (po_selector po) evts timeout (po_kernel po))
        (\<lambda>(res, sel, evts, k).
        let po = po_update sel k po in
        case res of
          Inr has_notify \<Rightarrow>
            if has_notify then
              Option.bind (awk_cleanup rd k) (\<lambda>k. Some (Inr (), po_update sel k po, evts))
            else Some (Inr (), po, evts)
        | Inl e \<Rightarrow>
            if err_kind e = Interrupted \<and> \<not> interruptible then
              (case timeout of
                 Some t \<Rightarrow>
                   if duration_le t (elapsed i) then Some (Inr (), po, evts)
                   else poll2_select wait rd others elapsed interruptible (Suc i)
                     (Some (duration_sub t (elapsed i))) po evts
               | None \<Rightarrow>
                   poll2_select wait rd others elapsed interruptible (Suc i) None po evts)
            else Some (Inl e, po, evts)))"

declare poll2_select.simps [code]

definition poll2 ::
  "'k epoll_wait \<Rightarrow> 'k pipe_read \<Rightarrow> (nat \<Rightarrow> 'k rq \<Rightarrow> 'k rq) \<Rightarrow> (nat \<Rightarrow> duration) \<Rightarrow>
   'k poll \<Rightarrow> sys_events \<Rightarrow> timeout_opt \<Rightarrow> bool \<Rightarrow> (nat io_result \<times> 'k poll \<times> sys_events) option" where
  "poll2 wait rd others elapsed po evts timeout interruptible = do {
     (timeout, po) \<leftarrow>
       (if timeout = Some duration_zero then Some (timeout, po)
        else do {
          (asleep, q) \<leftarrow> prepare_for_sleep (po_queue po);
          Some (if asleep then timeout else Some duration_zero, po\<lparr>po_queue := q\<rparr>)
        });
     (res, po, evts) \<leftarrow> poll2_select wait rd others elapsed interruptible 0 timeout po evts;
     (case res of
        Inl e \<Rightarrow> Some (Inl e, po, evts)
      | Inr _ \<Rightarrow> do {
          (q, evts) \<leftarrow> rq_poll (po_queue po) evts;
          Some (Inr (se_len evts), po\<lparr>po_queue := q\<rparr>, evts)
        })
   }"

text \<open>\<^verbatim>\<open>poll\<close> and \<^verbatim>\<open>poll_interruptible\<close>, for a caller that finds the lock free.\<close>

definition poll_poll ::
  "'k epoll_wait \<Rightarrow> 'k pipe_read \<Rightarrow> (nat \<Rightarrow> 'k rq \<Rightarrow> 'k rq) \<Rightarrow> (nat \<Rightarrow> duration) \<Rightarrow>
   'k poll \<Rightarrow> sys_events \<Rightarrow> timeout_opt \<Rightarrow> (nat io_result \<times> 'k poll \<times> sys_events) option" where
  "poll_poll wait rd others elapsed po evts timeout = poll2 wait rd others elapsed po evts timeout False"

definition poll_interruptible ::
  "'k epoll_wait \<Rightarrow> 'k pipe_read \<Rightarrow> (nat \<Rightarrow> 'k rq \<Rightarrow> 'k rq) \<Rightarrow> (nat \<Rightarrow> duration) \<Rightarrow>
   'k poll \<Rightarrow> sys_events \<Rightarrow> timeout_opt \<Rightarrow> (nat io_result \<times> 'k poll \<times> sys_events) option" where
  "poll_interruptible wait rd others elapsed po evts timeout =
     poll2 wait rd others elapsed po evts timeout True"

section \<open>SelectorId\<close>

record selector_id =
  sid_id :: usize

definition sid_new :: selector_id where
  "sid_new = \<lparr>sid_id = 0\<rparr>"

definition sid_associate :: "selector_id \<Rightarrow> 'k poll \<Rightarrow> unit io_result \<times> selector_id" where
  "sid_associate s po =
     (let selector_id = sid_id s in
      if selector_id \<noteq> 0 \<and> selector_id \<noteq> sel_id (po_selector po)
      then (Inl (Io_error OtherKind ''Socket already registered''), s)
      else (Inr (), s\<lparr>sid_id := sel_id (po_selector po)\<rparr>))"

definition sid_clone :: "selector_id \<Rightarrow> selector_id" where
  "sid_clone s = \<lparr>sid_id = sid_id s\<rparr>"

section \<open>The events of a poll\<close>

text \<open>\<^verbatim>\<open>Events\<close> wraps the buffer of the selector.\<close>

record events =
  evs_inner :: sys_events

definition evs_with_capacity :: "nat \<Rightarrow> events" where
  "evs_with_capacity n = \<lparr>evs_inner = se_with_capacity n\<rparr>"

definition evs_get_mut :: "events \<Rightarrow> nat \<Rightarrow> job_entry option" where
  "evs_get_mut es idx = se_get_mut (evs_inner es) idx"

definition evs_len :: "events \<Rightarrow> nat" where
  "evs_len es = se_len (evs_inner es)"

definition evs_capacity :: "events \<Rightarrow> nat" where
  "evs_capacity es = se_capacity (evs_inner es)"

definition evs_is_empty :: "events \<Rightarrow> bool" where
  "evs_is_empty es = se_is_empty (evs_inner es)"

definition evs_clear :: "events \<Rightarrow> events" where
  "evs_clear es = es\<lparr>evs_inner := se_clear (evs_inner es)\<rparr>"

section \<open>One turn of the polling loop\<close>

lemma rq_pipe_upd [simp]:
  "rq_contents (q\<lparr>rq_pipe := k\<rparr>) c ps = rq_contents q c ps"
  "rq_nodes (q\<lparr>rq_pipe := k\<rparr>) = rq_nodes q"
  by (simp_all add: rq_contents_def rq_inv_def rq_data_def rq_markers_def rq_nodes_def fun_eq_iff)

lemma po_update_reads [simp]:
  "po_selector (po_update sel k po) = sel"
  "po_queue (po_update sel k po) = (po_queue po)\<lparr>rq_pipe := k\<rparr>"
  "po_kernel (po_update sel k po) = k"
  "po_update sel k (po_update sel' k' po) = po_update sel k po"
  by (simp_all add: po_update_def po_kernel_def)

lemma select_turn:
  assumes wait: "wait (sel_epfd (po_selector po)) (word_of_nat (se_events_cap evts))
      (select_timeout timeout) (rq_pipe (others i (po_queue po))) = ((ret, buf), k1)"
    and "cvt ret = Inr cnt" "nat cnt \<le> length buf"
    and cleanup: "(if \<exists>ev \<in> set (take (nat cnt) buf). notifies (sel_events_map (po_selector po)) ev
      then awk_cleanup rd k1 else Some k1) = Some k2"
  shows "\<exists>sel' evts'. poll2_select wait rd others elapsed interruptible i timeout po evts =
      Some (Inr (), po_update sel' k2 (po\<lparr>po_queue := others i (po_queue po)\<rparr>), evts') \<and>
    se_entries evts' =
      List.map_filter (selected (sel_events_map (po_selector po))) (take (nat cnt) buf) \<and>
    same_entries (sel_events_map (po_selector po)) (sel_events_map sel') \<and>
    sel_id sel' = sel_id (po_selector po) \<and> sel_epfd sel' = sel_epfd (po_selector po) \<and>
    (nat cnt \<le> se_entries_cap evts \<longrightarrow>
       se_entries_cap evts' = se_entries_cap evts \<and> length (se_entries evts') \<le> nat cnt)"
proof -
  from select_spec [where wait = wait and evts = evts and timeout = timeout and
      sel = "po_selector po", OF wait assms(2,3)]
  obtain sel' evts' where s: "selector_select wait (po_selector po) evts timeout
        (rq_pipe (others i (po_queue po))) =
      Some (Inr (\<exists>ev \<in> set (take (nat cnt) buf). notifies (sel_events_map (po_selector po)) ev),
        sel', evts', k1)"
    and r: "se_entries evts' =
        List.map_filter (selected (sel_events_map (po_selector po))) (take (nat cnt) buf)"
      "same_entries (sel_events_map (po_selector po)) (sel_events_map sel')"
      "sel_id sel' = sel_id (po_selector po)" "sel_epfd sel' = sel_epfd (po_selector po)"
      "nat cnt \<le> se_entries_cap evts \<longrightarrow>
        se_entries_cap evts' = se_entries_cap evts \<and> length (se_entries evts') \<le> nat cnt"
    by blast
  have "poll2_select wait rd others elapsed interruptible i timeout po evts =
      Some (Inr (), po_update sel' k2 (po\<lparr>po_queue := others i (po_queue po)\<rparr>), evts')"
    by (subst poll2_select.simps, cases "\<exists>ev \<in> set (take (nat cnt) buf).
        notifies (sel_events_map (po_selector po)) ev")
      (use cleanup in \<open>auto simp: Let_def po_kernel_def s\<close>)
  with r show ?thesis by blast
qed

text \<open>
  The queue as \<^verbatim>\<open>poll2\<close> leaves it to other threads when it blocks, and how long it may block.
\<close>

lemma poll2_turn:
  assumes hold: "rq_holds (po_queue po) ps"
    and sleep: "timeout \<noteq> Some duration_zero" "prepare_for_sleep (po_queue po) = Some (b, q1)"
    and q2: "rq_holds (others 0 q1) ps2" "nodes_ok (rq_nodes (others 0 q1)) ps2"
    and wait: "wait (sel_epfd (po_selector po)) (word_of_nat (se_events_cap evts))
      (select_timeout (if ps = [] then timeout else Some duration_zero)) (rq_pipe (others 0 q1)) =
      ((ret, buf), k1)"
    and cnt: "cvt ret = Inr cnt" "nat cnt \<le> length buf" "nat cnt \<le> se_entries_cap evts"
    and cleanup: "(if \<exists>ev \<in> set (take (nat cnt) buf). notifies (sel_events_map (po_selector po)) ev
      then awk_cleanup rd k1 else Some k1) = Some k2"
  shows "\<exists>don rest po' evts'. ps2 = don @ rest \<and>
    poll2 wait rd others elapsed po evts timeout interruptible =
      Some (Inr (length (se_entries evts')), po', evts') \<and>
    se_entries evts' =
      List.map_filter (selected (sel_events_map (po_selector po))) (take (nat cnt) buf) @
      entries (rq_nodes (others 0 q1)) don \<and>
    (rest = [] \<or> length (se_entries evts') = se_entries_cap evts) \<and>
    rq_holds (po_queue po') (rest @ requeues (rq_nodes (others 0 q1)) don) \<and>
    po_kernel po' = k2 \<and>
    same_entries (sel_events_map (po_selector po)) (sel_events_map (po_selector po'))"
proof -
  let ?sel = "po_selector po" and ?q2 = "others 0 q1"
  let ?t = "if ps = [] then timeout else Some duration_zero"
  have b: "b = (ps = [])" using prepare_holds [OF hold] sleep(2) by auto
  let ?po = "po\<lparr>po_queue := q1\<rparr>"
  have "wait (sel_epfd (po_selector ?po)) (word_of_nat (se_events_cap evts)) (select_timeout ?t)
      (rq_pipe (others 0 (po_queue ?po))) = ((ret, buf), k1)"
    using wait by simp
  from select_turn [where wait = wait and timeout = ?t and evts = evts and i = 0 and others = others and po = ?po and rd = rd and elapsed = elapsed
      and interruptible = interruptible and ?k2.0 = k2, OF this cnt(1,2)] cleanup
  obtain sel' e1 where s: "poll2_select wait rd others elapsed interruptible 0 ?t ?po evts =
      Some (Inr (), po_update sel' k2 (?po\<lparr>po_queue := ?q2\<rparr>), e1)"
    and e1: "se_entries e1 = List.map_filter (selected (sel_events_map ?sel)) (take (nat cnt) buf)"
      "same_entries (sel_events_map ?sel) (sel_events_map sel')"
      "se_entries_cap e1 = se_entries_cap evts" "length (se_entries e1) \<le> nat cnt"
    using cnt(3) by auto
  have "se_len e1 \<le> se_capacity e1" using e1(3,4) cnt(3) by (simp add: mio_defs)
  from poll_prefix [of "?q2\<lparr>rq_pipe := k2\<rparr>" ps2 e1] this q2
  obtain don rest q' e' where p: "ps2 = don @ rest" "rq_poll (?q2\<lparr>rq_pipe := k2\<rparr>) e1 = Some (q', e')"
    "rq_holds q' (rest @ requeues (rq_nodes ?q2) don)" "rq_static (?q2\<lparr>rq_pipe := k2\<rparr>) q'"
    "se_entries e' = se_entries e1 @ entries (rq_nodes ?q2) don"
    "se_capacity e' = se_capacity e1" "rest = [] \<or> se_len e' = se_capacity e'"
    by auto
  let ?po' = "(po_update sel' k2 (?po\<lparr>po_queue := ?q2\<rparr>))\<lparr>po_queue := q'\<rparr>"
  have run: "poll2 wait rd others elapsed po evts timeout interruptible =
      Some (Inr (length (se_entries e')), ?po', e')"
    using sleep b p(2) s by (simp add: poll2_def se_len_def)
  have "rest = [] \<or> length (se_entries e') = se_entries_cap evts"
    using p(6,7) e1(3) by (simp add: mio_defs)
  moreover have "po_kernel ?po' = k2" using p(4) by (simp add: po_kernel_def rq_static_def)
  moreover have "se_entries e' = List.map_filter (selected (sel_events_map ?sel)) (take (nat cnt) buf) @
      entries (rq_nodes ?q2) don" using p(5) e1(1) by simp
  moreover have "rq_holds (po_queue ?po') (rest @ requeues (rq_nodes ?q2) don)"
    "same_entries (sel_events_map ?sel) (sel_events_map (po_selector ?po'))"
    using p(3) e1(2) by simp_all
  ultimately show ?thesis using p(1) run by blast
qed


section \<open>Interrupted polls end\<close>

lemma duration_le_nanos:
  assumes "duration_ok a" "duration_ok b"
  shows "duration_le a b \<longleftrightarrow> duration_nanos a \<le> duration_nanos b"
  using assms
  by (auto simp: duration_le_def duration_ok_def duration_nanos_def word_less_nat_alt word_le_nat_alt
      word_unat_eq_iff)

lemma duration_sub_nanos:
  assumes "duration_ok a" "duration_ok b" "\<not> duration_le a b"
  shows "duration_ok (duration_sub a b)"
    "duration_nanos (duration_sub a b) = duration_nanos a - duration_nanos b"
proof -
  let ?sa = "dur_secs a" and ?sb = "dur_secs b" and ?na = "dur_nanos a" and ?nb = "dur_nanos b"
  have n: "unat ?na < 1000000000" "unat ?nb < 1000000000"
    using assms(1,2) by (simp_all add: duration_ok_def)
  have "duration_ok (duration_sub a b) \<and>
    duration_nanos (duration_sub a b) = duration_nanos a - duration_nanos b"
  proof (cases "?nb \<le> ?na")
    case True
    then have "?sb \<le> ?sa" using assms(3) by (auto simp: duration_le_def)
    then show ?thesis using True n
      by (simp add: duration_sub_def duration_ok_def duration_nanos_def unat_sub word_le_nat_alt
          diff_mult_distrib)
  next
    case False
    have lt: "?sb < ?sa" using False assms(3) by (auto simp: duration_le_def not_less)
    have "unat (?na + 1000000000) = unat ?na + 1000000000"
      using n by (subst unat_add_lem [THEN iffD1]) simp_all
    moreover have "?nb \<le> ?na + 1000000000" using n calculation by (simp add: word_le_nat_alt)
    ultimately have nn: "unat (?na + 1000000000 - ?nb) = unat ?na + 1000000000 - unat ?nb"
      by (simp add: unat_sub)
    have ss: "unat (?sa - ?sb - 1) = unat ?sa - unat ?sb - 1"
    proof -
      have "unat (?sa - ?sb) = unat ?sa - unat ?sb" using lt by (simp add: unat_sub)
      moreover have "1 \<le> unat ?sa - unat ?sb" using lt by (simp add: word_less_nat_alt)
      ultimately show ?thesis using unat_sub [of 1 "?sa - ?sb"] by (simp add: word_le_nat_alt)
    qed
    have "unat ?sb + 1 \<le> unat ?sa" using lt by (simp add: word_less_nat_alt)
    then obtain c where c: "unat ?sa = unat ?sb + 1 + c" using le_Suc_ex by blast
    have "unat ?na < unat ?nb" using False by (simp add: word_le_nat_alt)
    then show ?thesis using False n nn ss c
      by (simp add: duration_sub_def duration_ok_def duration_nanos_def) arith
  qed
  then show "duration_ok (duration_sub a b)"
    "duration_nanos (duration_sub a b) = duration_nanos a - duration_nanos b" by simp_all
qed


text \<open>
  What polling relies on between its turns: a queue it can poll, and a buffer with room for
  what the kernel reports.
\<close>

definition queue_ok :: "'k rq \<Rightarrow> bool" where
  "queue_ok q \<longleftrightarrow> (\<exists>ps. rq_holds q ps \<and> nodes_ok (rq_nodes q) ps)"

definition buffer_ok :: "sys_events \<Rightarrow> bool" where
  "buffer_ok evts \<longleftrightarrow> se_events_cap evts < 2 ^ 31 \<and> se_events_cap evts \<le> se_entries_cap evts"

definition wait_answers :: "'k epoll_wait \<Rightarrow> bool" where
  "wait_answers wait \<longleftrightarrow> (\<forall>ep n t k ret buf k' cnt. wait ep n t k = ((ret, buf), k') \<longrightarrow>
     cvt ret = Inr cnt \<longrightarrow> nat cnt \<le> length buf \<and> nat cnt \<le> unat n)"

lemma queue_ok_pipe [simp]: "queue_ok (q\<lparr>rq_pipe := k\<rparr>) = queue_ok q"
  by (simp add: queue_ok_def)

lemma select_step:
  assumes kernel: "wait_answers wait" "\<forall>k. awk_cleanup rd k \<noteq> None"
    and others: "\<forall>i q. queue_ok q \<longrightarrow> queue_ok (others i q)"
    and now: "queue_ok (po_queue po)" "buffer_ok evts"
  shows "\<exists>po' evts'. queue_ok (po_queue po') \<and> se_len evts' \<le> se_capacity evts' \<and>
    ((\<exists>r. poll2_select wait rd others elapsed interruptible i (Some t) po evts = Some (r, po', evts')) \<or>
     (buffer_ok evts' \<and>
      poll2_select wait rd others elapsed interruptible i (Some t) po evts =
        (if duration_le t (elapsed i) then Some (Inr (), po', evts')
         else poll2_select wait rd others elapsed interruptible (Suc i)
           (Some (duration_sub t (elapsed i))) po' evts')))"
proof -
  let ?q = "others i (po_queue po)"
  obtain ret buf k1 where w: "wait (sel_epfd (po_selector po)) (word_of_nat (se_events_cap evts))
      (select_timeout (Some t)) (rq_pipe ?q) = ((ret, buf), k1)"
    by (metis surj_pair)
  have q: "queue_ok ?q" using others now(1) by blast
  have cap: "unat (word_of_nat (se_events_cap evts) :: i32) = se_events_cap evts"
    using now(2) by (simp add: buffer_ok_def unat_of_nat take_bit_nat_eq_self)
  show ?thesis
  proof (cases "cvt ret")
    case (Inr cnt)
    then have c: "nat cnt \<le> length buf" "nat cnt \<le> se_entries_cap evts"
      using kernel(1) w cap now(2) unfolding wait_answers_def buffer_ok_def by (metis, metis le_trans)
    obtain ka where ka: "awk_cleanup rd k1 = Some ka" using kernel(2) by blast
    have "\<exists>k2. (if b then awk_cleanup rd k1 else Some k1) = Some k2" for b
      by (simp add: ka)
    then obtain k2 where "(if \<exists>ev \<in> set (take (nat cnt) buf).
        notifies (sel_events_map (po_selector po)) ev then awk_cleanup rd k1 else Some k1) = Some k2"
      by blast
    from select_turn [where wait = wait and timeout = "Some t" and evts = evts and i = i and po = po
        and others = others and rd = rd and elapsed = elapsed and interruptible = interruptible,
        OF w Inr c(1) this]
    obtain sel' e' where "poll2_select wait rd others elapsed interruptible i (Some t) po evts =
        Some (Inr (), po_update sel' k2 (po\<lparr>po_queue := ?q\<rparr>), e')"
      "se_entries_cap e' = se_entries_cap evts" "length (se_entries e') \<le> nat cnt"
      using c(2) by auto
    with q c(2) show ?thesis
      by (intro exI [of _ "po_update sel' k2 (po\<lparr>po_queue := ?q\<rparr>)"] exI [of _ e'])
        (auto simp: mio_defs)
  next
    case (Inl e)
    let ?po = "po_update (po_selector po) k1 (po\<lparr>po_queue := ?q\<rparr>)"
    have s: "selector_select wait (po_selector po) evts (Some t) (rq_pipe ?q) =
        Some (Inl e, po_selector po, se_clear evts, k1)"
      using w Inl by (simp add: selector_select_def se_clear_def Let_def)
    have "poll2_select wait rd others elapsed interruptible i (Some t) po evts =
        (if err_kind e = Interrupted \<and> \<not> interruptible then
           (if duration_le t (elapsed i) then Some (Inr (), ?po, se_clear evts)
            else poll2_select wait rd others elapsed interruptible (Suc i)
              (Some (duration_sub t (elapsed i))) ?po (se_clear evts))
         else Some (Inl e, ?po, se_clear evts))"
      by (subst poll2_select.simps) (simp add: Let_def po_kernel_def s)
    moreover have "buffer_ok (se_clear evts)" "se_len (se_clear evts) \<le> se_capacity (se_clear evts)"
      using now(2) by (simp_all add: buffer_ok_def se_clear_def mio_defs)
    ultimately show ?thesis
      using q by (intro exI [of _ ?po] exI [of _ "se_clear evts"]) auto
  qed
qed

lemma select_loop_total:
  assumes kernel: "wait_answers wait" "\<forall>k. awk_cleanup rd k \<noteq> None"
    and others: "\<forall>i q. queue_ok q \<longrightarrow> queue_ok (others i q)"
    and clock: "\<forall>i. duration_ok (elapsed i)"
  shows "queue_ok (po_queue po) \<Longrightarrow> buffer_ok evts \<Longrightarrow> duration_ok t \<Longrightarrow>
    duration_nanos t \<le> (\<Sum>j<n. duration_nanos (elapsed (i + j))) \<Longrightarrow>
    \<exists>r po' evts'. poll2_select wait rd others elapsed interruptible i (Some t) po evts =
      Some (r, po', evts') \<and> queue_ok (po_queue po') \<and> se_len evts' \<le> se_capacity evts'"
proof (induction n arbitrary: i t po evts)
  case (0 i t po evts)
  then have "duration_le t (elapsed i)" using clock by (simp add: duration_le_nanos)
  with select_step [OF kernel others 0(1,2), of elapsed interruptible i t] show ?case
    by auto
next
  case (Suc n i t po evts)
  let ?P = "poll2_select wait rd others elapsed interruptible"
  from select_step [OF kernel others Suc.prems(1,2), of elapsed interruptible i t]
  obtain po' evts' where p: "queue_ok (po_queue po')" "se_len evts' \<le> se_capacity evts'"
    "(\<exists>r. ?P i (Some t) po evts = Some (r, po', evts')) \<or>
     (buffer_ok evts' \<and> ?P i (Some t) po evts =
        (if duration_le t (elapsed i) then Some (Inr (), po', evts')
         else ?P (Suc i) (Some (duration_sub t (elapsed i))) po' evts'))"
    by blast
  show ?case
  proof (cases "(\<exists>r. ?P i (Some t) po evts = Some (r, po', evts')) \<or> duration_le t (elapsed i)")
    case True
    then show ?thesis using p by auto
  next
    case False
    let ?t = "duration_sub t (elapsed i)"
    have d: "duration_ok ?t" "duration_nanos ?t = duration_nanos t - duration_nanos (elapsed i)"
      using duration_sub_nanos [of t "elapsed i"] Suc.prems(3) clock False by auto
    have "duration_nanos ?t \<le> (\<Sum>j<n. duration_nanos (elapsed (Suc i + j)))"
      using Suc.prems(4) d(2) by (simp add: sum.lessThan_Suc_shift del: sum.lessThan_Suc)
    from Suc.IH [OF p(1) _ d(1) this] p(3) False show ?thesis by auto
  qed
qed

lemma poll2_returns:
  assumes kernel: "wait_answers wait" "\<forall>k. awk_cleanup rd k \<noteq> None"
    and others: "\<forall>i q. queue_ok q \<longrightarrow> queue_ok (others i q)"
    and clock: "\<forall>i. duration_ok (elapsed i)" "duration_ok t"
      "duration_nanos t \<le> (\<Sum>j<n. duration_nanos (elapsed j))"
    and now: "queue_ok (po_queue po)" "buffer_ok evts"
  shows "\<exists>r po' evts'. poll2 wait rd others elapsed po evts (Some t) interruptible =
      Some (r, po', evts') \<and> (\<exists>ps. rq_holds (po_queue po') ps)"
proof -
  obtain u po1 where u: "(if Some t = Some duration_zero then Some (Some t, po)
        else do {
          (asleep, q) \<leftarrow> prepare_for_sleep (po_queue po);
          Some (if asleep then Some t else Some duration_zero, po\<lparr>po_queue := q\<rparr>)
        }) = Some (Some u, po1)"
    and po1: "queue_ok (po_queue po1)" and "u = t \<or> u = duration_zero"
  proof (cases "t = duration_zero")
    case True
    then show ?thesis using that now(1) by auto
  next
    case False
    obtain ps where ps: "rq_holds (po_queue po) ps" "nodes_ok (rq_nodes (po_queue po)) ps"
      using now(1) by (auto simp: queue_ok_def)
    obtain q' where "prepare_for_sleep (po_queue po) = Some (ps = [], q')" "rq_holds q' ps"
      "rq_frame (po_queue po) q'"
      using prepare_holds [OF ps(1)] by blast
    moreover from this have "queue_ok q'" using ps(2) by (auto simp: queue_ok_def rq_frame_def)
    ultimately show ?thesis
      using that [of "if ps = [] then t else duration_zero" "po\<lparr>po_queue := q'\<rparr>"] False
      by (cases "ps = []") simp_all
  qed
  then have "duration_ok u" "duration_nanos u \<le> (\<Sum>j<n. duration_nanos (elapsed (0 + j)))"
    using clock(2,3) by (auto simp: duration_zero_def duration_ok_def duration_nanos_def)
  from select_loop_total [OF kernel others clock(1) po1 now(2) this]
  obtain r po2 e2 where s: "poll2_select wait rd others elapsed interruptible 0 (Some u) po1 evts =
      Some (r, po2, e2)" and r2: "queue_ok (po_queue po2)" "se_len e2 \<le> se_capacity e2"
    by blast
  from r2(1) obtain ps where ps: "rq_holds (po_queue po2) ps" "nodes_ok (rq_nodes (po_queue po2)) ps"
    by (auto simp: queue_ok_def)
  obtain q3 e3 ps3 where p: "rq_poll (po_queue po2) e2 = Some (q3, e3)" "rq_holds q3 ps3"
    using poll_prefix [OF ps r2(2)] by blast
  show ?thesis
    using ps p unfolding poll2_def u by (auto simp: s split: sum.splits)
qed


section \<open>A poll to run\<close>

text \<open>
  A selector that watches the socket 5 and the awakener's pipe 3, over the demonstration
  queue; a kernel that reports both, and one that is interrupted all the time.
\<close>

definition demo_selector :: selector where
  "demo_selector = \<lparr>sel_id = 1, sel_epfd = 4, sel_events_map =
     [5 \<mapsto> \<lparr>je_token_entry = \<lparr>te_ttype = SocketEvent, te_token = Token 9\<rparr>,
           je_job = UserJob 7, je_ready = ready_empty\<rparr>,
      3 \<mapsto> \<lparr>je_token_entry = notify_entry, je_job = NullJob, je_ready = ready_empty\<rparr>]\<rparr>"

definition demo_po :: "nat poll" where
  "demo_po = \<lparr>po_selector = demo_selector, po_queue = demo_poll\<lparr>rq_pipe := 200\<rparr>\<rparr>"

definition demo_reported :: "epoll_event list" where
  "demo_reported =
     [\<lparr>epe_events = EPOLLIN, epe_u64 = 5\<rparr>, \<lparr>epe_events = EPOLLIN, epe_u64 = 3\<rparr>]"

definition demo_reports :: "nat epoll_wait" where
  "demo_reports ep n t k = (((2, no_error), demo_reported), k)"

definition demo_eintr :: "nat epoll_wait" where
  "demo_eintr ep n t k = (((-1, Io_error Interrupted ''''), []), k)"

lemma demo_po_ok: "rq_holds (po_queue demo_po) [11, 10]"
  "nodes_ok (rq_nodes (po_queue demo_po)) [11, 10]"
  using demo_poll_holds demo_poll_ok by (simp_all add: demo_po_def)

section \<open>Properties\<close>

text \<open>
  C6: What a poll delivers, whatever other threads do to the queue while it blocks: first
  the registered descriptors the kernel reports, in its order, then the events of a prefix
  of the queue as those threads have left it, all of it unless the buffer fills up. It
  blocks for the caller's timeout only if the queue was empty, and not at all otherwise;
  the answer is the number of events, a reported awakener has its pipe emptied, and
  level-triggered nodes are back in the queue.
\<close>

theorem poll_delivers:
  assumes "rq_holds (po_queue po) ps"
    and "timeout \<noteq> Some duration_zero" "prepare_for_sleep (po_queue po) = Some (b, q1)"
    and "rq_holds (others 0 q1) ps2" "nodes_ok (rq_nodes (others 0 q1)) ps2"
    and "wait (sel_epfd (po_selector po)) (word_of_nat (se_events_cap evts))
      (select_timeout (if ps = [] then timeout else Some duration_zero)) (rq_pipe (others 0 q1)) =
      ((ret, buf), k1)"
    and "cvt ret = Inr cnt" "nat cnt \<le> length buf" "nat cnt \<le> se_entries_cap evts"
    and "(if \<exists>ev \<in> set (take (nat cnt) buf). notifies (sel_events_map (po_selector po)) ev
      then awk_cleanup rd k1 else Some k1) = Some k2"
  shows "\<exists>don rest po' evts'. ps2 = don @ rest \<and>
    poll_poll wait rd others elapsed po evts timeout = Some (Inr (length (se_entries evts')), po', evts') \<and>
    se_entries evts' =
      List.map_filter (selected (sel_events_map (po_selector po))) (take (nat cnt) buf) @
      entries (rq_nodes (others 0 q1)) don \<and>
    (rest = [] \<or> length (se_entries evts') = se_entries_cap evts) \<and>
    rq_holds (po_queue po') (rest @ requeues (rq_nodes (others 0 q1)) don) \<and>
    po_kernel po' = k2 \<and>
    same_entries (sel_events_map (po_selector po)) (sel_events_map (po_selector po'))"
proof -
  from poll2_turn [where wait = wait and others = others and evts = evts and timeout = timeout and
      rd = rd and elapsed = elapsed and interruptible = False and po = po, OF assms]
  show ?thesis unfolding poll_poll_def by blast
qed

lemma poll_delivers_witness:
  "\<exists>n po' evts'. poll_poll demo_reports demo_read (\<lambda>_ q. q) (\<lambda>_. duration_zero) demo_po
      (se_with_capacity 8) None = Some (Inr n, po', evts') \<and>
    map je_job (se_entries evts') = [UserJob 7, NullJob, UserJob 1] \<and>
    rq_holds (po_queue po') [10] \<and> po_kernel po' = 0"
proof -
  let ?e = "se_with_capacity 8" and ?q = "po_queue demo_po"
  obtain q1 where q1: "prepare_for_sleep ?q = Some (False, q1)" "rq_holds q1 [11, 10]"
    "rq_frame ?q q1"
    using prepare_holds [OF demo_po_ok(1)] by auto
  then have n: "rq_nodes q1 = rq_nodes ?q" "rq_pipe q1 = 200"
    by (simp_all add: rq_frame_def demo_po_def)
  have c: "cvt (2, no_error) = Inr 2" "nat 2 \<le> length demo_reported" "nat 2 \<le> se_entries_cap ?e"
    by (simp_all add: cvt_def demo_reported_def se_with_capacity_def)
  have d: "(if \<exists>ev \<in> set (take (nat 2) demo_reported). notifies (sel_events_map (po_selector demo_po)) ev
      then awk_cleanup demo_read 200 else Some 200) = Some 0"
    by code_simp
  have jobs: "map je_job (List.map_filter (selected (sel_events_map (po_selector demo_po)))
      (take (nat 2) demo_reported)) = [UserJob 7]"
    "map je_job (entries (rq_nodes ?q) [11, 10]) = [NullJob, UserJob 1]"
    "requeues (rq_nodes ?q) [11, 10] = [10]" by code_simp+
  have ne: "None \<noteq> Some duration_zero" by simp
  have h: "rq_holds ((\<lambda>_ q. q) (0 :: nat) q1) [11, 10]"
    "nodes_ok (rq_nodes ((\<lambda>_ q. q) (0 :: nat) q1)) [11, 10]"
    using demo_po_ok(2) q1(2) n by simp_all
  have w: "demo_reports (sel_epfd (po_selector demo_po)) (word_of_nat (se_events_cap ?e))
      (select_timeout (if [11 :: nat, 10] = [] then None else Some duration_zero))
      (rq_pipe ((\<lambda>_ q. q) (0 :: nat) q1)) = (((2, no_error), demo_reported), 200)"
    by (simp add: demo_reports_def n)
  from poll_delivers [where wait = demo_reports and others = "\<lambda>_ q. q" and evts = ?e and
      timeout = None and rd = demo_read and elapsed = "\<lambda>_. duration_zero" and po = demo_po,
      OF demo_po_ok(1) ne q1(1) h w c d]
  obtain don rest po' e' where r: "[11, 10] = don @ rest"
    "poll_poll demo_reports demo_read (\<lambda>_ q. q) (\<lambda>_. duration_zero) demo_po ?e None =
       Some (Inr (length (se_entries e')), po', e')"
    "se_entries e' = List.map_filter (selected (sel_events_map (po_selector demo_po)))
        (take (nat 2) demo_reported) @ entries (rq_nodes ?q) don"
    "rest = [] \<or> length (se_entries e') = se_entries_cap ?e"
    "rq_holds (po_queue po') (rest @ requeues (rq_nodes ?q) don)" "po_kernel po' = 0"
    unfolding n(1) by blast
  have "length (entries ns ps) \<le> length ps" for ns ps
    by (simp add: entries_def List.map_filter_def)
  then have "length (entries (rq_nodes ?q) don) \<le> 2"
    using arg_cong [OF r(1), of length] by (metis le_add1 le_trans length_append list.size(3,4)
        One_nat_def Suc_1 add_0 add_Suc_right plus_1_eq_Suc)
  moreover have "length (se_entries e') = 1 + length (entries (rq_nodes ?q) don)"
    using arg_cong [OF jobs(1), of length] unfolding r(3) by simp
  ultimately have "length (se_entries e') \<noteq> se_entries_cap ?e"
    by (simp add: se_with_capacity_def)
  then have "rest = []" "don = [11, 10]" using r(1,4) by auto
  then show ?thesis using r jobs by auto
qed

text \<open>
  C7: A poll with a timeout returns, however often signals interrupt it: each turn takes
  the time that has passed off the timeout, so once the turns have lasted for the timeout
  together, the last one is over. Other threads may change the queue in any way that
  keeps it a queue.
\<close>

theorem poll_returns_in_time:
  assumes "wait_answers wait" "\<forall>k. awk_cleanup rd k \<noteq> None"
    and "\<forall>i q. queue_ok q \<longrightarrow> queue_ok (others i q)"
    and "\<forall>i. duration_ok (elapsed i)" "duration_ok t"
    and "duration_nanos t \<le> (\<Sum>j<n. duration_nanos (elapsed j))"
    and "queue_ok (po_queue po)" "buffer_ok evts"
  shows "\<exists>r po' evts'. poll_poll wait rd others elapsed po evts (Some t) = Some (r, po', evts') \<and>
    (\<exists>ps. rq_holds (po_queue po') ps)"
  unfolding poll_poll_def using poll2_returns [OF assms] .

lemma poll_returns_in_time_witness:
  "\<exists>r po' evts'. poll_poll demo_eintr demo_read (\<lambda>_ q. q) (\<lambda>_. \<lparr>dur_secs = 0, dur_nanos = 400\<rparr>) demo_po
    (se_with_capacity 8) (Some \<lparr>dur_secs = 0, dur_nanos = 1000\<rparr>) = Some (r, po', evts')"
proof -
  have "wait_answers demo_eintr" by (simp add: wait_answers_def demo_eintr_def cvt_def)
  moreover have "\<forall>k. awk_cleanup demo_read k \<noteq> None"
    using awk_cleanup_drains_aux [OF demo_pipe_laws [of 4]] by (metis option.distinct(1))
  moreover have "queue_ok (po_queue demo_po)" using demo_po_ok by (auto simp: queue_ok_def)
  moreover have "buffer_ok (se_with_capacity 8)" by (simp add: buffer_ok_def se_with_capacity_def)
  ultimately show ?thesis
    using poll_returns_in_time [where wait = demo_eintr and rd = demo_read and others = "\<lambda>_ q. q" and
        elapsed = "\<lambda>_. \<lparr>dur_secs = 0, dur_nanos = 400\<rparr>" and n = 3 and po = demo_po and
        t = "\<lparr>dur_secs = 0, dur_nanos = 1000\<rparr>" and evts = "se_with_capacity 8"]
    by (auto simp: duration_ok_def duration_nanos_def)
qed

end
