(* ===== verification/Net_Tcp.thy ===== *)
theory Net_Tcp
  imports Poller
begin

text \<open>
  The byte streams under a connection: the non-blocking reads and writes of
  \<^verbatim>\<open>src/net/mod.rs\<close>, and the sockets of \<^verbatim>\<open>src/net/tcp.rs\<close> and \<^verbatim>\<open>src/sys/unix/tcp.rs\<close>. The
  socket calls of the kernel and the buffers of the \<^verbatim>\<open>bytes\<close> crate are arguments.
\<close>

section \<open>Buffers\<close>

type_synonym byte = "8 word"

text \<open>
  What the code uses of \<^verbatim>\<open>BytesMut\<close>: its content, reading from its front, writing to the
  room behind it, splitting all of it off, and appending. \<open>bo_chunk_mut\<close> gives the length
  of the room; \<open>bo_advance_mut\<close> takes the bytes that were written there. \<open>None\<close> is the panic
  of advancing too far.
\<close>

record 'b buf_ops =
  bo_with_capacity :: "nat \<Rightarrow> 'b"
  bo_bytes :: "'b \<Rightarrow> byte list"
  bo_chunk :: "'b \<Rightarrow> byte list"
  bo_advance :: "nat \<Rightarrow> 'b \<Rightarrow> 'b option"
  bo_chunk_mut :: "'b \<Rightarrow> nat \<times> 'b"
  bo_advance_mut :: "byte list \<Rightarrow> 'b \<Rightarrow> 'b option"
  bo_split :: "'b \<Rightarrow> 'b \<times> 'b"
  bo_put :: "'b \<Rightarrow> 'b \<Rightarrow> 'b"

definition bo_len :: "'b buf_ops \<Rightarrow> 'b \<Rightarrow> nat" where
  [mio_defs]: "bo_len bo b = length (bo_bytes bo b)"

text \<open>What is documented of them.\<close>

definition buf_laws :: "'b buf_ops \<Rightarrow> bool" where
  "buf_laws bo \<longleftrightarrow>
     (\<forall>n. bo_bytes bo (bo_with_capacity bo n) = []) \<and>
     (\<forall>b. bo_chunk bo b = bo_bytes bo b) \<and>
     (\<forall>n b. n \<le> length (bo_bytes bo b) \<longrightarrow>
        map_option (bo_bytes bo) (bo_advance bo n b) = Some (drop n (bo_bytes bo b))) \<and>
     (\<forall>b. 0 < fst (bo_chunk_mut bo b) \<and> bo_bytes bo (snd (bo_chunk_mut bo b)) = bo_bytes bo b) \<and>
     (\<forall>b xs. length xs \<le> fst (bo_chunk_mut bo b) \<longrightarrow>
        map_option (bo_bytes bo) (bo_advance_mut bo xs (snd (bo_chunk_mut bo b))) =
          Some (bo_bytes bo b @ xs)) \<and>
     (\<forall>b. bo_bytes bo (fst (bo_split bo b)) = bo_bytes bo b \<and> bo_bytes bo (snd (bo_split bo b)) = []) \<and>
     (\<forall>a b. bo_bytes bo (bo_put bo a b) = bo_bytes bo a @ bo_bytes bo b)"

lemma buf_lawsD:
  assumes "buf_laws bo"
  shows "bo_bytes bo (bo_with_capacity bo n) = []" "bo_chunk bo b = bo_bytes bo b"
    "bo_bytes bo (fst (bo_split bo b)) = bo_bytes bo b" "bo_bytes bo (snd (bo_split bo b)) = []"
    "bo_bytes bo (bo_put bo a b) = bo_bytes bo a @ bo_bytes bo b"
    "0 < fst (bo_chunk_mut bo b)" "bo_bytes bo (snd (bo_chunk_mut bo b)) = bo_bytes bo b"
  using assms by (auto simp: buf_laws_def)

lemma buf_advance:
  assumes "buf_laws bo" "n \<le> length (bo_bytes bo b)"
  obtains b' where "bo_advance bo n b = Some b'" "bo_bytes bo b' = drop n (bo_bytes bo b)"
proof -
  have "map_option (bo_bytes bo) (bo_advance bo n b) = Some (drop n (bo_bytes bo b))"
    using assms unfolding buf_laws_def by blast
  then show ?thesis using that by auto
qed

lemma buf_advance_mut:
  assumes "buf_laws bo" "bo_chunk_mut bo b = (n, b1)" "length xs \<le> n"
  obtains b' where "bo_advance_mut bo xs b1 = Some b'" "bo_bytes bo b' = bo_bytes bo b @ xs"
proof -
  have "map_option (bo_bytes bo) (bo_advance_mut bo xs (snd (bo_chunk_mut bo b))) =
      Some (bo_bytes bo b @ xs)"
    using assms(1,3) arg_cong [OF assms(2), of fst] unfolding buf_laws_def fst_conv by blast
  then show ?thesis using that assms(2) by auto
qed

text \<open>Buffers that are lists, with room for \<open>r\<close> bytes.\<close>

definition list_bufs :: "nat \<Rightarrow> byte list buf_ops" where
  "list_bufs r = \<lparr>bo_with_capacity = (\<lambda>_. []), bo_bytes = (\<lambda>b. b), bo_chunk = (\<lambda>b. b),
     bo_advance = (\<lambda>n b. if n \<le> length b then Some (drop n b) else None),
     bo_chunk_mut = (\<lambda>b. (Suc r, b)),
     bo_advance_mut = (\<lambda>xs b. if length xs \<le> Suc r then Some (b @ xs) else None),
     bo_split = (\<lambda>b. (b, [])), bo_put = (@)\<rparr>"

lemma list_bufs_laws: "buf_laws (list_bufs r)"
  by (simp add: buf_laws_def list_bufs_def)

section \<open>Reads and writes that do not block\<close>

definition map_non_block :: "'a io_result \<Rightarrow> 'a option io_result" where
  "map_non_block r =
     (case r of
        Inr value \<Rightarrow> Inr (Some value)
      | Inl err \<Rightarrow> if err_kind err = WouldBlock then Inr None else Inl err)"

text \<open>
  \<open>rd n\<close> reads into a slice of \<open>n\<close> bytes and gives what it has written there; \<open>wr bs\<close> says
  how many of the bytes it took.
\<close>

type_synonym 'k stream_read = "nat \<Rightarrow> 'k \<Rightarrow> byte list io_result \<times> 'k"
type_synonym 'k stream_write = "byte list \<Rightarrow> 'k \<Rightarrow> nat io_result \<times> 'k"

definition try_read :: "'k stream_read \<Rightarrow> nat \<Rightarrow> 'k \<Rightarrow> byte list option io_result \<times> 'k" where
  "try_read rd n k = (let (r, k) = rd n k in (map_non_block r, k))"

definition try_write :: "'k stream_write \<Rightarrow> byte list \<Rightarrow> 'k \<Rightarrow> nat option io_result \<times> 'k" where
  "try_write wr src k = (let (r, k) = wr src k in (map_non_block r, k))"

definition try_read_buf ::
  "'b buf_ops \<Rightarrow> 'k stream_read \<Rightarrow> 'b \<Rightarrow> 'k \<Rightarrow> (nat option io_result \<times> 'b \<times> 'k) option" where
  "try_read_buf bo rd buf k =
     (let (n, buf) = bo_chunk_mut bo buf;
          (res, k) = try_read rd n k
      in case res of
           Inl e \<Rightarrow> Some (Inl e, buf, k)
         | Inr None \<Rightarrow> Some (Inr None, buf, k)
         | Inr (Some bs) \<Rightarrow> do {
             buf \<leftarrow> bo_advance_mut bo bs buf;
             Some (Inr (Some (length bs)), buf, k)
           })"

definition try_write_buf ::
  "'b buf_ops \<Rightarrow> 'k stream_write \<Rightarrow> 'b \<Rightarrow> 'k \<Rightarrow> (nat option io_result \<times> 'b \<times> 'k) option" where
  "try_write_buf bo wr buf k =
     (let (res, k) = try_write wr (bo_chunk bo buf) k
      in case res of
           Inr (Some cnt) \<Rightarrow> do {
             buf \<leftarrow> bo_advance bo cnt buf;
             Some (Inr (Some cnt), buf, k)
           }
         | _ \<Rightarrow> Some (res, buf, k))"

section \<open>Sockets\<close>

datatype shutdown = Shut_Read | Shut_Write | Shut_Both

datatype 'a socket_addr = V4 'a | V6 'a

text \<open>
  The calls on sockets, which \<^verbatim>\<open>std::net\<close> and \<^verbatim>\<open>net2\<close> make. A socket is its descriptor;
  \<open>no_close\<close> runs when its owner is dropped.
\<close>

record ('a, 'k) net_ops =
  no_new_v4 :: "'k \<Rightarrow> i32 io_result \<times> 'k"
  no_new_v6 :: "'k \<Rightarrow> i32 io_result \<times> 'k"
  no_reuse_address :: "i32 \<Rightarrow> bool \<Rightarrow> 'k \<Rightarrow> unit io_result \<times> 'k"
  no_reuse_port :: "i32 \<Rightarrow> bool \<Rightarrow> 'k \<Rightarrow> unit io_result \<times> 'k"
  no_bind :: "i32 \<Rightarrow> 'a socket_addr \<Rightarrow> 'k \<Rightarrow> unit io_result \<times> 'k"
  no_listen :: "i32 \<Rightarrow> nat \<Rightarrow> 'k \<Rightarrow> unit io_result \<times> 'k"
  no_connect :: "i32 \<Rightarrow> 'a socket_addr \<Rightarrow> 'k \<Rightarrow> unit io_result \<times> 'k"
  no_accept :: "i32 \<Rightarrow> 'k \<Rightarrow> (i32 \<times> 'a socket_addr) io_result \<times> 'k"
  no_read :: "i32 \<Rightarrow> 'k stream_read"
  no_write :: "i32 \<Rightarrow> 'k stream_write"
  no_shutdown :: "i32 \<Rightarrow> shutdown \<Rightarrow> 'k \<Rightarrow> unit io_result \<times> 'k"
  no_take_error :: "i32 \<Rightarrow> 'k \<Rightarrow> io_error option io_result \<times> 'k"
  no_fcntl :: "'k fcntl_call"
  no_close :: "i32 \<Rightarrow> 'k \<Rightarrow> 'k"
  no_ctl :: "'k epoll_ctl"

text \<open>The error of a \<^verbatim>\<open>connect\<close> that goes on in the background.\<close>

definition EINPROGRESS :: error_kind where
  "EINPROGRESS = OsKind 115"

text \<open>
  \<^verbatim>\<open>?\<close> in a function that owns the descriptor \<open>fd\<close>: an error drops it.
\<close>

definition or_close ::
  "('a, 'k) net_ops \<Rightarrow> i32 \<Rightarrow> unit io_result \<times> 'k \<Rightarrow> ('k \<Rightarrow> 'r io_result \<times> 'k) \<Rightarrow> 'r io_result \<times> 'k" where
  "or_close no fd res rest =
     (case res of (Inl e, k) \<Rightarrow> (Inl e, no_close no fd k) | (Inr _, k) \<Rightarrow> rest k)"

record tcp_stream =
  ts_sys :: i32
  ts_selector_id :: selector_id

record tcp_listener =
  tl_sys :: i32
  tl_selector_id :: selector_id

subsection \<open>Streams\<close>

definition sys_connect ::
  "('a, 'k) net_ops \<Rightarrow> i32 \<Rightarrow> 'a socket_addr \<Rightarrow> 'k \<Rightarrow> i32 io_result \<times> 'k" where
  "sys_connect no fd addr k =
     or_close no fd (set_nonblock (no_fcntl no) fd k) (\<lambda>k.
       case no_connect no fd addr k of
         (Inr _, k) \<Rightarrow> (Inr fd, k)
       | (Inl e, k) \<Rightarrow> if err_kind e = EINPROGRESS then (Inr fd, k) else (Inl e, no_close no fd k))"

text \<open>The other methods of the inner stream only call the kernel with its descriptor.\<close>

definition sys_shutdown :: "('a, 'k) net_ops \<Rightarrow> i32 \<Rightarrow> shutdown \<Rightarrow> 'k \<Rightarrow> unit io_result \<times> 'k" where
  [simp]: "sys_shutdown no fd how k = no_shutdown no fd how k"

definition sys_take_error :: "('a, 'k) net_ops \<Rightarrow> i32 \<Rightarrow> 'k \<Rightarrow> io_error option io_result \<times> 'k" where
  [simp]: "sys_take_error no fd k = no_take_error no fd k"

definition sys_read :: "('a, 'k) net_ops \<Rightarrow> i32 \<Rightarrow> 'k stream_read" where
  [simp]: "sys_read no fd n k = no_read no fd n k"

definition sys_write :: "('a, 'k) net_ops \<Rightarrow> i32 \<Rightarrow> 'k stream_write" where
  [simp]: "sys_write no fd bs k = no_write no fd bs k"

definition sys_register ::
  "'k epoll_ctl \<Rightarrow> i32 \<Rightarrow> 'k poll \<Rightarrow> token_entry \<Rightarrow> ready \<Rightarrow> poll_opt \<Rightarrow> job \<Rightarrow> unit io_result \<times> 'k poll" where
  [simp]: "sys_register ctl fd po token interest opts job = evfd_register ctl fd po token interest opts job"

definition sys_reregister ::
  "'k epoll_ctl \<Rightarrow> i32 \<Rightarrow> 'k poll \<Rightarrow> token_entry \<Rightarrow> ready \<Rightarrow> poll_opt \<Rightarrow> unit io_result \<times> 'k poll" where
  [simp]: "sys_reregister ctl fd po token interest opts = evfd_reregister ctl fd po token interest opts"

definition sys_deregister ::
  "bool \<Rightarrow> 'k epoll_ctl \<Rightarrow> i32 \<Rightarrow> 'k poll \<Rightarrow> (unit io_result \<times> 'k poll) option" where
  [simp]: "sys_deregister debug_on ctl fd po = evfd_deregister debug_on ctl fd po"

definition connect_stream ::
  "('a, 'k) net_ops \<Rightarrow> i32 \<Rightarrow> 'a socket_addr \<Rightarrow> 'k \<Rightarrow> tcp_stream io_result \<times> 'k" where
  "connect_stream no fd addr k =
     or_close no fd (set_nonblock (no_fcntl no) fd k) (\<lambda>k.
       case sys_connect no fd addr k of
         (Inl e, k) \<Rightarrow> (Inl e, k)
       | (Inr fd, k) \<Rightarrow> (Inr \<lparr>ts_sys = fd, ts_selector_id = sid_new\<rparr>, k))"

definition tcp_connect ::
  "('a, 'k) net_ops \<Rightarrow> 'a socket_addr \<Rightarrow> 'k \<Rightarrow> tcp_stream io_result \<times> 'k" where
  "tcp_connect no addr k =
     (case (case addr of V4 _ \<Rightarrow> no_new_v4 no k | V6 _ \<Rightarrow> no_new_v6 no k) of
        (Inl e, k) \<Rightarrow> (Inl e, k)
      | (Inr fd, k) \<Rightarrow> connect_stream no fd addr k)"

definition from_stream :: "('a, 'k) net_ops \<Rightarrow> i32 \<Rightarrow> 'k \<Rightarrow> tcp_stream io_result \<times> 'k" where
  "from_stream no fd k =
     or_close no fd (set_nonblock (no_fcntl no) fd k)
       (\<lambda>k. (Inr \<lparr>ts_sys = fd, ts_selector_id = sid_new\<rparr>, k))"

definition stream_shutdown ::
  "('a, 'k) net_ops \<Rightarrow> tcp_stream \<Rightarrow> shutdown \<Rightarrow> 'k \<Rightarrow> unit io_result \<times> 'k" where
  "stream_shutdown no s how k = sys_shutdown no (ts_sys s) how k"

definition stream_take_error ::
  "('a, 'k) net_ops \<Rightarrow> tcp_stream \<Rightarrow> 'k \<Rightarrow> io_error option io_result \<times> 'k" where
  "stream_take_error no s k = sys_take_error no (ts_sys s) k"

definition stream_read :: "('a, 'k) net_ops \<Rightarrow> tcp_stream \<Rightarrow> 'k stream_read" where
  "stream_read no s n k = sys_read no (ts_sys s) n k"

definition stream_write :: "('a, 'k) net_ops \<Rightarrow> tcp_stream \<Rightarrow> 'k stream_write" where
  "stream_write no s bs k = sys_write no (ts_sys s) bs k"

definition stream_register ::
  "'k epoll_ctl \<Rightarrow> token_entry \<Rightarrow> ready \<Rightarrow> poll_opt \<Rightarrow> job \<Rightarrow> tcp_stream \<Rightarrow> 'k poll \<Rightarrow>
   (unit io_result \<times> tcp_stream \<times> 'k poll) option" where
  "stream_register ctl token interest opts job s po =
     (case sid_associate (ts_selector_id s) po of
        (Inl e, i) \<Rightarrow> Some (Inl e, s\<lparr>ts_selector_id := i\<rparr>, po)
      | (Inr _, i) \<Rightarrow>
          (let (r, po) = sys_register ctl (ts_sys s) po token interest opts job
           in Some (r, s\<lparr>ts_selector_id := i\<rparr>, po)))"

definition stream_reregister ::
  "'k epoll_ctl \<Rightarrow> token_entry \<Rightarrow> ready \<Rightarrow> poll_opt \<Rightarrow> tcp_stream \<Rightarrow> 'k poll \<Rightarrow>
   (unit io_result \<times> tcp_stream \<times> 'k poll) option" where
  "stream_reregister ctl token interest opts s po =
     (let (r, po) = sys_reregister ctl (ts_sys s) po token interest opts in Some (r, s, po))"

definition stream_deregister ::
  "bool \<Rightarrow> 'k epoll_ctl \<Rightarrow> tcp_stream \<Rightarrow> 'k poll \<Rightarrow> (unit io_result \<times> tcp_stream \<times> 'k poll) option" where
  "stream_deregister debug_on ctl s po = do {
     (r, po) \<leftarrow> sys_deregister debug_on ctl (ts_sys s) po;
     Some (r, s, po)
   }"

subsection \<open>Listeners\<close>

definition sys_listener_new :: "('a, 'k) net_ops \<Rightarrow> i32 \<Rightarrow> 'k \<Rightarrow> i32 io_result \<times> 'k" where
  "sys_listener_new no fd k = or_close no fd (set_nonblock (no_fcntl no) fd k) (\<lambda>k. (Inr fd, k))"

definition sys_accept :: "('a, 'k) net_ops \<Rightarrow> i32 \<Rightarrow> 'k \<Rightarrow> (i32 \<times> 'a socket_addr) io_result \<times> 'k" where
  [simp]: "sys_accept no fd k = no_accept no fd k"

definition sys_listener_register ::
  "'k epoll_ctl \<Rightarrow> i32 \<Rightarrow> 'k poll \<Rightarrow> token_entry \<Rightarrow> ready \<Rightarrow> poll_opt \<Rightarrow> job \<Rightarrow> unit io_result \<times> 'k poll" where
  [simp]: "sys_listener_register ctl fd po token interest opts job =
     evfd_register ctl fd po token interest opts job"

definition sys_listener_reregister ::
  "'k epoll_ctl \<Rightarrow> i32 \<Rightarrow> 'k poll \<Rightarrow> token_entry \<Rightarrow> ready \<Rightarrow> poll_opt \<Rightarrow> unit io_result \<times> 'k poll" where
  [simp]: "sys_listener_reregister ctl fd po token interest opts =
     evfd_reregister ctl fd po token interest opts"

definition sys_listener_deregister ::
  "bool \<Rightarrow> 'k epoll_ctl \<Rightarrow> i32 \<Rightarrow> 'k poll \<Rightarrow> (unit io_result \<times> 'k poll) option" where
  [simp]: "sys_listener_deregister debug_on ctl fd po = evfd_deregister debug_on ctl fd po"

definition listener_from_std :: "('a, 'k) net_ops \<Rightarrow> i32 \<Rightarrow> 'k \<Rightarrow> tcp_listener io_result \<times> 'k" where
  "listener_from_std no fd k =
     (case sys_listener_new no fd k of
        (Inl e, k) \<Rightarrow> (Inl e, k)
      | (Inr s, k) \<Rightarrow> (Inr \<lparr>tl_sys = s, tl_selector_id = sid_new\<rparr>, k))"

definition listener_bind ::
  "('a, 'k) net_ops \<Rightarrow> 'a socket_addr \<Rightarrow> 'k \<Rightarrow> tcp_listener io_result \<times> 'k" where
  "listener_bind no addr k =
     (case (case addr of V4 _ \<Rightarrow> no_new_v4 no k | V6 _ \<Rightarrow> no_new_v6 no k) of
        (Inl e, k) \<Rightarrow> (Inl e, k)
      | (Inr fd, k) \<Rightarrow>
          or_close no fd (no_reuse_address no fd True k) (\<lambda>k.
          or_close no fd (no_reuse_port no fd True k) (\<lambda>k.
          or_close no fd (no_bind no fd addr k) (\<lambda>k.
          or_close no fd (no_listen no fd 1024 k) (\<lambda>k.
            case sys_listener_new no fd k of
              (Inl e, k) \<Rightarrow> (Inl e, k)
            | (Inr s, k) \<Rightarrow> (Inr \<lparr>tl_sys = s, tl_selector_id = sid_new\<rparr>, k))))))"

definition listener_new ::
  "('a, 'k) net_ops \<Rightarrow> 'a socket_addr \<Rightarrow> 'k \<Rightarrow> (tcp_listener \<times> 'k) option" where
  "listener_new no addr k =
     (case listener_bind no addr k of (Inl _, _) \<Rightarrow> None | (Inr l, k) \<Rightarrow> Some (l, k))"

definition accept_std ::
  "('a, 'k) net_ops \<Rightarrow> tcp_listener \<Rightarrow> 'k \<Rightarrow> (i32 \<times> 'a socket_addr) io_result \<times> 'k" where
  "accept_std no l k = sys_accept no (tl_sys l) k"

definition listener_accept ::
  "('a, 'k) net_ops \<Rightarrow> tcp_listener \<Rightarrow> 'k \<Rightarrow> (tcp_stream \<times> 'a socket_addr) io_result \<times> 'k" where
  "listener_accept no l k =
     (case accept_std no l k of
        (Inl e, k) \<Rightarrow> (Inl e, k)
      | (Inr (s, a), k) \<Rightarrow>
          (case from_stream no s k of
             (Inl e, k) \<Rightarrow> (Inl e, k)
           | (Inr st, k) \<Rightarrow> (Inr (st, a), k)))"

definition listener_register ::
  "'k epoll_ctl \<Rightarrow> token_entry \<Rightarrow> ready \<Rightarrow> poll_opt \<Rightarrow> job \<Rightarrow> tcp_listener \<Rightarrow> 'k poll \<Rightarrow>
   (unit io_result \<times> tcp_listener \<times> 'k poll) option" where
  "listener_register ctl token interest opts job l po =
     (case sid_associate (tl_selector_id l) po of
        (Inl e, i) \<Rightarrow> Some (Inl e, l\<lparr>tl_selector_id := i\<rparr>, po)
      | (Inr _, i) \<Rightarrow>
          (let (r, po) = sys_listener_register ctl (tl_sys l) po token interest opts job
           in Some (r, l\<lparr>tl_selector_id := i\<rparr>, po)))"

definition listener_reregister ::
  "'k epoll_ctl \<Rightarrow> token_entry \<Rightarrow> ready \<Rightarrow> poll_opt \<Rightarrow> tcp_listener \<Rightarrow> 'k poll \<Rightarrow>
   (unit io_result \<times> tcp_listener \<times> 'k poll) option" where
  "listener_reregister ctl token interest opts l po =
     (let (r, po) = sys_listener_reregister ctl (tl_sys l) po token interest opts in Some (r, l, po))"

definition listener_deregister ::
  "bool \<Rightarrow> 'k epoll_ctl \<Rightarrow> tcp_listener \<Rightarrow> 'k poll \<Rightarrow> (unit io_result \<times> tcp_listener \<times> 'k poll) option" where
  "listener_deregister debug_on ctl l po = do {
     (r, po) \<leftarrow> sys_listener_deregister debug_on ctl (tl_sys l) po;
     Some (r, l, po)
   }"

end
