(* ===== verification/Event_Loop.thy ===== *)
theory Event_Loop
  imports Timer_Evented Net_Tcp
begin

text \<open>
  The event loop of \<^verbatim>\<open>src/net/event_loop.rs\<close>: a poll and a timer of jobs, one turn of which
  polls and runs the job of every event. User code is an argument: what running a job or a
  timer's job does to the loop and to the rest of the world \<open>'w\<close>.
\<close>

section \<open>Configuration\<close>

record config =
  cfg_notify_capacity :: usize
  cfg_messages_per_tick :: usize
  cfg_timer_tick :: duration
  cfg_timer_wheel_size :: usize
  cfg_timer_capacity :: usize

definition config_default :: config where
  "config_default = \<lparr>cfg_notify_capacity = 4096, cfg_messages_per_tick = 256,
     cfg_timer_tick = \<lparr>dur_secs = 0, dur_nanos = 100000000\<rparr>, cfg_timer_wheel_size = 1024,
     cfg_timer_capacity = 65536\<rparr>"

section \<open>The loop\<close>

record ('k, 's) event_loop =
  el_run :: bool
  el_poll :: "'k poll"
  el_timer :: "'s timer"

text \<open>
  What the loop calls: the slab of its timer, the awakener's pipe, the kernel, the clock
  (the time since the timer was made), and the jobs, given the readiness as a number. A job
  that panics or never returns is \<open>None\<close>.
\<close>

record ('k, 's, 'a, 'w) loop_ops =
  lo_slab :: "('s, 'a entry) slab_ops"
  lo_wake :: "'k pipe_write"
  lo_drain :: "'k pipe_read"
  lo_wait :: "'k epoll_wait"
  lo_clock :: "'w \<Rightarrow> duration \<times> 'w"
  lo_job :: "job \<Rightarrow> usize \<Rightarrow> ('k, 's) event_loop \<Rightarrow> 'w \<Rightarrow> (('k, 's) event_loop \<times> 'w) option"
  lo_timer_job :: "'a \<Rightarrow> ('k, 's) event_loop \<Rightarrow> 'w \<Rightarrow> (('k, 's) event_loop \<times> 'w) option"

subsection \<open>Making a loop\<close>

text \<open>
  \<open>made\<close> is the poll of \<^verbatim>\<open>Poll::new\<close>; \<open>p\<close> the address the allocator gives the timer's node,
  \<open>spawned\<close> whether its thread could be started.
\<close>

definition el_configured ::
  "('s, 'a entry) slab_ops \<Rightarrow> 'k poll io_result \<Rightarrow> bool \<Rightarrow> ptr \<Rightarrow> config \<Rightarrow>
   ('k, 's) event_loop io_result option" where
  "el_configured sl made spawned p config =
     (case made of
        Inl e \<Rightarrow> Some (Inl e)
      | Inr po \<Rightarrow> do {
          timer \<leftarrow> build sl
            (builder_capacity (cfg_timer_capacity config)
              (builder_num_slots (cfg_timer_wheel_size config)
                (tick_duration (cfg_timer_tick config) builder_default)));
          (r, timer, po) \<leftarrow> poll_register (\<lambda>t po. do {
              (r, t, q) \<leftarrow> timer_register sl spawned p t (po_queue po)
                \<lparr>te_ttype = TimersEvent, te_token = Token 0\<rparr> ready_readable opt_edge NullJob;
              Some (r, t, po\<lparr>po_queue := q\<rparr>)
            }) timer po;
          Some (case r of
              Inl e \<Rightarrow> Inl e
            | Inr _ \<Rightarrow> Inr \<lparr>el_run = False, el_poll = po, el_timer = timer\<rparr>)
        })"

definition el_new ::
  "('s, 'a entry) slab_ops \<Rightarrow> 'k poll io_result \<Rightarrow> bool \<Rightarrow> ptr \<Rightarrow> ('k, 's) event_loop io_result option" where
  "el_new sl made spawned p = el_configured sl made spawned p config_default"

subsection \<open>Timeouts and shutdown\<close>

definition el_timeout ::
  "('s, 'a entry) slab_ops \<Rightarrow> duration \<Rightarrow> duration \<Rightarrow> 'a \<Rightarrow> ('k, 's) event_loop \<Rightarrow>
   (timeout \<times> ('k, 's) event_loop) option" where
  "el_timeout sl elapsed delay token el = do {
     (timeout, t) \<leftarrow> set_timeout sl (el_timer el) elapsed delay token;
     Some (timeout, el\<lparr>el_timer := t\<rparr>)
   }"

definition el_clear_timeout ::
  "('s, 'a entry) slab_ops \<Rightarrow> timeout \<Rightarrow> ('k, 's) event_loop \<Rightarrow> (bool \<times> ('k, 's) event_loop) option" where
  "el_clear_timeout sl timeout el = do {
     (r, t) \<leftarrow> cancel_timeout sl (el_timer el) timeout;
     Some (r \<noteq> None, el\<lparr>el_timer := t\<rparr>)
   }"

definition el_shutdown :: "('k, 's) event_loop \<Rightarrow> ('k, 's) event_loop" where
  "el_shutdown el = (if el_run el then el\<lparr>el_run := False\<rparr> else el)"

definition el_is_running :: "('k, 's) event_loop \<Rightarrow> bool" where
  "el_is_running el = el_run el"

text \<open>Registration goes to the poll; as there, the handle's method is the argument.\<close>

definition el_register ::
  "('h \<Rightarrow> 'k poll \<Rightarrow> (unit io_result \<times> 'h \<times> 'k poll) option) \<Rightarrow> 'h \<Rightarrow> ('k, 's) event_loop \<Rightarrow>
   (unit io_result \<times> 'h \<times> ('k, 's) event_loop) option" where
  "el_register io h el = do {
     (r, h, po) \<leftarrow> poll_register io h (el_poll el);
     Some (r, h, el\<lparr>el_poll := po\<rparr>)
   }"

definition el_reregister ::
  "('h \<Rightarrow> 'k poll \<Rightarrow> (unit io_result \<times> 'h \<times> 'k poll) option) \<Rightarrow> 'h \<Rightarrow> ('k, 's) event_loop \<Rightarrow>
   (unit io_result \<times> 'h \<times> ('k, 's) event_loop) option" where
  "el_reregister io h el = do {
     (r, h, po) \<leftarrow> poll_reregister io h (el_poll el);
     Some (r, h, el\<lparr>el_poll := po\<rparr>)
   }"

definition el_deregister ::
  "('h \<Rightarrow> 'k poll \<Rightarrow> (unit io_result \<times> 'h \<times> 'k poll) option) \<Rightarrow> 'h \<Rightarrow> ('k, 's) event_loop \<Rightarrow>
   (unit io_result \<times> 'h \<times> ('k, 's) event_loop) option" where
  "el_deregister io h el = do {
     (r, h, po) \<leftarrow> poll_deregister io h (el_poll el);
     Some (r, h, el\<lparr>el_poll := po\<rparr>)
   }"

subsection \<open>One turn\<close>

definition el_io_poll ::
  "('k, 's, 'a, 'w) loop_ops \<Rightarrow> (nat \<Rightarrow> 'k rq \<Rightarrow> 'k rq) \<Rightarrow> (nat \<Rightarrow> duration) \<Rightarrow> events \<Rightarrow> timeout_opt \<Rightarrow>
   ('k, 's) event_loop \<Rightarrow> (nat io_result \<times> events \<times> ('k, 's) event_loop) option" where
  "el_io_poll lo others elapsed events timeout el = do {
     (r, po, inner) \<leftarrow> poll_poll (lo_wait lo) (lo_drain lo) others elapsed (el_poll el)
       (evs_inner events) timeout;
     Some (r, events\<lparr>evs_inner := inner\<rparr>, el\<lparr>el_poll := po\<rparr>)
   }"

text \<open>\<^verbatim>\<open>while let Some(mut t) = timer.poll()\<close>; \<open>None\<close> also when it never ends.\<close>

partial_function (option) el_timers ::
  "('k, 's, 'a, 'w) loop_ops \<Rightarrow> ('k, 's) event_loop \<Rightarrow> 'w \<Rightarrow> (('k, 's) event_loop \<times> 'w) option" where
  "el_timers lo el w =
     (let (elapsed, w) = lo_clock lo w in
      Option.bind (timer_poll (lo_slab lo) (queue_setr (lo_wake lo)) elapsed (el_timer el)
          (po_queue (el_poll el))) (\<lambda>(res, t, q).
      let el = el\<lparr>el_timer := t, el_poll := (el_poll el)\<lparr>po_queue := q\<rparr>\<rparr> in
      case res of
        None \<Rightarrow> Some (el, w)
      | Some a \<Rightarrow> Option.bind (lo_timer_job lo a el w) (\<lambda>(el, w). el_timers lo el w)))"

declare el_timers.simps [code]

definition el_dispatch ::
  "('k, 's, 'a, 'w) loop_ops \<Rightarrow> job_entry \<Rightarrow> ('k, 's) event_loop \<Rightarrow> 'w \<Rightarrow> (('k, 's) event_loop \<times> 'w) option" where
  "el_dispatch lo entry el w =
     (case te_ttype (je_token_entry entry) of
        TimersEvent \<Rightarrow> el_timers lo el w
      | _ \<Rightarrow> lo_job lo (je_job entry) (ready_as_usize (je_ready entry)) el w)"

function el_io_loop ::
  "('k, 's, 'a, 'w) loop_ops \<Rightarrow> events \<Rightarrow> nat \<Rightarrow> nat \<Rightarrow> ('k, 's) event_loop \<Rightarrow> 'w \<Rightarrow>
   (('k, 's) event_loop \<times> 'w) option" where
  "el_io_loop lo events cnt i el w =
     (if i < cnt then do {
        (el, w) \<leftarrow> (case evs_get_mut events i of
            Some job_entry \<Rightarrow> el_dispatch lo job_entry el w
          | None \<Rightarrow> Some (el, w));
        el_io_loop lo events cnt (i + 1) el w
      }
      else Some (el, w))"
  by pat_completeness auto
termination
  by (relation "measure (\<lambda>(_, _, cnt, i, _, _). cnt - i)") auto

declare el_io_loop.simps [simp del]

definition el_io_process ::
  "('k, 's, 'a, 'w) loop_ops \<Rightarrow> events \<Rightarrow> nat \<Rightarrow> ('k, 's) event_loop \<Rightarrow> 'w \<Rightarrow>
   (events \<times> ('k, 's) event_loop \<times> 'w) option" where
  "el_io_process lo events cnt el w = do {
     (el, w) \<leftarrow> el_io_loop lo events cnt 0 el w;
     Some (evs_clear events, el, w)
   }"

definition el_run_once ::
  "('k, 's, 'a, 'w) loop_ops \<Rightarrow> (nat \<Rightarrow> 'k rq \<Rightarrow> 'k rq) \<Rightarrow> (nat \<Rightarrow> duration) \<Rightarrow> timeout_opt \<Rightarrow>
   ('k, 's) event_loop \<Rightarrow> 'w \<Rightarrow> (unit io_result \<times> ('k, 's) event_loop \<times> 'w) option" where
  "el_run_once lo others elapsed timeout el w = do {
     let events = evs_with_capacity (1024 * 4);
     (r, events, el) \<leftarrow> el_io_poll lo others elapsed events timeout el;
     (case r of
        Inl err \<Rightarrow>
          if err_kind err = Interrupted then do {
            (_, el, w) \<leftarrow> el_io_process lo events 0 el w;
            Some (Inr (), el, w)
          }
          else Some (Inl err, el, w)
      | Inr cnt \<Rightarrow> do {
          (_, el, w) \<leftarrow> el_io_process lo events cnt el w;
          Some (Inr (), el, w)
        })
   }"

text \<open>
  The loop of \<^verbatim>\<open>run\<close>. In turn \<open>n\<close>, \<open>others n\<close> and \<open>elapsed n\<close> are those of its poll, and \<open>flag n\<close>
  is what other threads make of the run flag before the turn.
\<close>

partial_function (option) el_run_loop ::
  "('k, 's, 'a, 'w) loop_ops \<Rightarrow> (nat \<Rightarrow> nat \<Rightarrow> 'k rq \<Rightarrow> 'k rq) \<Rightarrow> (nat \<Rightarrow> nat \<Rightarrow> duration) \<Rightarrow>
   (nat \<Rightarrow> bool \<Rightarrow> bool) \<Rightarrow> nat \<Rightarrow> ('k, 's) event_loop \<Rightarrow> 'w \<Rightarrow>
   (unit io_result \<times> ('k, 's) event_loop \<times> 'w) option" where
  "el_run_loop lo others elapsed flag n el w =
     (let el = el\<lparr>el_run := flag n (el_run el)\<rparr> in
      if el_run el then
        Option.bind (el_run_once lo (others n) (elapsed n) None el w) (\<lambda>(r, el, w).
          case r of
            Inl e \<Rightarrow> Some (Inl e, el, w)
          | Inr _ \<Rightarrow> el_run_loop lo others elapsed flag (Suc n) el w)
      else Some (Inr (), el, w))"

declare el_run_loop.simps [code]

definition el_run_call ::
  "('k, 's, 'a, 'w) loop_ops \<Rightarrow> (nat \<Rightarrow> nat \<Rightarrow> 'k rq \<Rightarrow> 'k rq) \<Rightarrow> (nat \<Rightarrow> nat \<Rightarrow> duration) \<Rightarrow>
   (nat \<Rightarrow> bool \<Rightarrow> bool) \<Rightarrow> ('k, 's) event_loop \<Rightarrow> 'w \<Rightarrow>
   (unit io_result \<times> ('k, 's) event_loop \<times> 'w) option" where
  "el_run_call lo others elapsed flag el w =
     el_run_loop lo others elapsed flag 0 (if el_run el then el else el\<lparr>el_run := True\<rparr>) w"

section \<open>Jobs from other threads\<close>

text \<open>
  \<open>p\<close> is the address of the new node, \<open>job\<close> the closure around the caller's job. Both
  results are unwrapped.
\<close>

definition enqueue_job ::
  "'k pipe_write \<Rightarrow> ptr \<Rightarrow> job \<Rightarrow> ('k, 's) event_loop \<Rightarrow> ('k, 's) event_loop option" where
  "enqueue_job wr p job el = do {
     q \<leftarrow> reg_new2 (po_queue (el_poll el)) p;
     (r, q) \<leftarrow> sr_set_readiness wr q p ready_readable;
     (case r of Inl _ \<Rightarrow> None | Inr _ \<Rightarrow> do {
        let el = el\<lparr>el_poll := (el_poll el)\<lparr>po_queue := q\<rparr>\<rparr>;
        (r, _, el) \<leftarrow> el_register (\<lambda>_ po. do {
            (r, q) \<leftarrow> reg_ev_register wr (po_queue po) p
              \<lparr>te_ttype = OtherEvent, te_token = Token 0\<rparr> ready_readable opt_edge job;
            Some (r, (), po\<lparr>po_queue := q\<rparr>)
          }) () el;
        (case r of Inl _ \<Rightarrow> None | Inr _ \<Rightarrow> Some el)
      })
   }"

section \<open>Builder\<close>

text \<open>
  Loops are shared: \<open>'k, 's\<close> loops live at addresses, and the builder and the thread's
  current loop hold one.
\<close>

record el_builder =
  elb_config :: config
  elb_event_loop :: "ptr option"

definition elb_new :: el_builder where
  "elb_new = \<lparr>elb_config = config_default, elb_event_loop = None\<rparr>"

definition elb_notify_capacity :: "usize \<Rightarrow> el_builder \<Rightarrow> el_builder" where
  "elb_notify_capacity n b = b\<lparr>elb_config := (elb_config b)\<lparr>cfg_notify_capacity := n\<rparr>\<rparr>"

definition elb_messages_per_tick :: "usize \<Rightarrow> el_builder \<Rightarrow> el_builder" where
  "elb_messages_per_tick n b = b\<lparr>elb_config := (elb_config b)\<lparr>cfg_messages_per_tick := n\<rparr>\<rparr>"

definition elb_timer_tick :: "duration \<Rightarrow> el_builder \<Rightarrow> el_builder" where
  "elb_timer_tick d b = b\<lparr>elb_config := (elb_config b)\<lparr>cfg_timer_tick := d\<rparr>\<rparr>"

definition elb_timer_wheel_size :: "usize \<Rightarrow> el_builder \<Rightarrow> el_builder" where
  "elb_timer_wheel_size n b = b\<lparr>elb_config := (elb_config b)\<lparr>cfg_timer_wheel_size := n\<rparr>\<rparr>"

definition elb_timer_capacity :: "usize \<Rightarrow> el_builder \<Rightarrow> el_builder" where
  "elb_timer_capacity n b = b\<lparr>elb_config := (elb_config b)\<lparr>cfg_timer_capacity := n\<rparr>\<rparr>"

definition elb_build ::
  "('s, 'a entry) slab_ops \<Rightarrow> 'k poll io_result \<Rightarrow> bool \<Rightarrow> ptr \<Rightarrow> el_builder \<Rightarrow>
   ('k, 's) event_loop io_result option" where
  "elb_build sl made spawned p b = el_configured sl made spawned p (elb_config b)"

text \<open>The result unwraps the build; \<open>a\<close> is the address of the new loop.\<close>

definition elb_get_build ::
  "('s, 'a entry) slab_ops \<Rightarrow> 'k poll io_result \<Rightarrow> bool \<Rightarrow> ptr \<Rightarrow> ptr \<Rightarrow> el_builder \<Rightarrow>
   (ptr \<rightharpoonup> ('k, 's) event_loop) \<Rightarrow> (ptr \<times> ptr option \<times> el_builder \<times> (ptr \<rightharpoonup> ('k, 's) event_loop)) option" where
  "elb_get_build sl made spawned p a b loops = do {
     r \<leftarrow> elb_build sl made spawned p b;
     (case r of
        Inl _ \<Rightarrow> None
      | Inr el \<Rightarrow> Some (a, Some a, b\<lparr>elb_event_loop := Some a\<rparr>, loops(a \<mapsto> el)))
   }"

text \<open>The thread-local loop; reading it before it is set panics.\<close>

definition set_current_loop :: "ptr \<Rightarrow> ptr option \<Rightarrow> ptr option" where
  "set_current_loop a current = Some a"

definition get_current_loop :: "ptr option \<Rightarrow> ptr option" where
  "get_current_loop current = current"

section \<open>The turn as a list of jobs\<close>

fun dispatch_all ::
  "('k, 's, 'a, 'w) loop_ops \<Rightarrow> job_entry list \<Rightarrow> ('k, 's) event_loop \<Rightarrow> 'w \<Rightarrow>
   (('k, 's) event_loop \<times> 'w) option" where
  "dispatch_all lo [] el w = Some (el, w)"
| "dispatch_all lo (e # es) el w = do { (el, w) \<leftarrow> el_dispatch lo e el w; dispatch_all lo es el w }"

lemma io_loop_dispatch:
  assumes "cnt = length (se_entries (evs_inner events))"
  shows "i \<le> cnt \<Longrightarrow>
    el_io_loop lo events cnt i el w = dispatch_all lo (drop i (se_entries (evs_inner events))) el w"
proof (induction "cnt - i" arbitrary: i el w)
  case 0
  then show ?case using assms by (subst el_io_loop.simps) simp
next
  case (Suc n)
  let ?es = "se_entries (evs_inner events)"
  have i: "i < cnt" "drop i ?es = ?es ! i # drop (Suc i) ?es"
    using Suc.hyps(2) assms by (auto simp: Cons_nth_drop_Suc)
  have "el_io_loop lo events cnt (Suc i) = dispatch_all lo (drop (Suc i) ?es)"
    using Suc.hyps i(1) by (intro ext) auto
  then show ?case using i assms
    by (subst el_io_loop.simps) (simp add: evs_get_mut_def se_get_mut_def)
qed

lemma timer_steps_inner:
  "wheel_set u i g = Some u' \<Longrightarrow> tm_inner u' = tm_inner u"
  "entry_set sl u k h = Some u' \<Longrightarrow> tm_inner u' = tm_inner u"
  "timer_remove sl u k = Some (a, u') \<Longrightarrow> tm_inner u' = tm_inner u"
  by (auto simp: wheel_set_def entry_set_def timer_remove_def Let_def
      split: if_splits Option.bind_splits)

lemma timer_unlink_inner: "timer_unlink sl u l k = Some u' \<Longrightarrow> tm_inner u' = tm_inner u"
  by (auto simp: timer_unlink_def dest!: timer_steps_inner split: if_splits Option.bind_splits)

lemma poll_to_loop_inner:
  assumes "poll_to_loop sl target t = Some r"
  shows "tm_inner (case r of Inl (_, t') \<Rightarrow> t' | Inr t' \<Rightarrow> t') = tm_inner t"
proof (rule poll_to_loop.raw_induct [where P = "\<lambda>sl target t r.
    tm_inner (case r of Inl (_, t') \<Rightarrow> t' | Inr t' \<Rightarrow> t') = tm_inner t", OF _ assms], goal_cases)
  case (1 f sl target t r)
  show ?case using 1(2)
    by (auto simp: Let_def split: if_splits Option.bind_splits
        dest!: 1(1) timer_steps_inner timer_unlink_inner)
qed

lemma poll_to_inner:
  "poll_to sl setr target t w = Some (Some a, t', w') \<Longrightarrow> tm_inner t' = tm_inner t"
  by (auto simp: poll_to_def split: Option.bind_splits sum.splits option.splits
      dest!: poll_to_loop_inner)

text \<open>A turn of the timer's loop that finds a timeout, and one that does not.\<close>

lemma el_timers_step:
  assumes "lo_clock lo w = (elapsed, w)"
    "current_tick elapsed (tm_tick_ms (el_timer el)) = Some target"
    "poll_to (lo_slab lo) (queue_setr (lo_wake lo)) target (el_timer el) (po_queue (el_poll el)) =
      Some (res, t', q')"
  shows "el_timers lo el w =
    (let el = el\<lparr>el_timer := t', el_poll := (el_poll el)\<lparr>po_queue := q'\<rparr>\<rparr> in
     case res of
       None \<Rightarrow> Some (el, w)
     | Some a \<Rightarrow> Option.bind (lo_timer_job lo a el w) (\<lambda>(el, w). el_timers lo el w))"
  using assms by (subst el_timers.simps) (simp add: timer_poll_def)

lemma el_timers_drain:
  assumes laws: "slab_laws (lo_slab lo)" and clock: "\<And>w. lo_clock lo w = (elapsed, w)"
    and jobs: "\<And>a el w. lo_timer_job lo a el w = Some (el, run a w)"
    and target: "current_tick elapsed ms = Some target" "target < u64_max"
    and setr: "queue_setr (lo_wake lo) p ready_empty q = Some q'"
  shows "timer_prompt (lo_slab lo) (el_timer el) \<Longrightarrow> tm_tick (el_timer el) \<le> target \<Longrightarrow>
    tm_tick_ms (el_timer el) = ms \<Longrightarrow>
    map_option ti_set_readiness (lc_inner (tm_inner (el_timer el))) = Some p \<Longrightarrow>
    po_queue (el_poll el) = q \<Longrightarrow>
    \<exists>as t'. el_timers lo el w =
        Some (el\<lparr>el_timer := t', el_poll := (el_poll el)\<lparr>po_queue := q'\<rparr>\<rparr>, fold run as w) \<and>
      mset as = due_states (pending (lo_slab lo) (el_timer el)) target \<and>
      pending (lo_slab lo) t' = pending (lo_slab lo) (el_timer el) |`
        (- due_keys (pending (lo_slab lo) (el_timer el)) target) \<and>
      timer_prompt (lo_slab lo) t' \<and> wake_ok (lo_slab lo) t'"
proof (induction "card (due_keys (pending (lo_slab lo) (el_timer el)) target)" arbitrary: el w
    rule: less_induct)
  case (less el w)
  let ?sl = "lo_slab lo" and ?t = "el_timer el"
  note ok = prompt_ok [OF less.prems(1)]
  have lt: "tm_tick ?t < u64_max" "max target (tm_tick ?t) = target"
    using less.prems(2) target(2) by (auto simp: max_def)
  have s: "queue_setr (lo_wake lo) (ti_set_readiness inner) ready_empty q \<noteq> None"
    if "lc_inner (tm_inner ?t) = Some inner" for inner
    using that less.prems(4) setr by simp
  obtain res t1 w1 where p: "poll_to ?sl (queue_setr (lo_wake lo)) target ?t q = Some (res, t1, w1)"
    "timer_prompt ?sl t1"
    "case res of
       Some a \<Rightarrow> (\<exists>k tick. pending ?sl ?t k = Some (tick, a) \<and> tick \<le> target \<and>
         pending ?sl t1 = (pending ?sl ?t)(k := None)) \<and> tm_tick t1 \<le> target
     | None \<Rightarrow> pending ?sl t1 = pending ?sl ?t \<and> unat (tm_tick t1) = Suc (unat target) \<and> wake_ok ?sl t1"
    "tm_tick_ms t1 = tm_tick_ms ?t"
    "case res of Some _ \<Rightarrow> w1 = q
      | None \<Rightarrow> (case lc_inner (tm_inner ?t) of None \<Rightarrow> w1 = q
          | Some inner \<Rightarrow> queue_setr (lo_wake lo) (ti_set_readiness inner) ready_empty q = Some w1)"
    by (rule poll_to_ok [where setr = "queue_setr (lo_wake lo)" and w = q, OF laws s ok target(2) lt(1)])
      (use less.prems(1) lt(2) in \<open>auto split: option.splits\<close>)
  have tick: "current_tick elapsed (tm_tick_ms ?t) = Some target" using target(1) less.prems(3) by simp
  note step = el_timers_step [OF clock tick p(1) [folded less.prems(5)], of w]
  show ?case
  proof (cases res)
    case None
    note r = p(3,5) [unfolded None option.case]
    have "k \<notin> due_keys (pending ?sl ?t) target" for k
      using prompt_not_after [OF p(2)] r(1)
      by (force simp: due_keys_def not_after_def word_le_nat_alt)
    then have "due_keys (pending ?sl ?t) target = {}" by blast
    moreover have "w1 = q'" using r(2) less.prems(4) setr by auto
    ultimately show ?thesis using step p(2) r(1) None
      by (intro exI [of _ "[]"] exI [of _ t1]) (simp add: due_states_def restrict_map_def)
  next
    case (Some a)
    obtain k tick where k: "pending ?sl ?t k = Some (tick, a)" "tick \<le> target"
      "pending ?sl t1 = (pending ?sl ?t)(k := None)" "tm_tick t1 \<le> target"
      using p(3) unfolding Some option.case by blast
    note rem = due_states_remove [OF pending_finite [OF ok] k(1,2), folded k(3)]
    have w1: "w1 = q" using p(5) Some by simp
    have inner: "tm_inner t1 = tm_inner ?t" using p(1) unfolding Some by (rule poll_to_inner)
    let ?el = "el\<lparr>el_timer := t1, el_poll := (el_poll el)\<lparr>po_queue := q\<rparr>\<rparr>"
    have run: "el_timers lo el w = el_timers lo ?el (run a w)"
      using step jobs Some w1 by simp
    obtain as t' where r: "el_timers lo ?el (run a w) =
        Some (?el\<lparr>el_timer := t', el_poll := (el_poll ?el)\<lparr>po_queue := q'\<rparr>\<rparr>, fold run as (run a w))"
      "mset as = due_states (pending ?sl t1) target"
      "pending ?sl t' = pending ?sl t1 |` (- due_keys (pending ?sl t1) target)"
      "timer_prompt ?sl t'" "wake_ok ?sl t'"
      using less.hyps [of ?el "run a w"] rem(2) p(2,4) k(4) less.prems inner by auto
    have "pending ?sl t1 |` (- due_keys (pending ?sl t1) target) =
        pending ?sl ?t |` (- due_keys (pending ?sl ?t) target)"
      using k(1,2) unfolding k(3) by (auto simp: restrict_map_def due_keys_def fun_eq_iff)
    then show ?thesis using run r rem(1)
      by (intro exI [of _ "a # as"] exI [of _ t']) simp
  qed
qed


text \<open>
  A turn: the events of the poll, dispatched one after the other.
\<close>

lemma el_turn:
  assumes "rq_holds (po_queue (el_poll el)) ps"
    and "timeout \<noteq> Some duration_zero" "prepare_for_sleep (po_queue (el_poll el)) = Some (b, q1)"
    and "rq_holds (others 0 q1) ps2" "nodes_ok (rq_nodes (others 0 q1)) ps2"
    and "lo_wait lo (sel_epfd (po_selector (el_poll el))) 4096
      (select_timeout (if ps = [] then timeout else Some duration_zero)) (rq_pipe (others 0 q1)) =
      ((ret, buf), k1)"
    and "cvt ret = Inr cnt" "nat cnt \<le> length buf" "nat cnt \<le> 4096"
    and "(if \<exists>ev \<in> set (take (nat cnt) buf). notifies (sel_events_map (po_selector (el_poll el))) ev
      then awk_cleanup (lo_drain lo) k1 else Some k1) = Some k2"
  shows "\<exists>don rest po'. ps2 = don @ rest \<and>
    el_run_once lo others elapsed timeout el w =
      map_option (Pair (Inr ()))
       (dispatch_all lo
         (List.map_filter (selected (sel_events_map (po_selector (el_poll el)))) (take (nat cnt) buf) @
          entries (rq_nodes (others 0 q1)) don) (el\<lparr>el_poll := po'\<rparr>) w) \<and>
    rq_holds (po_queue po') (rest @ requeues (rq_nodes (others 0 q1)) don) \<and>
    (rest = [] \<or> length (List.map_filter (selected (sel_events_map (po_selector (el_poll el))))
      (take (nat cnt) buf) @ entries (rq_nodes (others 0 q1)) don) = 4096)"
proof -
  let ?e = "evs_with_capacity (1024 * 4)" and ?po = "el_poll el"
  have cap: "se_events_cap (evs_inner ?e) = 4096" "se_entries_cap (evs_inner ?e) = 4096"
    by (simp_all add: evs_with_capacity_def se_with_capacity_def)
  have w: "lo_wait lo (sel_epfd (po_selector ?po)) (word_of_nat (se_events_cap (evs_inner ?e)))
      (select_timeout (if ps = [] then timeout else Some duration_zero)) (rq_pipe (others 0 q1)) =
      ((ret, buf), k1)" using assms(6) cap by simp
  have c: "nat cnt \<le> se_entries_cap (evs_inner ?e)" using assms(9) cap by simp
  from poll2_turn [where wait = "lo_wait lo" and others = others and evts = "evs_inner ?e" and
      timeout = timeout and rd = "lo_drain lo" and elapsed = elapsed and interruptible = False and
      po = ?po, OF assms(1-5) w assms(7,8) c assms(10)]
  obtain don rest po' e' where r: "ps2 = don @ rest"
    "poll_poll (lo_wait lo) (lo_drain lo) others elapsed ?po (evs_inner ?e) timeout =
      Some (Inr (length (se_entries e')), po', e')"
    "se_entries e' = List.map_filter (selected (sel_events_map (po_selector ?po))) (take (nat cnt) buf) @
      entries (rq_nodes (others 0 q1)) don"
    "rest = [] \<or> length (se_entries e') = 4096"
    "rq_holds (po_queue po') (rest @ requeues (rq_nodes (others 0 q1)) don)"
    unfolding poll_poll_def cap by blast
  let ?ev = "?e\<lparr>evs_inner := e'\<rparr>"
  have "el_io_loop lo ?ev (length (se_entries e')) 0 el' w = dispatch_all lo (se_entries e') el' w" for el'
    using io_loop_dispatch [of "length (se_entries e')" ?ev 0] by simp
  then have "el_run_once lo others elapsed timeout el w =
      map_option (Pair (Inr ())) (dispatch_all lo (se_entries e') (el\<lparr>el_poll := po'\<rparr>) w)"
    using r(2)
    by (simp add: el_run_once_def el_io_poll_def el_io_process_def map_option_case
        split: Option.bind_splits option.splits)
  then show ?thesis using r by auto
qed

section \<open>A job from another thread\<close>

text \<open>A pipe whose writes fail only because it is full.\<close>

definition pipe_writable :: "'k pipe_write \<Rightarrow> bool" where
  "pipe_writable wr \<longleftrightarrow> (\<forall>k e k'. wr k = (Inl e, k') \<longrightarrow> err_kind e = WouldBlock)"

lemma wakeup_ok: "pipe_writable wr \<Longrightarrow> fst (rq_wakeup wr q) = Inr ()"
  by (auto simp: pipe_writable_def rq_wakeup_def awk_wakeup_def Let_def split: prod.splits sum.splits)

lemma enqueue_wakeup_ok:
  "pipe_writable wr \<Longrightarrow> enqueue_with_wakeup wr q a p = Some (r, q') \<Longrightarrow> r = Inr ()"
  using wakeup_ok [of wr]
  by (auto simp: enqueue_with_wakeup_def enqueue_node_with_wakeup_def
      split: option.splits if_splits Option.bind_splits) (metis fst_conv)+

lemma update_ok:
  assumes "pipe_writable wr" "regi_attach q p = Some (Inr (), q1)"
    "regi_update wr q p token interest opt job = Some (r, q')"
  shows "r = Inr ()"
  using assms(2,3) enqueue_wakeup_ok [OF assms(1)]
  by (auto simp: regi_update_def Let_def split: Option.bind_splits if_splits sum.splits)

lemma set_readiness_ok:
  assumes "pipe_writable wr" "regi_set_readiness wr q p ready = Some (r, q')"
  shows "r = Inr ()"
  using assms(2) enqueue_wakeup_ok [OF assms(1)]
  by (auto simp: regi_set_readiness_def node_enqueue_with_wakeup_def
      split: Option.bind_splits if_splits sum.splits option.splits)

lemma readable_fits: "ready_fits ready_readable" "opt_fits opt_edge"
  by (simp_all add: ready_fits_def opt_fits_def mio_defs)

lemma enqueue_job_spec:
  assumes wr: "pipe_writable wr" and hold: "rq_holds (po_queue (el_poll el)) ps"
    and inv: "all_inv (po_queue (el_poll el)) hs ps" and p: "p \<notin> dom (rq_heap (po_queue (el_poll el)))"
  shows "\<exists>el' m. enqueue_job wr p job el = Some el' \<and>
    rq_holds (po_queue (el_poll el')) (ps @ [p]) \<and>
    all_inv (po_queue (el_poll el')) (hs(p := \<lparr>h_reg = True, h_set = 1\<rparr>)) (ps @ [p]) \<and>
    rq_nodes (po_queue (el_poll el')) p = Some m \<and>
    polled_entry m = Some \<lparr>je_token_entry = \<lparr>te_ttype = OtherEvent, te_token = Token 0\<rparr>,
      je_job = job, je_ready = ready_empty\<rparr> \<and>
    el' = el\<lparr>el_poll := (el_poll el)\<lparr>po_queue := po_queue (el_poll el')\<rparr>\<rparr>"
proof -
  let ?q = "po_queue (el_poll el)" and ?h = "\<lparr>h_reg = True, h_set = 1\<rparr>"
  define hs' where "hs' = hs(p := ?h)"
  let ?tok = "\<lparr>te_ttype = OtherEvent, te_token = Token 0\<rparr>"
  have "unat (2 :: usize) = 2" by simp
  then obtain n where n: "node_new None default_token ready_empty opt_empty 2 = Some n"
    "node_inv (rq_addr ?q) ?h False n"
    using node_new_inv [OF empty_fits, of None "rq_addr ?q" 2 default_token] by auto
  have free: "nd_queue n = None" using n(1) by (auto simp: node_new_def split: Option.bind_splits)
  have noint: "rs_interest (nd_state n) = ready_empty"
    using n(2) free by (simp add: node_inv_def node_shape_def)
  define q1 where "q1 = ?q\<lparr>rq_heap := (rq_heap ?q)(p \<mapsto> n)\<rparr>"
  have "q1 = ?q\<lparr>rq_heap := (rq_heap ?q)(p \<mapsto> n), rq_arc := rq_arc ?q\<rparr>" by (simp add: q1_def)
  from new_spec [OF hold inv p n(2) this] have i1: "rq_holds q1 ps" "all_inv q1 hs' ps" by (simp_all add: hs'_def)
  have np: "p \<notin> set ps" using fresh_contents(2) [OF hold p] .
  have h: "0 < h_count (hs' p)" "h_reg (hs' p)" by (simp_all add: h_count_def hs'_def)
  have heap1: "rq_heap q1 p = Some n" by (simp add: q1_def)
  obtain res q2 m2 where s: "regi_set_readiness wr q1 p ready_readable = Some (res, q2)"
    "rq_holds q2 ps" "all_inv q2 hs' ps" "rq_nodes q2 = (rq_nodes q1)(p \<mapsto> m2)"
    "rs_view (nd_state m2) = (rs_view (nd_state n))\<lparr>v_readiness := ready_readable, v_queued := False\<rparr>"
    "m2 = (unlink n)\<lparr>nd_state := nd_state m2\<rparr>"
    using set_readiness_spec [OF i1 h(1) readable_fits(1), of wr] heap1 h noint np
    by (auto simp: reg_put_def Let_def)
  note res = set_readiness_ok [OF wr s(1)]
  obtain n2 where n2: "rq_heap q2 p = Some n2" "m2 = unlink n2"
    using rq_nodes_Some [of q2 p m2] s(4) by auto
  have n2q: "nd_queue n2 = None"
    using free n2(2) arg_cong [OF s(6), of nd_queue] by simp
  have rd: "rs_readiness (nd_state n2) = ready_readable"
    using s(5) n2(2) view_reads(1) [of "nd_state n2"] by simp
  have "\<not> ready_is_empty (ready_bitand ready_readable ready_readable)"
    by (simp add: mio_defs)
  then obtain r q3 m where u: "regi_update wr q2 p ?tok ready_readable opt_edge job = Some (r, q3)"
    "rq_holds q3 (ps @ [p])" "all_inv q3 hs' (ps @ [p])" "rq_nodes q3 = (rq_nodes q2)(p \<mapsto> m)"
    "rs_view (nd_state m) = (rs_view (nd_state n2))\<lparr>v_interest := ready_readable, v_opt := opt_edge,
       v_wr := rs_token_write_pos (nd_state m), v_queued := True\<rparr>"
    "node_token m (rs_token_write_pos (nd_state m)) = Some ?tok" "nd_job m = job"
    using update_spec [OF s(2,3) h(2) readable_fits, of wr ?tok job] n2(1) rd np
    by (auto simp: reg_put_def Let_def)
  have r: "r = Inr ()"
    using update_ok [OF wr _ u(1)] attach_runs [OF n2(1)] n2q by blast
  have "\<not> rs_is_dropped (nd_state n2)"
    using all_inv_handle [OF s(3) h(1)] n2(1) h by (auto simp: node_inv_def node_shape_def)
  then have "\<not> rs_is_dropped (nd_state m)" "rs_effective_readiness (nd_state m) = ready_readable"
    using u(5) rd view_reads(7) [of "nd_state m"] view_reads(7) [of "nd_state n2"]
      view_reads(1) [of "nd_state n2"]
    by (simp_all add: rs_effective_view eff_def) (simp add: mio_defs)
  then have e: "polled_entry m = Some \<lparr>je_token_entry = ?tok, je_job = job, je_ready = ready_empty\<rparr>"
    using u(6,7) by (simp add: polled_entry_def) (simp add: mio_defs)
  let ?el = "el\<lparr>el_poll := (el_poll el)\<lparr>po_queue := q3\<rparr>\<rparr>"
  have "reg_new2 ?q p = Some q1" using n(1) by (simp add: reg_new2_def q1_def)
  then have "enqueue_job wr p job el = Some ?el"
    using s(1) u(1) r res
    by (simp add: enqueue_job_def sr_set_readiness_def reg_ev_register_def el_register_def poll_register_def)
  then show ?thesis using u(2,3,4) e unfolding hs'_def by (intro exI [of _ ?el] exI [of _ m]) simp
qed

end
