(* ===== verification/Event_Loop_Spec.thy ===== *)
theory Event_Loop_Spec
  imports Event_Loop
begin

text \<open>
  What a turn of the event loop does, with its timer and with jobs other threads give it.
\<close>

section \<open>A loop to run\<close>

text \<open>
  The world is the list of the jobs that have run. The clock stands at 700 milliseconds.
\<close>

type_synonym demo_log = "(job \<times> usize + string) list"

definition demo_lo :: "(nat, (usize \<rightharpoonup> string entry) \<times> nat, string, demo_log) loop_ops" where
  "demo_lo = \<lparr>lo_slab = demo_slab, lo_wake = demo_write 5, lo_drain = demo_read,
     lo_wait = demo_reports, lo_clock = (\<lambda>w. (\<lparr>dur_secs = 0, dur_nanos = 700000000\<rparr>, w)),
     lo_job = (\<lambda>j r el w. Some (el, Inl (j, r) # w)),
     lo_timer_job = (\<lambda>a el w. Some (el, Inr a # w))\<rparr>"

lemma demo_dispatch:
  "\<forall>e \<in> set es. te_ttype (je_token_entry e) \<noteq> TimersEvent \<Longrightarrow>
    dispatch_all demo_lo es el w =
      Some (el, rev (map (\<lambda>e. Inl (je_job e, ready_as_usize (je_ready e))) es) @ w)"
proof (induction es arbitrary: w)
  case (Cons e es)
  then have "el_dispatch demo_lo e el w = Some (el, Inl (je_job e, ready_as_usize (je_ready e)) # w)"
    by (cases "te_ttype (je_token_entry e)") (simp_all add: el_dispatch_def demo_lo_def)
  then show ?case using Cons by simp
qed simp

lemma entries_length: "length (entries ns ps) \<le> length ps"
  by (simp add: entries_def List.map_filter_def)

text \<open>The facts about the first turn of any loop over this poll, and the events it gets.\<close>

lemma demo_turn_setup:
  assumes lo: "lo_wait lo = demo_reports" "lo_drain lo = demo_read"
  obtains q1 where "prepare_for_sleep (po_queue demo_po) = Some (False, q1)" "rq_holds q1 [11, 10]"
    "nodes_ok (rq_nodes q1) [11, 10]" "rq_nodes q1 = rq_nodes (po_queue demo_po)"
    "lo_wait lo (sel_epfd (po_selector demo_po)) 4096
      (select_timeout (if [11 :: nat, 10] = [] then None else Some duration_zero)) (rq_pipe q1) =
      (((2, no_error), demo_reported), 200)"
    "(if \<exists>ev \<in> set (take (nat 2) demo_reported). notifies (sel_events_map (po_selector demo_po)) ev
      then awk_cleanup (lo_drain lo) 200 else Some 200) = Some 0"
proof -
  obtain q1 where q1: "prepare_for_sleep (po_queue demo_po) = Some (False, q1)"
    "rq_holds q1 [11, 10]" "rq_frame (po_queue demo_po) q1"
    using prepare_holds [OF demo_po_ok(1)] by auto
  then have n: "rq_nodes q1 = rq_nodes (po_queue demo_po)" "rq_pipe q1 = 200"
    by (simp_all add: rq_frame_def demo_po_def)
  have w: "lo_wait lo (sel_epfd (po_selector demo_po)) 4096
      (select_timeout (if [11 :: nat, 10] = [] then None else Some duration_zero)) (rq_pipe q1) =
      (((2, no_error), demo_reported), 200)"
    by (simp add: lo demo_reports_def n)
  have "\<exists>ev \<in> set (take (nat 2) demo_reported). notifies (sel_events_map (po_selector demo_po)) ev"
    "awk_cleanup demo_read 200 = Some 0" by code_simp+
  then have "(if \<exists>ev \<in> set (take (nat 2) demo_reported). notifies (sel_events_map (po_selector demo_po)) ev
      then awk_cleanup (lo_drain lo) 200 else Some 200) = Some 0"
    unfolding lo by (subst if_P)
  with q1(1,2) n(1) w demo_po_ok(2) that show thesis by simp
qed

lemma demo_turn_counts: "cvt (2, no_error) = Inr 2" "nat 2 \<le> length demo_reported" "nat 2 \<le> 4096"
  by (simp_all add: cvt_def demo_reported_def)

abbreviation "demo_sel \<equiv>
  List.map_filter (selected (sel_events_map (po_selector demo_po))) (take (nat 2) demo_reported)"

lemma demo_turn_entries:
  assumes "[11, 10] = don @ rest"
    "rest = [] \<or> length (demo_sel @ entries (rq_nodes (po_queue demo_po)) don) = 4096"
  shows "map (\<lambda>e. (je_job e, ready_as_usize (je_ready e))) (demo_sel @ entries (rq_nodes (po_queue demo_po)) don) =
      [(UserJob 7, 1), (NullJob, 0), (UserJob 1, 0)] \<and>
    (\<forall>e \<in> set (demo_sel @ entries (rq_nodes (po_queue demo_po)) don). te_ttype (je_token_entry e) \<noteq> TimersEvent)"
proof -
  let ?view = "\<lambda>e. (je_job e, ready_as_usize (je_ready e))" and ?ns = "rq_nodes (po_queue demo_po)"
  have jobs: "map ?view demo_sel = [(UserJob 7, 1)]" "list_all (\<lambda>e. te_ttype (je_token_entry e) \<noteq> TimersEvent) demo_sel"
    "map ?view (entries ?ns [11, 10]) = [(NullJob, 0), (UserJob 1, 0)]"
    "list_all (\<lambda>e. te_ttype (je_token_entry e) \<noteq> TimersEvent) (entries ?ns [11, 10])"
    by code_simp+
  have "length don \<le> 2" using arg_cong [OF assms(1), of length] by simp
  moreover have "length demo_sel = 1" using arg_cong [OF jobs(1), of length] by simp
  ultimately have "rest = []" using assms(2) entries_length [of ?ns don] by auto
  then have don: "don = [11, 10]" using assms(1) by simp
  show ?thesis using jobs unfolding don by (auto simp: list_all_iff)
qed

lemma demo_turn:
  assumes lo: "lo_wait lo = demo_reports" "lo_drain lo = demo_read"
  obtains es po' where "el_run_once lo (\<lambda>_ q. q) (\<lambda>_. duration_zero) None
      \<lparr>el_run = True, el_poll = demo_po, el_timer = t\<rparr> w = map_option (Pair (Inr ()))
        (dispatch_all lo es \<lparr>el_run = True, el_poll = po', el_timer = t\<rparr> w)"
    "map (\<lambda>e. (je_job e, ready_as_usize (je_ready e))) es = [(UserJob 7, 1), (NullJob, 0), (UserJob 1, 0)]"
    "\<forall>e \<in> set es. te_ttype (je_token_entry e) \<noteq> TimersEvent"
proof -
  obtain q1 where s: "prepare_for_sleep (po_queue demo_po) = Some (False, q1)" "rq_holds q1 [11, 10]"
    "nodes_ok (rq_nodes q1) [11, 10]" "rq_nodes q1 = rq_nodes (po_queue demo_po)"
    "lo_wait lo (sel_epfd (po_selector demo_po)) 4096
      (select_timeout (if [11 :: nat, 10] = [] then None else Some duration_zero)) (rq_pipe q1) =
      (((2, no_error), demo_reported), 200)"
    "(if \<exists>ev \<in> set (take (nat 2) demo_reported). notifies (sel_events_map (po_selector demo_po)) ev
      then awk_cleanup (lo_drain lo) 200 else Some 200) = Some 0"
    by (rule demo_turn_setup [OF lo])
  from el_turn [where lo = lo and others = "\<lambda>_ q. q" and elapsed = "\<lambda>_. duration_zero" and timeout = None and
      el = "\<lparr>el_run = True, el_poll = demo_po, el_timer = t\<rparr>" and w = w and ps = "[11, 10]",
      unfolded event_loop.select_convs event_loop.update_convs,
      OF demo_po_ok(1) _ s(1) s(2,3) s(5) demo_turn_counts s(6)]
  obtain don rest po' where "[11, 10] = don @ rest"
    "el_run_once lo (\<lambda>_ q. q) (\<lambda>_. duration_zero) None
      \<lparr>el_run = True, el_poll = demo_po, el_timer = t\<rparr> w = map_option (Pair (Inr ()))
        (dispatch_all lo (demo_sel @ entries (rq_nodes (po_queue demo_po)) don)
          \<lparr>el_run = True, el_poll = po', el_timer = t\<rparr> w)"
    "rest = [] \<or> length (demo_sel @ entries (rq_nodes (po_queue demo_po)) don) = 4096"
    unfolding s(4) by auto
  then show thesis using that demo_turn_entries by blast
qed

section \<open>Properties\<close>

text \<open>
  C4: One turn of the loop, whatever other threads do to the queue while it blocks: it runs
  the jobs of the reported descriptors with their readiness, in the kernel's order, then
  those of the readiness queue, oldest first, each once; nothing else. It blocks only if
  the queue was empty, and leaves nodes in the queue only if the buffer of 4096 is full.
\<close>

theorem run_once_dispatches:
  assumes "rq_holds (po_queue (el_poll el)) ps"
    and "timeout \<noteq> Some duration_zero" "prepare_for_sleep (po_queue (el_poll el)) = Some (b, q1)"
    and "rq_holds (others 0 q1) ps2" "nodes_ok (rq_nodes (others 0 q1)) ps2"
    and "lo_wait lo (sel_epfd (po_selector (el_poll el))) 4096
      (select_timeout (if ps = [] then timeout else Some duration_zero)) (rq_pipe (others 0 q1)) =
      ((ret, buf), k1)"
    and "cvt ret = Inr cnt" "nat cnt \<le> length buf" "nat cnt \<le> 4096"
    and "(if \<exists>ev \<in> set (take (nat cnt) buf). notifies (sel_events_map (po_selector (el_poll el))) ev
      then awk_cleanup (lo_drain lo) k1 else Some k1) = Some k2"
  shows "\<exists>don rest po'. ps2 = don @ rest \<and>
    el_run_once lo others elapsed timeout el w =
      map_option (Pair (Inr ()))
       (dispatch_all lo
         (List.map_filter (selected (sel_events_map (po_selector (el_poll el)))) (take (nat cnt) buf) @
          entries (rq_nodes (others 0 q1)) don) (el\<lparr>el_poll := po'\<rparr>) w) \<and>
    rq_holds (po_queue po') (rest @ requeues (rq_nodes (others 0 q1)) don) \<and>
    (rest = [] \<or> length (List.map_filter (selected (sel_events_map (po_selector (el_poll el))))
      (take (nat cnt) buf) @ entries (rq_nodes (others 0 q1)) don) = 4096)"
proof -
  from el_turn [where lo = lo and others = others and elapsed = elapsed and timeout = timeout and
      el = el and w = w, OF assms] show ?thesis .
qed

lemma run_once_dispatches_witness:
  "\<exists>el'. el_run_once demo_lo (\<lambda>_ q. q) (\<lambda>_. duration_zero) None
      \<lparr>el_run = True, el_poll = demo_po, el_timer = the demo_timer\<rparr> [] =
    Some (Inr (), el', [Inl (UserJob 1, 0), Inl (NullJob, 0), Inl (UserJob 7, 1)])"
proof -
  let ?el = "\<lparr>el_run = True, el_poll = demo_po, el_timer = the demo_timer\<rparr>"
  have lo: "lo_wait demo_lo = demo_reports" "lo_drain demo_lo = demo_read" by (simp_all add: demo_lo_def)
  obtain q1 where s: "prepare_for_sleep (po_queue demo_po) = Some (False, q1)" "rq_holds q1 [11, 10]"
    "nodes_ok (rq_nodes q1) [11, 10]" "rq_nodes q1 = rq_nodes (po_queue demo_po)"
    "lo_wait demo_lo (sel_epfd (po_selector demo_po)) 4096
      (select_timeout (if [11 :: nat, 10] = [] then None else Some duration_zero)) (rq_pipe q1) =
      (((2, no_error), demo_reported), 200)"
    "(if \<exists>ev \<in> set (take (nat 2) demo_reported). notifies (sel_events_map (po_selector demo_po)) ev
      then awk_cleanup (lo_drain demo_lo) 200 else Some 200) = Some 0"
    by (rule demo_turn_setup [OF lo])
  from run_once_dispatches [where lo = demo_lo and others = "\<lambda>_ q. q" and elapsed = "\<lambda>_. duration_zero" and
      timeout = None and el = ?el and w = "[]" and ps = "[11, 10]",
      unfolded event_loop.select_convs event_loop.update_convs,
      OF demo_po_ok(1) _ s(1) s(2,3) s(5) demo_turn_counts s(6)]
  obtain don rest po' where r: "[11, 10] = don @ rest"
    "el_run_once demo_lo (\<lambda>_ q. q) (\<lambda>_. duration_zero) None ?el [] = map_option (Pair (Inr ()))
       (dispatch_all demo_lo (demo_sel @ entries (rq_nodes (po_queue demo_po)) don)
          \<lparr>el_run = True, el_poll = po', el_timer = the demo_timer\<rparr> [])"
    "rest = [] \<or> length (demo_sel @ entries (rq_nodes (po_queue demo_po)) don) = 4096"
    unfolding s(4) by auto
  note e = demo_turn_entries [OF r(1,3)]
  from arg_cong [OF e [THEN conjunct1], of "map Inl"]
  have m: "map (\<lambda>e. Inl (je_job e, ready_as_usize (je_ready e))) (demo_sel @ entries (rq_nodes (po_queue demo_po)) don) =
      [Inl (UserJob 7, 1), Inl (NullJob, 0), Inl (UserJob 1, 0)]"
    by (simp only: map_map comp_def list.map)
  show ?thesis unfolding r(2) demo_dispatch [OF e [THEN conjunct2]] m by simp
qed

text \<open>
  C5: The event of the timer runs the jobs of exactly the timeouts that are due, each once,
  keeps the others with a wake-up in time, and clears the timer's readiness, so that the
  loop does not spin; for jobs that leave the loop alone, while the clock stands at one
  tick.
\<close>

theorem timer_event_runs_due:
  assumes "slab_laws (lo_slab lo)" "\<And>w. lo_clock lo w = (elapsed, w)"
    "\<And>a el w. lo_timer_job lo a el w = Some (el, run a w)"
    "current_tick elapsed (tm_tick_ms (el_timer el)) = Some target" "target < u64_max"
    "timer_prompt (lo_slab lo) (el_timer el)" "tm_tick (el_timer el) \<le> target"
    "lc_borrow (tm_inner (el_timer el)) = Some inner"
    "reg_inv (po_queue (el_poll el)) hs" "0 < h_set (hs (ti_set_readiness inner))"
    "h_reg (hs (ti_set_readiness inner))" "te_ttype (je_token_entry entry) = TimersEvent"
  shows "\<exists>as el'. el_dispatch lo entry el w = Some (el', fold run as w) \<and>
    mset as = due_states (pending (lo_slab lo) (el_timer el)) target \<and>
    pending (lo_slab lo) (el_timer el') = pending (lo_slab lo) (el_timer el) |`
      (- due_keys (pending (lo_slab lo) (el_timer el)) target) \<and>
    timer_prompt (lo_slab lo) (el_timer el') \<and> wake_ok (lo_slab lo) (el_timer el') \<and>
    reg_inv (po_queue (el_poll el')) hs \<and>
    regi_readiness (po_queue (el_poll el')) (ti_set_readiness inner) = Some ready_empty"
proof -
  let ?q = "po_queue (el_poll el)" and ?p = "ti_set_readiness inner"
  obtain q' where q': "queue_setr (lo_wake lo) ?p ready_empty ?q = Some q'" "reg_inv q' hs"
    "regi_readiness q' ?p = Some ready_empty"
    by (rule set_readiness_empty [OF assms(9,10), of "lo_wake lo"]) (use assms(11) in blast)
  have inner: "map_option ti_set_readiness (lc_inner (tm_inner (el_timer el))) = Some ?p"
    using assms(8) by (simp add: lc_borrow_def)
  obtain as t' where r: "el_timers lo el w =
      Some (el\<lparr>el_timer := t', el_poll := (el_poll el)\<lparr>po_queue := q'\<rparr>\<rparr>, fold run as w)"
    "mset as = due_states (pending (lo_slab lo) (el_timer el)) target"
    "pending (lo_slab lo) t' = pending (lo_slab lo) (el_timer el) |`
      (- due_keys (pending (lo_slab lo) (el_timer el)) target)"
    "timer_prompt (lo_slab lo) t'" "wake_ok (lo_slab lo) t'"
    using el_timers_drain [where lo = lo and elapsed = elapsed and run = run,
        OF assms(1-5) q'(1) assms(6,7) refl inner refl] by blast
  then show ?thesis using q' assms(12)
    by (intro exI [of _ as] exI [of _ "el\<lparr>el_timer := t', el_poll := (el_poll el)\<lparr>po_queue := q'\<rparr>\<rparr>"])
      (simp add: el_dispatch_def)
qed

lemma timer_event_runs_due_witness:
  "\<exists>t as el' el. demo_timer = Some t \<and> pending demo_slab (el_timer el) = pending demo_slab t \<and>
    el_dispatch demo_lo \<lparr>je_token_entry = \<lparr>te_ttype = TimersEvent, te_token = Token 0\<rparr>,
      je_job = NullJob, je_ready = ready_empty\<rparr> el [] = Some (el', fold (\<lambda>a. (#) (Inr a)) as []) \<and>
    mset as = due_states (pending demo_slab t) 7"
proof -
  obtain q :: "nat rq" where q: "reg_reach (demo_write 5) (q, demo_handles)" using demo_reach by blast
  have inv: "reg_inv q demo_handles" using reach_inv [OF q] unfolding reg_inv_def by simp
  obtain t where t: "demo_timer = Some t" "timer_prompt demo_slab t" "tm_tick t = 0" "tm_tick_ms t = 100"
    using demo_timer_ok by metis
  let ?inner = "\<lparr>ti_registration = 10, ti_set_readiness = 10, ti_wakeup_state = u64_max, ti_unparks = 0\<rparr>"
  let ?t = "t\<lparr>tm_inner := \<lparr>lc_inner = Some ?inner\<rparr>\<rparr>"
  let ?el = "\<lparr>el_run = True, el_poll = \<lparr>po_selector = demo_selector, po_queue = q\<rparr>, el_timer = ?t\<rparr>"
  let ?d = "\<lparr>dur_secs = 0, dur_nanos = 700000000\<rparr>"
  have sl: "lo_slab demo_lo = demo_slab" by (simp add: demo_lo_def)
  have pr: "timer_prompt (lo_slab demo_lo) (el_timer ?el)" using t(2) sl by simp
  have lt: "(7 :: u64) < u64_max" "current_tick ?d 100 = Some 7" by code_simp+
  have tick: "current_tick ?d (tm_tick_ms (el_timer ?el)) = Some 7" "tm_tick (el_timer ?el) \<le> 7"
    using lt(2) t(3,4) by simp_all
  have b: "lc_borrow (tm_inner (el_timer ?el)) = Some ?inner" by (simp add: lc_borrow_def)
  have i: "reg_inv (po_queue (el_poll ?el)) demo_handles" "0 < h_set (demo_handles (ti_set_readiness ?inner))"
    "h_reg (demo_handles (ti_set_readiness ?inner))" using inv by (simp_all add: demo_handles_def)
  have ops: "slab_laws (lo_slab demo_lo)" "\<And>w. lo_clock demo_lo w = (?d, w)"
    "\<And>a el w. lo_timer_job demo_lo a el w = Some (el, (\<lambda>a. (#) (Inr a)) a w)"
    by (simp_all add: demo_lo_def demo_slab_laws)
  from timer_event_runs_due [where lo = demo_lo and elapsed = ?d and run = "\<lambda>a. (#) (Inr a)" and el = ?el
      and w = "[]" and entry = "\<lparr>je_token_entry = \<lparr>te_ttype = TimersEvent, te_token = Token 0\<rparr>,
        je_job = NullJob, je_ready = ready_empty\<rparr>",
      OF ops tick(1) lt(1) pr tick(2) b i]
  obtain as el' where r: "el_dispatch demo_lo \<lparr>je_token_entry = \<lparr>te_ttype = TimersEvent, te_token = Token 0\<rparr>,
      je_job = NullJob, je_ready = ready_empty\<rparr> ?el [] = Some (el', fold (\<lambda>a. (#) (Inr a)) as [])"
    "mset as = due_states (pending demo_slab (el_timer ?el)) 7" unfolding sl by auto
  have "pending demo_slab (el_timer ?el) = pending demo_slab t" by simp
  then show ?thesis using t(1) r by metis
qed

text \<open>
  C22: A timeout set on the loop can be cleared once: clearing it answers true and leaves the
  timeouts as they were before it was set; clearing it again answers false.
\<close>

theorem timeout_clear_roundtrip:
  assumes "slab_laws sl" "timer_ok sl (el_timer el)" "tm_tick_ms (el_timer el) \<noteq> 0"
    "tm_tick (el_timer el) < u64_max" "el_timeout sl elapsed delay a el = Some (timeout, el1)"
  shows "pending sl (el_timer el1) (token_0 (to_token timeout)) = Some (to_tick timeout, a) \<and>
    (\<exists>el2 el3. el_clear_timeout sl timeout el1 = Some (True, el2) \<and> timer_ok sl (el_timer el2) \<and>
      pending sl (el_timer el2) = pending sl (el_timer el) \<and>
      el_clear_timeout sl timeout el2 = Some (False, el3) \<and>
      pending sl (el_timer el3) = pending sl (el_timer el))"
proof -
  let ?t = "el_timer el" and ?k = "token_0 (to_token timeout)"
  obtain d t1 where d: "set_timeout_at sl ?t d a = Some (timeout, t1)" "el1 = el\<lparr>el_timer := t1\<rparr>"
    using assms(5) by (auto simp: el_timeout_def set_timeout_def split: Option.bind_splits)
  obtain tick where tick: "set_timeout_at sl ?t d a =
      timer_insert sl ?t (if tick < tm_tick ?t then tm_tick ?t + 1 else tick) a"
    by (rule set_timeout_at_insert [OF assms(3,4)])
  have i: "pending sl ?t ?k = None" "pending sl t1 = (pending sl ?t)(?k \<mapsto> (to_tick timeout, a))"
    "timer_ok sl t1"
    by (rule timer_insert_spec [OF assms(1) d(1) [unfolded tick] assms(2)], simp)+
  obtain t2 where t2: "cancel_timeout sl t1 timeout = Some (Some a, t2)"
    "pending sl t2 = pending sl ?t" "timer_ok sl t2"
    by (rule cancel_timeout_spec [OF assms(1) i(3), where to = timeout])
      (use i(1,2) in \<open>auto simp: fun_upd_idem\<close>)
  obtain t3 where t3: "cancel_timeout sl t2 timeout = Some (None, t3)" "pending sl t3 = pending sl ?t"
    by (rule cancel_timeout_spec [OF assms(1) t2(3), where to = timeout]) (use i(1) t2(2) in auto)
  show ?thesis using d(2) i(2) t2 t3 by (simp add: el_clear_timeout_def)
qed
lemma timeout_clear_roundtrip_witness:
  "\<exists>timeout el1 el2. el_timeout demo_slab duration_zero \<lparr>dur_secs = 1, dur_nanos = 0\<rparr> ''d''
      \<lparr>el_run = True, el_poll = demo_po, el_timer = the demo_timer\<rparr> = Some (timeout, el1) \<and>
    el_clear_timeout demo_slab timeout el1 = Some (True, el2)"
proof -
  let ?el = "\<lparr>el_run = True, el_poll = demo_po, el_timer = the demo_timer\<rparr>"
  obtain t where t: "demo_timer = Some t" "timer_prompt demo_slab t" "tm_tick t = 0" "tm_tick_ms t = 100"
    using demo_timer_ok by metis
  have lt: "(0 :: u64) < u64_max" by code_simp
  have the: "the demo_timer = t" unfolding t(1) by simp
  have "map_option (\<lambda>_. ()) (Option.bind demo_timer
      (\<lambda>t. set_timeout demo_slab t duration_zero \<lparr>dur_secs = 1, dur_nanos = 0\<rparr> ''d'')) = Some ()"
    by code_simp
  then obtain timeout t1 where s: "set_timeout demo_slab t duration_zero \<lparr>dur_secs = 1, dur_nanos = 0\<rparr> ''d'' =
      Some (timeout, t1)" unfolding t(1) by auto
  then have set: "el_timeout demo_slab duration_zero \<lparr>dur_secs = 1, dur_nanos = 0\<rparr> ''d'' ?el =
      Some (timeout, ?el\<lparr>el_timer := t1\<rparr>)" by (simp add: el_timeout_def the)
  have "timer_ok demo_slab (el_timer ?el)" "tm_tick_ms (el_timer ?el) \<noteq> 0"
    "tm_tick (el_timer ?el) < u64_max"
    unfolding the event_loop.select_convs using prompt_ok [OF t(2)] t(3,4) lt by simp_all
  from timeout_clear_roundtrip [OF demo_slab_laws this set] set show ?thesis by blast
qed

text \<open>
  C21: A job handed over by another thread with \<^verbatim>\<open>enqueue_job\<close>: the call never panics, unless
  the awakener's pipe fails other than by being full; the job waits in the queue behind
  everything already there, and the poll that takes its node runs exactly this job, with
  an empty readiness. The queue stays consistent, with one registration and one
  \<^verbatim>\<open>SetReadiness\<close> alive for the job.
\<close>

theorem enqueue_job_waits:
  assumes "pipe_writable wr" "rq_holds (po_queue (el_poll el)) ps"
    "all_inv (po_queue (el_poll el)) hs ps" "p \<notin> dom (rq_heap (po_queue (el_poll el)))"
  shows "\<exists>el' m. enqueue_job wr p job el = Some el' \<and>
    rq_holds (po_queue (el_poll el')) (ps @ [p]) \<and>
    all_inv (po_queue (el_poll el')) (hs(p := \<lparr>h_reg = True, h_set = 1\<rparr>)) (ps @ [p]) \<and>
    rq_nodes (po_queue (el_poll el')) p = Some m \<and>
    polled_entry m = Some \<lparr>je_token_entry = \<lparr>te_ttype = OtherEvent, te_token = Token 0\<rparr>,
      je_job = job, je_ready = ready_empty\<rparr> \<and>
    el' = el\<lparr>el_poll := (el_poll el)\<lparr>po_queue := po_queue (el_poll el')\<rparr>\<rparr>"
  by (rule enqueue_job_spec [OF assms])

lemma enqueue_job_waits_witness:
  "\<exists>q ps el'. rq_holds q ps \<and> enqueue_job (demo_write 5) 10 (UserJob 3)
      \<lparr>el_run = True, el_poll = \<lparr>po_selector = demo_selector, po_queue = q\<rparr>, el_timer = the demo_timer\<rparr> =
        Some el' \<and> rq_holds (po_queue (el_poll el')) (ps @ [10])"
proof -
  obtain q :: "nat rq" where q: "rq_new (Inr 0) Map.empty (\<lambda>_. 0) 7 0 1 2 = Some (Inr q)"
    "\<forall>p. p \<notin> {0, 1, 2} \<longrightarrow> rq_heap q p = None"
    using rq_new_holds [of 0 1 2 0 Map.empty "\<lambda>_. 0" 7] by auto
  have "reg_reach (demo_write 5) (q, \<lambda>_. no_handles)" by (rule reg_reach.start [OF q(1)]) simp
  from reach_inv [OF this] obtain ps where ps: "rq_holds q ps" "all_inv q (\<lambda>_. no_handles) ps" by auto
  have wr: "pipe_writable (demo_write 5)" by (auto simp: pipe_writable_def demo_write_def split: if_splits)
  let ?el = "\<lparr>el_run = True, el_poll = \<lparr>po_selector = demo_selector, po_queue = q\<rparr>,
    el_timer = the demo_timer\<rparr>"
  have "rq_holds (po_queue (el_poll ?el)) ps" "all_inv (po_queue (el_poll ?el)) (\<lambda>_. no_handles) ps"
    "10 \<notin> dom (rq_heap (po_queue (el_poll ?el)))" using ps q(2) by auto
  from enqueue_job_waits [OF wr this, of "UserJob 3"] ps(1) show ?thesis by blast
qed

end
