(* ===== verification/Timer_Missed.thy ===== *)
theory Timer_Missed
  imports Timer_Spec
begin

text \<open>
  What becomes of a timeout that is set at the very tick the cursor is in: it is linked at
  the head of the slot, behind the cursor, and is passed over until the wheel has turned.
\<close>

section \<open>Behind the cursor\<close>

definition behind :: "('s, 'a entry) slab_ops \<Rightarrow> 's timer \<Rightarrow> usize \<Rightarrow> tick \<Rightarrow> 'a \<Rightarrow> bool" where
  "behind sl t k tick a \<longleftrightarrow> tick \<le> tm_tick t \<and> pending sl t k = Some (tick, a) \<and>
     (\<exists>L xs ys. wheel_inv sl t L xs ys \<and> (tm_tick t = tick \<longrightarrow> k \<in> set xs))"

text \<open>Ticks less than a turn apart have slots of their own.\<close>

lemma slot_apart:
  assumes "tm_mask t = mask n" "tick < now" "unat now \<le> unat tick + unat (tm_mask t)"
  shows "slot_for t now \<noteq> slot_for t tick"
proof
  assume "slot_for t now = slot_for t tick"
  then have "take_bit n now = take_bit n tick"
    by (simp add: slot_for_def assms(1) take_bit_eq_mask and.commute)
  then have "unat now mod 2 ^ n = unat tick mod 2 ^ n"
    by (metis take_bit_eq_mod unsigned_take_bit_eq)
  then obtain q where q: "unat now - unat tick = 2 ^ n * q"
    using assms(2) mod_eq_dvd_iff_nat [of "unat tick" "unat now" "2 ^ n"] by (auto simp: word_less_nat_alt)
  have "unat (tm_mask t) < 2 ^ n"
    unfolding assms(1) take_bit_minus_one_eq_mask [symmetric] unsigned_take_bit_eq
    by (rule take_bit_nat_less_exp)
  then have "2 ^ n * q < 2 ^ n" using assms(3) q by linarith
  then have "q = 0" by simp
  then show False using q assms(2) by (simp add: word_less_nat_alt)
qed

lemma behind_ahead:
  assumes inv: "wheel_inv sl t L xs ys" and p: "pending sl t k = Some (tick, a)" and le: "tick \<le> tm_tick t"
    and now: "tm_tick t = tick \<Longrightarrow> k \<in> set xs" and mask: "tm_mask t = mask n"
    and turn: "unat (tm_tick t) \<le> unat tick + unat (tm_mask t)"
  shows "k \<notin> set ys"
proof (cases "tm_tick t = tick")
  case True
  have "distinct (xs @ ys)" using wheel_invD(3,7) [OF inv] by metis
  then show ?thesis using now [OF True] by auto
next
  case False
  then have "slot_for t (tm_tick t) \<noteq> slot_for t tick" using slot_apart [OF mask _ turn] le by simp
  then have "unat (slot_for t tick) \<noteq> cur_slot t" by (metis unsigned_word_eqI)
  moreover have "k \<in> set (L (unat (slot_for t tick)))" by (rule pending_slot [OF inv p])
  moreover have "unat (slot_for t tick) = cur_slot t" if k: "k \<in> set (L (cur_slot t))"
    by (rule slot_pending [OF inv k]) (use p in simp)
  ultimately have "k \<notin> set (L (cur_slot t))" by blast
  then show ?thesis using wheel_invD(7) [OF inv] by simp
qed

section \<open>Polling\<close>

text \<open>The timer after the loop of \<^verbatim>\<open>poll_to\<close>.\<close>

definition left :: "('a \<times> 's timer) + 's timer \<Rightarrow> 's timer" where
  "left r = (case r of Inl (_, t) \<Rightarrow> t | Inr t \<Rightarrow> t)"

lemma timer_steps_tick:
  "wheel_set u i g = Some u' \<Longrightarrow> tm_tick u' = tm_tick u \<and> tm_mask u' = tm_mask u"
  "entry_set sl u k h = Some u' \<Longrightarrow> tm_tick u' = tm_tick u \<and> tm_mask u' = tm_mask u"
  "timer_remove sl u k = Some (a, u') \<Longrightarrow> tm_tick u' = tm_tick u \<and> tm_mask u' = tm_mask u"
  by (auto simp: wheel_set_def entry_set_def timer_remove_def Let_def
      split: if_splits Option.bind_splits)

lemma timer_unlink_tick:
  "timer_unlink sl u l k = Some u' \<Longrightarrow> tm_tick u' = tm_tick u \<and> tm_mask u' = tm_mask u"
  by (auto simp: timer_unlink_def dest!: timer_steps_tick split: if_splits Option.bind_splits)

lemma checked_Suc_le: "checked_add a 1 = Some b \<Longrightarrow> b \<le> c \<Longrightarrow> a \<le> (c :: u64)"
  by (auto simp: checked_add_def word_le_nat_alt unat_word_ariths split: if_splits)

lemma left_later:
  assumes "poll_to_loop sl target t = Some r"
  shows "tm_tick t \<le> tm_tick (left r) \<and> tm_mask (left r) = tm_mask t"
proof (rule poll_to_loop.raw_induct [where P = "\<lambda>sl target t r.
    tm_tick t \<le> tm_tick (left r) \<and> tm_mask (left r) = tm_mask t", OF _ assms], goal_cases)
  case (1 f sl target t r)
  show ?case using 1(2)
    by (auto simp: Let_def left_def split: if_splits Option.bind_splits
        dest!: 1(1) timer_steps_tick timer_unlink_tick intro: checked_Suc_le)
qed

lemma loop_misses:
  assumes laws: "slab_laws sl" and lt: "target < u64_max"
  shows "wheel_inv sl t L xs ys \<Longrightarrow> tm_tick t \<le> target \<Longrightarrow> tm_mask t = mask n \<Longrightarrow> tick \<le> tm_tick t \<Longrightarrow>
    pending sl t k = Some (tick, a) \<Longrightarrow> (tm_tick t = tick \<Longrightarrow> k \<in> set xs) \<Longrightarrow>
    poll_to_loop sl target t = Some r \<Longrightarrow> unat (tm_tick (left r)) \<le> unat tick + unat (mask n :: u64) \<Longrightarrow>
    behind sl (left r) k tick a"
proof (induction "(unat target - unat (tm_tick t), length ys)" arbitrary: t xs ys
    rule: wf_induct_rule [OF wf_lex_prod [OF wf_less_than wf_less_than]])
  case (1 t ys xs)
  note inv = "1.prems"(1) and le = "1.prems"(2) and p = "1.prems"(5) and run = "1.prems"(7)
  show ?case
  proof (cases ys)
    case Nil
    then obtain t' where t': "poll_to_loop sl target t = poll_to_loop sl target t'"
      "wheel_inv sl t' L [] (L (cur_slot t'))" "unat (tm_tick t') = Suc (unat (tm_tick t))"
      "tm_entries t' = tm_entries t" "tm_mask t' = tm_mask t"
      using poll_loop_next [of sl t L xs target] inv le lt by metis
    have now: "tick < tm_tick t'" using "1.prems"(4) t'(3) by (simp add: word_le_nat_alt word_less_nat_alt)
    have p': "pending sl t' k = Some (tick, a)" using p t'(4) by simp
    show ?thesis
    proof (cases "tm_tick t' \<le> target")
      case True
      have "((unat target - unat (tm_tick t'), length (L (cur_slot t'))),
          unat target - unat (tm_tick t), length ys) \<in> less_than <*lex*> less_than"
        using True t'(3) by (auto simp: word_le_nat_alt)
      from "1.hyps" [OF this t'(2) True _ _ p'] now "1.prems"(3,7,8) t'(1,5) show ?thesis by simp
    next
      case False
      then have "r = Inr t'" using poll_loop_stop [of target t' sl] t'(1) run by (simp add: not_le)
      then show ?thesis using now p' t'(2) unfolding behind_def left_def by auto
    qed
  next
    case (Cons j zs)
    have inv: "wheel_inv sl t L xs (j # zs)" using inv Cons by simp
    have "j \<in> set (L (cur_slot t))" using wheel_invD(7) [OF inv] by simp
    then obtain u b where q: "pending sl t j = Some (u, b)" by (rule slot_pending [OF inv])
    have "unat (tm_tick t) \<le> unat tick + unat (tm_mask t)"
      using left_later [OF run] "1.prems"(3,8) by (simp add: word_le_nat_alt)
    from behind_ahead [OF inv p "1.prems"(4,6,3) this] have jk: "j \<noteq> k" by auto
    show ?thesis
    proof (cases "u \<le> tm_tick t")
      case True
      obtain t' where t': "poll_to_loop sl target t = Some (Inl (b, t'))"
        "wheel_inv sl t' (\<lambda>i. remove1 j (L i)) xs zs" "pending sl t' = (pending sl t)(j := None)"
        "tm_tick t' = tm_tick t" "tm_mask t' = tm_mask t"
        by (rule poll_loop_due [OF laws inv le q True])
      have "behind sl t' k tick a"
        unfolding behind_def using t'(2-4) "1.prems"(4,6) p jk by auto
      then show ?thesis using t'(1) run by (simp add: left_def)
    next
      case False
      then have late: "tm_tick t < u" by simp
      obtain t' where t': "poll_to_loop sl target t = poll_to_loop sl target t'"
        "wheel_inv sl t' L (xs @ [j]) zs" "tm_tick t' = tm_tick t"
        "tm_entries t' = tm_entries t" "tm_mask t' = tm_mask t"
        by (rule poll_loop_pass [OF inv le q late])
      have "((unat target - unat (tm_tick t'), length zs),
          unat target - unat (tm_tick t), length ys) \<in> less_than <*lex*> less_than"
        using t'(3) Cons by simp
      from "1.hyps" [OF this t'(2)] "1.prems"(2-8) t'(1,3-5) show ?thesis by auto
    qed
  qed
qed

lemma behind_inner [simp]: "behind sl (t\<lparr>tm_inner := x\<rparr>) k tick a = behind sl t k tick a"
  by (simp add: behind_def)

lemma poll_to_left:
  assumes run: "poll_to sl setr target t w = Some (res, t', w')"
  obtains r x where "poll_to_loop sl (if target < tm_tick t then tm_tick t else target) t = Some r"
    "t' = (left r)\<lparr>tm_inner := x\<rparr>"
proof -
  obtain r where r: "poll_to_loop sl (if target < tm_tick t then tm_tick t else target) t = Some r"
    using run by (auto simp: poll_to_def Let_def split: Option.bind_splits)
  show ?thesis
  proof (cases r)
    case (Inl p)
    then have "t' = left r" using run r by (auto simp: poll_to_def Let_def left_def split: prod.splits)
    then show ?thesis using that [of r "tm_inner (left r)"] r by simp
  next
    case (Inr u)
    then have "\<exists>x. t' = u\<lparr>tm_inner := x\<rparr>"
      using run r by (auto simp: poll_to_def Let_def schedule_readiness_eq split: option.splits Option.bind_splits)
        (metis timer.surjective timer.update_convs(7))+
    then show ?thesis using that r Inr by (auto simp: left_def)
  qed
qed

lemma poll_misses:
  assumes laws: "slab_laws sl" and mask: "tm_mask t = mask n" and b: "behind sl t k tick a"
    and lt: "target < u64_max" "unat tick + Suc (unat (mask n :: u64)) < 2 ^ 64"
    and run: "poll_to sl setr target t w = Some (res, t', w')"
    and le: "unat (tm_tick t') \<le> unat tick + unat (mask n :: u64)"
  shows "behind sl t' k tick a" "tm_mask t' = mask n"
proof -
  let ?tg = "if target < tm_tick t then tm_tick t else target"
  obtain L xs ys where d: "tick \<le> tm_tick t" "pending sl t k = Some (tick, a)" "wheel_inv sl t L xs ys"
    "tm_tick t = tick \<Longrightarrow> k \<in> set xs"
    using b unfolding behind_def by blast
  obtain r x where r: "poll_to_loop sl ?tg t = Some r" "t' = (left r)\<lparr>tm_inner := x\<rparr>"
    by (rule poll_to_left [OF run])
  note later = left_later [OF r(1)]
  have "unat (tm_tick t) \<le> unat (tm_tick t')" using later r(2) by (simp add: word_le_nat_alt)
  then have "tm_tick t < u64_max" using le lt(2) by (simp add: word_less_nat_alt unat_u64_max)
  then have tg: "tm_tick t \<le> ?tg" "?tg < u64_max" using lt(1) by auto
  show "tm_mask t' = mask n" using later mask r(2) by simp
  show "behind sl t' k tick a"
    using loop_misses [OF laws tg(2) d(3) tg(1) mask d(1,2,4) r(1)] le r(2) by simp
qed

section \<open>A timeout at the current tick\<close>

lemma insert_behind:
  assumes laws: "slab_laws sl" and ok: "timer_ok sl t" and run: "timer_insert sl t (tm_tick t) a = Some (to, t')"
  shows "behind sl t' (token_0 (to_token to)) (tm_tick t) a" "to_tick to = tm_tick t"
    "tm_tick t' = tm_tick t" "tm_mask t' = tm_mask t"
proof -
  let ?i = "unat (slot_for t (tm_tick t))"
  obtain L xs ys where inv: "wheel_inv sl t L xs ys" using ok unfolding timer_ok_def by blast
  have "timer_insert sl t (tm_tick t) a \<noteq> None" using run by simp
  then have "sl_insert sl (tm_entries t) (entry_new a (tm_tick t) (we_head (tm_wheel t ! ?i))) \<noteq> None"
    unfolding timer_insert_total [OF laws ok] .
  moreover have "we_head (tm_wheel t ! ?i) = first (L ?i)"
    by (rule wheel_invD(6) [OF inv slot_bound [OF wheel_invD(1) [OF inv]]])
  ultimately obtain k s0 where
    ins: "sl_insert sl (tm_entries t) (entry_new a (tm_tick t) (first (L ?i))) = Some (k, s0)" by auto
  obtain L' where t': "to = \<lparr>to_token = Token k, to_tick = tm_tick t\<rparr>" "wheel_inv sl t' L' (k # xs) ys"
    "pending sl t' = (pending sl t)(k \<mapsto> (tm_tick t, a))" "tm_tick t' = tm_tick t" "tm_mask t' = tm_mask t"
    by (rule timer_insert_ok [OF laws inv ins]) (use run in simp)
  have "\<exists>L xs ys. wheel_inv sl t' L xs ys \<and> (tm_tick t' = tm_tick t \<longrightarrow> k \<in> set xs)"
    using t'(2) list.set_intros(1) by metis
  then show "behind sl t' (token_0 (to_token to)) (tm_tick t) a"
    unfolding behind_def t'(1) using t'(3,4) by simp
  show "to_tick to = tm_tick t" "tm_tick t' = tm_tick t" "tm_mask t' = tm_mask t" using t'(1,4,5) by simp_all
qed

lemma polls_later:
  "timer_execs sl setr (map Poll_to ns) t w = Some (t', w') \<Longrightarrow> tm_tick t \<le> tm_tick t'"
proof (induction ns arbitrary: t w)
  case (Cons m ns)
  then obtain res t1 w1 where p: "poll_to sl setr m t w = Some (res, t1, w1)"
    "timer_execs sl setr (map Poll_to ns) t1 w1 = Some (t', w')" by (auto split: option.splits)
  have "tm_tick t \<le> tm_tick t1"
    by (rule poll_to_left [OF p(1)]) (use left_later in fastforce)
  then show ?case using Cons.IH [OF p(2)] by simp
qed simp

lemma polls_miss:
  assumes laws: "slab_laws sl" and turn: "unat tick + Suc (unat (mask n :: u64)) < 2 ^ 64"
  shows "tm_mask t = mask n \<Longrightarrow> behind sl t k tick a \<Longrightarrow> \<forall>m \<in> set ns. m < u64_max \<Longrightarrow>
    timer_execs sl setr (map Poll_to ns) t w = Some (t', w') \<Longrightarrow>
    unat (tm_tick t') \<le> unat tick + unat (mask n :: u64) \<Longrightarrow> behind sl t' k tick a"
proof (induction ns arbitrary: t w)
  case (Cons m ns)
  then obtain res t1 w1 where p: "poll_to sl setr m t w = Some (res, t1, w1)"
    "timer_execs sl setr (map Poll_to ns) t1 w1 = Some (t', w')" by (auto split: option.splits)
  have "unat (tm_tick t1) \<le> unat tick + unat (mask n :: u64)"
    using polls_later [OF p(2)] Cons.prems(5) by (simp add: word_le_nat_alt)
  note m = poll_misses [OF laws Cons.prems(1,2) _ turn p(1) this]
  show ?case using Cons.IH [OF _ _ _ p(2) Cons.prems(5)] m Cons.prems(3) by simp
qed simp

text \<open>
  C25: A timeout whose tick is the one the cursor is in, as that of a delay shorter than half a
  tick when the timer has just polled, is missed for a whole turn of the wheel: it is put
  behind the cursor, and no sequence of polls gives it out, whatever their targets, until
  the cursor has gone as many ticks further as the wheel has slots. (The wheel has a power
  of two of slots, as every timer does.)
\<close>

theorem timer_zero_delay_missed:
  assumes "slab_laws sl" "timer_ok sl t" "tm_tick t < u64_max" "tm_mask t = mask n"
    "unat (tm_tick t) + length (tm_wheel t) < 2 ^ 64"
    "duration_to_tick d (tm_tick_ms t) = Some (tm_tick t)" "set_timeout_at sl t d a = Some (to, t1)"
    "\<forall>m \<in> set ns. m < u64_max" "timer_execs sl setr (map Poll_to ns) t1 w = Some (t2, w2)"
    "unat (tm_tick t2) < unat (tm_tick t) + length (tm_wheel t)"
  shows "to_tick to = tm_tick t \<and> pending sl t2 (token_0 (to_token to)) = Some (tm_tick t, a)"
proof -
  obtain L xs ys where "wheel_inv sl t L xs ys" using assms(2) unfolding timer_ok_def by blast
  then have len: "length (tm_wheel t) = Suc (unat (mask n :: u64))"
    using wheel_invD(1) assms(4) by metis
  have "tm_tick_ms t \<noteq> 0" using assms(6) by (auto simp: duration_to_tick_def)
  then have "timer_insert sl t (tm_tick t) a = Some (to, t1)"
    using set_timeout_at_insert [of t d sl a] assms(3,6,7) by fastforce
  note i = insert_behind [OF assms(1,2) this]
  have "behind sl t2 (token_0 (to_token to)) (tm_tick t) a"
    by (rule polls_miss [OF assms(1) _ _ i(1) assms(8,9), where n = n])
      (use assms(4,5,10) i(4) len in simp_all)
  then show ?thesis using i(2) unfolding behind_def by blast
qed

lemma timer_zero_delay_missed_witness:
  "\<exists>t to t1 t2. timer_new demo_slab 100 4 4 = Some t \<and>
    set_timeout_at demo_slab t \<lparr>dur_secs = 0, dur_nanos = 0\<rparr> ''a'' = Some (to, t1) \<and>
    timer_execs demo_slab no_setr (map Poll_to [0, 2]) t1 () = Some (t2, ()) \<and>
    pending demo_slab t2 (token_0 (to_token to)) = Some (0, ''a'')"
proof -
  let ?run = "do {
     t \<leftarrow> timer_new demo_slab 100 4 4;
     (to, t1) \<leftarrow> set_timeout_at demo_slab t \<lparr>dur_secs = 0, dur_nanos = 0\<rparr> ''a'';
     (t2, _) \<leftarrow> timer_execs demo_slab no_setr (map Poll_to [0, 2]) t1 ();
     Some (t, to, t1, t2) }"
  have "map_option (\<lambda>(t, to, t1, t2). tm_mask t = mask 2 \<and> length (tm_wheel t) = 4 \<and> tm_tick t2 = 3) ?run =
      Some True" by code_simp
  then obtain t to t1 t2 where r: "timer_new demo_slab 100 4 4 = Some t"
    "set_timeout_at demo_slab t \<lparr>dur_secs = 0, dur_nanos = 0\<rparr> ''a'' = Some (to, t1)"
    "timer_execs demo_slab no_setr (map Poll_to [0, 2]) t1 () = Some (t2, ())"
    "tm_mask t = mask 2" "length (tm_wheel t) = 4" "tm_tick t2 = 3"
    by (auto split: Option.bind_splits)
  note n = timer_new_spec [OF demo_slab_laws r(1)]
  have d: "duration_to_tick \<lparr>dur_secs = 0, dur_nanos = 0\<rparr> 100 = Some 0" by code_simp
  have "pending demo_slab t2 (token_0 (to_token to)) = Some (tm_tick t, ''a'')"
    using timer_zero_delay_missed [OF demo_slab_laws prompt_ok [OF n(1)] _ r(4) _ _ r(2) _ r(3)] n(3,4) r(5,6) d
    by (simp add: word_less_nat_alt unat_u64_max)
  then show ?thesis using r(1-3) n(3) by auto
qed

text \<open>After the turn it is found: at tick 4 on a wheel of four slots.\<close>

lemma timer_zero_delay_found:
  "(do {
     t \<leftarrow> timer_new demo_slab 100 4 4;
     (to, t) \<leftarrow> set_timeout_at demo_slab t \<lparr>dur_secs = 0, dur_nanos = 0\<rparr> (7 :: nat);
     (r3, t, _) \<leftarrow> poll_to demo_slab no_setr 3 t ();
     (r4, t, _) \<leftarrow> poll_to demo_slab no_setr 4 t ();
     Some (to_tick to, r3, r4)
   }) = Some (0, None, Some 7)"
  by code_simp

end
