(* ===== verification/Connection.thy ===== *)
theory Connection
  imports Event_Loop
begin

text \<open>
  A TCP connection of \<^verbatim>\<open>src/net/connection.rs\<close>: a stream with its buffers, the three jobs of
  its user and the flags that say what it still does. The operations work on the
  connection, the event loop it belongs to and the world \<open>'w\<close>. Those of type
  \<^verbatim>\<open>io::Result<()>\<close> never fail, so their result is left out; a failed \<^verbatim>\<open>unwrap\<close> is \<open>None\<close>.
  As in the queue, a closure of the user is the number it was given, and the empty
  closures a connection starts with are \<open>NullJob\<close>.
\<close>

section \<open>The kernel of a loop\<close>

definition el_kernel :: "('k, 's) event_loop \<Rightarrow> 'k" where
  [mio_defs]: "el_kernel el = po_kernel (el_poll el)"

definition el_set_kernel :: "'k \<Rightarrow> ('k, 's) event_loop \<Rightarrow> ('k, 's) event_loop" where
  "el_set_kernel k el = el\<lparr>el_poll := po_update (po_selector (el_poll el)) k (el_poll el)\<rparr>"

lemma el_set_kernel_reads [simp]:
  "el_kernel (el_set_kernel k el) = k" "el_set_kernel k (el_set_kernel k' el) = el_set_kernel k el"
  "el_set_kernel (el_kernel el) el = el"
  by (simp_all add: el_kernel_def el_set_kernel_def po_update_def po_kernel_def)

section \<open>The connection\<close>

text \<open>A job may change the loop and the world; the read job also takes from the buffer.\<close>

type_synonym ('k, 's, 'w, 'r) user_job =
  "('k, 's) event_loop \<Rightarrow> 'w \<Rightarrow> ('r \<times> ('k, 's) event_loop \<times> 'w) option"

record ('b, 'k, 's, 'w) conn_jobs =
  cj_read :: "nat \<Rightarrow> 'b \<Rightarrow> ('k, 's, 'w, 'b) user_job"
  cj_writ :: "nat \<Rightarrow> ('k, 's, 'w, bool) user_job"
  cj_close :: "nat \<Rightarrow> ('k, 's, 'w, unit) user_job"

definition run_read_job :: "('b, 'k, 's, 'w) conn_jobs \<Rightarrow> job \<Rightarrow> 'b \<Rightarrow> ('k, 's, 'w, 'b) user_job" where
  "run_read_job cj job buf el w =
     (case job of NullJob \<Rightarrow> Some (buf, el, w) | UserJob n \<Rightarrow> cj_read cj n buf el w)"

definition run_writ_job :: "('b, 'k, 's, 'w) conn_jobs \<Rightarrow> job \<Rightarrow> ('k, 's, 'w, bool) user_job" where
  "run_writ_job cj job el w =
     (case job of NullJob \<Rightarrow> Some (True, el, w) | UserJob n \<Rightarrow> cj_writ cj n el w)"

definition run_close_job :: "('b, 'k, 's, 'w) conn_jobs \<Rightarrow> job \<Rightarrow> ('k, 's, 'w, unit) user_job" where
  "run_close_job cj job el w =
     (case job of NullJob \<Rightarrow> Some ((), el, w) | UserJob n \<Rightarrow> cj_close cj n el w)"

record 'b tcp_connection =
  tc_stream :: tcp_stream
  tc_read_buffer :: "'b option"
  tc_sending :: "'b option"
  tc_waiting :: "'b option"
  tc_read_job :: job
  tc_writ_job :: job
  tc_close_job :: job
  tc_read_enabled :: bool
  tc_write_enabled :: bool
  tc_read_triggered :: bool
  tc_write_triggered :: bool
  tc_closed :: bool

definition conn_new :: "'b buf_ops \<Rightarrow> tcp_stream \<Rightarrow> 'b tcp_connection" where
  "conn_new bo stream = \<lparr>tc_stream = stream,
     tc_read_buffer = Some (bo_with_capacity bo 1024),
     tc_sending = Some (bo_with_capacity bo 1024),
     tc_waiting = Some (bo_with_capacity bo 1024),
     tc_read_job = NullJob, tc_writ_job = NullJob, tc_close_job = NullJob,
     tc_read_enabled = True, tc_write_enabled = True,
     tc_read_triggered = False, tc_write_triggered = False, tc_closed = False\<rparr>"

definition connected :: "'b tcp_connection \<Rightarrow> bool" where
  "connected c \<longleftrightarrow> tc_read_triggered c \<or> tc_write_triggered c"

definition set_read_job :: "job \<Rightarrow> 'b tcp_connection \<Rightarrow> 'b tcp_connection" where
  "set_read_job job c = c\<lparr>tc_read_job := job\<rparr>"

definition set_writ_job :: "job \<Rightarrow> 'b tcp_connection \<Rightarrow> 'b tcp_connection" where
  "set_writ_job job c = c\<lparr>tc_writ_job := job\<rparr>"

definition set_close_job :: "job \<Rightarrow> 'b tcp_connection \<Rightarrow> 'b tcp_connection" where
  "set_close_job job c = c\<lparr>tc_close_job := job\<rparr>"

definition set_enabled ::
  "bool \<Rightarrow> 'b tcp_connection \<Rightarrow> 'b tcp_connection" where
  "set_enabled enable c = c\<lparr>tc_read_enabled := enable, tc_write_enabled := enable\<rparr>"

subsection \<open>Closing\<close>

text \<open>\<open>dbg\<close> says whether the log line of the selector is evaluated.\<close>

definition close_stream ::
  "bool \<Rightarrow> ('a, 'k) net_ops \<Rightarrow> 'b tcp_connection \<Rightarrow> ('k, 's) event_loop \<Rightarrow>
   ('b tcp_connection \<times> ('k, 's) event_loop) option" where
  "close_stream dbg no c el = do {
     (r, stream, el) \<leftarrow> el_deregister (stream_deregister dbg (no_ctl no)) (tc_stream c) el;
     (case r of Inl _ \<Rightarrow> None | Inr _ \<Rightarrow> Some (c\<lparr>tc_stream := stream\<rparr>, el))
   }"

definition handle_close ::
  "bool \<Rightarrow> ('a, 'k) net_ops \<Rightarrow> ('b, 'k, 's, 'w) conn_jobs \<Rightarrow> 'b tcp_connection \<Rightarrow>
   ('k, 's) event_loop \<Rightarrow> 'w \<Rightarrow>
   ('b tcp_connection \<times> ('k, 's) event_loop \<times> 'w) option" where
  "handle_close dbg no cj c el w =
     (if tc_closed c then Some (c, el, w)
      else do {
        let c = (set_enabled False c)\<lparr>tc_closed := True\<rparr>;
        (_, el, w) \<leftarrow> run_close_job cj (tc_close_job c) el w;
        (c, el) \<leftarrow> close_stream dbg no c el;
        Some (c, el, w)
      })"

subsection \<open>Reading\<close>

partial_function (option) handle_read ::
  "'b buf_ops \<Rightarrow> bool \<Rightarrow> ('a, 'k) net_ops \<Rightarrow> ('b, 'k, 's, 'w) conn_jobs \<Rightarrow> 'b tcp_connection \<Rightarrow>
   ('k, 's) event_loop \<Rightarrow> 'w \<Rightarrow>
   ('b tcp_connection \<times> ('k, 's) event_loop \<times> 'w) option" where
  "handle_read bo dbg no cj c el w =
     Option.bind (tc_read_buffer c) (\<lambda>buf.
     Option.bind (try_read_buf bo (stream_read no (tc_stream c)) buf (el_kernel el)) (\<lambda>(res, buf, k).
     let c = c\<lparr>tc_read_buffer := Some buf\<rparr>; el = el_set_kernel k el in
     case res of
       Inl e \<Rightarrow> handle_close dbg no cj (c\<lparr>tc_read_triggered := False\<rparr>) el w
     | Inr None \<Rightarrow> Some (c\<lparr>tc_read_triggered := False\<rparr>, el, w)
     | Inr (Some r) \<Rightarrow>
         Option.bind (run_read_job cj (tc_read_job c) buf el w) (\<lambda>(buf, el, w).
         let c = c\<lparr>tc_read_buffer := Some buf\<rparr> in
         if 0 < r then handle_read bo dbg no cj c el w
         else handle_close dbg no cj (c\<lparr>tc_read_triggered := False\<rparr>) el w)))"

declare handle_read.simps [code]

subsection \<open>Writing\<close>

text \<open>What is left in \<open>buf\<close> at the end is dropped with it.\<close>

definition write_buf ::
  "'b buf_ops \<Rightarrow> bool \<Rightarrow> ('a, 'k) net_ops \<Rightarrow> ('b, 'k, 's, 'w) conn_jobs \<Rightarrow> 'b \<Rightarrow> 'b tcp_connection \<Rightarrow> ('k, 's) event_loop \<Rightarrow> 'w \<Rightarrow>
   ('b tcp_connection \<times> ('k, 's) event_loop \<times> 'w) option" where
  "write_buf bo dbg no cj buf c el w = do {
     (res, buf, k) \<leftarrow> try_write_buf bo (stream_write no (tc_stream c)) buf (el_kernel el);
     let el = el_set_kernel k el;
     (case res of
        Inr None \<Rightarrow> Some (c\<lparr>tc_write_triggered := False\<rparr>, el, w)
      | Inr (Some _) \<Rightarrow>
          if 0 < bo_len bo buf then Some (c, el, w)
          else do {
            let c = c\<lparr>tc_write_triggered := False\<rparr>;
            (ret, el, w) \<leftarrow> run_writ_job cj (tc_writ_job c) el w;
            if \<not> ret then handle_close dbg no cj c el w else Some (c, el, w)
          }
      | Inl e \<Rightarrow> handle_close dbg no cj (c\<lparr>tc_write_triggered := False\<rparr>) el w)
   }"

definition write_data ::
  "'b buf_ops \<Rightarrow> bool \<Rightarrow> ('a, 'k) net_ops \<Rightarrow> ('b, 'k, 's, 'w) conn_jobs \<Rightarrow> 'b tcp_connection \<Rightarrow>
   ('k, 's) event_loop \<Rightarrow> 'w \<Rightarrow>
   ('b tcp_connection \<times> ('k, 's) event_loop \<times> 'w) option" where
  "write_data bo dbg no cj c el w = do {
     buf_snd \<leftarrow> tc_sending c;
     let (buf_tmp, buf_snd) =
       (if 0 < bo_len bo buf_snd then bo_split bo buf_snd else (bo_with_capacity bo 1024, buf_snd));
     let c = c\<lparr>tc_sending := Some buf_snd\<rparr>;
     if bo_len bo buf_tmp = 0 then do {
       buf \<leftarrow> tc_waiting c;
       if 0 < bo_len bo buf then do {
         let (buf_tmp, buf) = bo_split bo buf;
         write_buf bo dbg no cj buf_tmp (c\<lparr>tc_waiting := Some buf\<rparr>) el w
       }
       else Some (c, el, w)
     }
     else write_buf bo dbg no cj buf_tmp c el w
   }"

definition conn_send ::
  "'b buf_ops \<Rightarrow> bool \<Rightarrow> ('a, 'k) net_ops \<Rightarrow> ('b, 'k, 's, 'w) conn_jobs \<Rightarrow> 'b \<Rightarrow> 'b tcp_connection \<Rightarrow> ('k, 's) event_loop \<Rightarrow> 'w \<Rightarrow>
   (nat io_result \<times> 'b tcp_connection \<times> ('k, 's) event_loop \<times> 'w) option" where
  "conn_send bo dbg no cj bytes c el w =
     (if \<not> tc_write_enabled c then Some (Inr 0, c, el, w)
      else
        let len = bo_len bo bytes in
        if len = 0 then Some (Inr 0, c, el, w)
        else do {
          buffer \<leftarrow> tc_waiting c;
          (c, el, w) \<leftarrow> write_data bo dbg no cj (c\<lparr>tc_waiting := Some (bo_put bo buffer bytes)\<rparr>) el w;
          Some (Inr len, c, el, w)
        })"

definition handle_write ::
  "'b buf_ops \<Rightarrow> bool \<Rightarrow> ('a, 'k) net_ops \<Rightarrow> ('b, 'k, 's, 'w) conn_jobs \<Rightarrow> 'b tcp_connection \<Rightarrow>
   ('k, 's) event_loop \<Rightarrow> 'w \<Rightarrow>
   ('b tcp_connection \<times> ('k, 's) event_loop \<times> 'w) option" where
  "handle_write bo dbg no cj c el w = do {
     waiting \<leftarrow> tc_waiting c;
     sending \<leftarrow> tc_sending c;
     if bo_len bo waiting = 0 \<and> bo_len bo sending = 0 then Some (c, el, w)
     else write_data bo dbg no cj c el w
   }"

subsection \<open>Events and shutdown\<close>

definition handle_event ::
  "'b buf_ops \<Rightarrow> bool \<Rightarrow> ('a, 'k) net_ops \<Rightarrow> ('b, 'k, 's, 'w) conn_jobs \<Rightarrow> usize \<Rightarrow> 'b tcp_connection \<Rightarrow> ('k, 's) event_loop \<Rightarrow> 'w \<Rightarrow>
   ('b tcp_connection \<times> ('k, 's) event_loop \<times> 'w) option" where
  "handle_event bo dbg no cj event c el w = do {
     let ready = ready_from_usize event;
     (c, el, w) \<leftarrow>
       (if ready_is_readable ready then handle_read bo dbg no cj (c\<lparr>tc_read_triggered := True\<rparr>) el w
        else Some (c, el, w));
     (c, el, w) \<leftarrow>
       (if ready_is_writable ready then handle_write bo dbg no cj (c\<lparr>tc_write_triggered := True\<rparr>) el w
        else Some (c, el, w));
     if ready_is_error ready \<or> ready_is_hup ready
     then handle_close dbg no cj (c\<lparr>tc_read_triggered := True, tc_write_triggered := True\<rparr>) el w
     else Some (c, el, w)
   }"

definition conn_shutdown ::
  "('a, 'k) net_ops \<Rightarrow> shutdown \<Rightarrow> 'b tcp_connection \<Rightarrow> ('k, 's) event_loop \<Rightarrow>
   unit io_result \<times> 'b tcp_connection \<times> ('k, 's) event_loop" where
  "conn_shutdown no how c el =
     (let c = (if how = Shut_Read then c\<lparr>tc_read_enabled := False\<rparr>
               else if how = Shut_Write then c\<lparr>tc_write_enabled := False\<rparr>
               else set_enabled False c);
          (r, k) = stream_shutdown no (tc_stream c) how (el_kernel el)
      in (r, c, el_set_kernel k el))"

end
