(* ===== verification/Acceptor.thy ===== *)
theory Acceptor
  imports Connection
begin

text \<open>
  The accepting and connecting ends: \<^verbatim>\<open>src/net/acceptor.rs\<close> and the methods of
  \<^verbatim>\<open>src/net/connector.rs\<close> that run with the connector locked. Closures are numbers again, and
  \<open>NullJob\<close> the one an object starts with.
\<close>

section \<open>Acceptor\<close>

record acceptor =
  ac_listener :: tcp_listener
  ac_is_listening :: bool
  ac_job :: job

text \<open>\<open>parse\<close> reads an address; both it and the listener are unwrapped.\<close>

definition acceptor_new ::
  "('a, 'k) net_ops \<Rightarrow> (string \<Rightarrow> 'a socket_addr option) \<Rightarrow> string \<Rightarrow> 'k \<Rightarrow> (acceptor \<times> 'k) option" where
  "acceptor_new no parse addr k = do {
     a \<leftarrow> parse addr;
     (l, k) \<leftarrow> listener_new no a k;
     Some (\<lparr>ac_listener = l, ac_is_listening = False, ac_job = NullJob\<rparr>, k)
   }"

definition set_accept_job :: "job \<Rightarrow> acceptor \<Rightarrow> acceptor" where
  "set_accept_job job ac = ac\<lparr>ac_job := job\<rparr>"

text \<open>The first job drops the stream, which closes it.\<close>

definition run_accept_job ::
  "('a, 'k) net_ops \<Rightarrow> (nat \<Rightarrow> tcp_stream \<Rightarrow> 'a socket_addr \<Rightarrow> ('k, 's, 'w, unit) user_job) \<Rightarrow> job \<Rightarrow>
   tcp_stream \<Rightarrow> 'a socket_addr \<Rightarrow> ('k, 's, 'w, unit) user_job" where
  "run_accept_job no aj job stream addr el w =
     (case job of
        NullJob \<Rightarrow> Some ((), el_set_kernel (no_close no (ts_sys stream) (el_kernel el)) el, w)
      | UserJob n \<Rightarrow> aj n stream addr el w)"

partial_function (option) acceptor_handle_read ::
  "('a, 'k) net_ops \<Rightarrow> (nat \<Rightarrow> tcp_stream \<Rightarrow> 'a socket_addr \<Rightarrow> ('k, 's, 'w, unit) user_job) \<Rightarrow> acceptor \<Rightarrow>
   ('k, 's) event_loop \<Rightarrow> 'w \<Rightarrow> (('k, 's) event_loop \<times> 'w) option" where
  "acceptor_handle_read no aj ac el w =
     (let (r, k) = listener_accept no (ac_listener ac) (el_kernel el);
          el = el_set_kernel k el
      in case r of
           Inr (stream, addr) \<Rightarrow>
             Option.bind (run_accept_job no aj (ac_job ac) stream addr el w)
               (\<lambda>(_, el, w). acceptor_handle_read no aj ac el w)
         | Inl e \<Rightarrow>
             if err_kind e = Interrupted then acceptor_handle_read no aj ac el w
             else if err_kind e = WouldBlock then Some (el, w)
             else Some (el, w))"

declare acceptor_handle_read.simps [code]

definition acceptor_bind ::
  "('a, 'k) net_ops \<Rightarrow> job \<Rightarrow> acceptor \<Rightarrow> ('k, 's) event_loop \<Rightarrow> (acceptor \<times> ('k, 's) event_loop) option" where
  "acceptor_bind no job ac el = do {
     (r, l, el) \<leftarrow> el_register
       (listener_register (no_ctl no) \<lparr>te_ttype = AcceptEvent, te_token = Token 0\<rparr> ready_readable
         opt_edge job) (ac_listener ac) el;
     (case r of
        Inl _ \<Rightarrow> None
      | Inr _ \<Rightarrow> Some (ac\<lparr>ac_listener := l, ac_is_listening := True\<rparr>, el))
   }"

section \<open>Connector\<close>

record connector =
  cn_timer :: "timeout option"
  cn_stream :: "tcp_stream option"
  cn_job :: job

definition connector_new :: connector where
  "connector_new = \<lparr>cn_timer = None, cn_stream = None, cn_job = NullJob\<rparr>"

definition set_conn_job :: "job \<Rightarrow> connector \<Rightarrow> connector" where
  "set_conn_job job cn = cn\<lparr>cn_job := job\<rparr>"

definition run_conn_job ::
  "('a, 'k) net_ops \<Rightarrow> (nat \<Rightarrow> tcp_stream \<Rightarrow> ('k, 's, 'w, bool) user_job) \<Rightarrow> job \<Rightarrow> tcp_stream \<Rightarrow>
   ('k, 's, 'w, bool) user_job" where
  "run_conn_job no nj job stream el w =
     (case job of
        NullJob \<Rightarrow> Some (True, el_set_kernel (no_close no (ts_sys stream) (el_kernel el)) el, w)
      | UserJob n \<Rightarrow> nj n stream el w)"

text \<open>Without a stream the assertion fails.\<close>

definition handle_on_connect ::
  "('a, 'k) net_ops \<Rightarrow> (nat \<Rightarrow> tcp_stream \<Rightarrow> ('k, 's, 'w, bool) user_job) \<Rightarrow> connector \<Rightarrow>
   ('k, 's) event_loop \<Rightarrow> 'w \<Rightarrow> (connector \<times> ('k, 's) event_loop \<times> 'w) option" where
  "handle_on_connect no nj cn el w =
     (case cn_stream cn of
        None \<Rightarrow> None
      | Some stream \<Rightarrow> do {
          let cn = cn\<lparr>cn_stream := None\<rparr>;
          (_, el, w) \<leftarrow> run_conn_job no nj (cn_job cn) stream el w;
          Some (cn, el, w)
        })"

text \<open>
  \<open>current\<close> is the thread's current loop, which is the one the event came from if it has
  been set; \<open>dbg\<close> says whether the log line, which unwraps the stream, is evaluated.
\<close>

definition connector_handle_event ::
  "('s, 'a entry) slab_ops \<Rightarrow> bool \<Rightarrow> ('b, 'k) net_ops \<Rightarrow>
   (nat \<Rightarrow> tcp_stream \<Rightarrow> ('k, 's, 'w, bool) user_job) \<Rightarrow> ptr option \<Rightarrow> usize \<Rightarrow> connector \<Rightarrow>
   ('k, 's) event_loop \<Rightarrow> 'w \<Rightarrow> (connector \<times> ('k, 's) event_loop \<times> 'w) option" where
  "connector_handle_event sl dbg no nj current event cn el w = do {
     let ready = ready_from_usize event;
     _ \<leftarrow> (if dbg then map_option (\<lambda>_. ()) (cn_stream cn) else Some ());
     el \<leftarrow> (case cn_timer cn of
         None \<Rightarrow> Some el
       | Some timer \<Rightarrow> do {
           _ \<leftarrow> get_current_loop current;
           (_, el) \<leftarrow> el_clear_timeout sl timer el;
           Some el
         });
     if ready_is_writable ready then handle_on_connect no nj cn el w else Some (cn, el, w)
   }"

definition connector_handle_close ::
  "bool \<Rightarrow> ('a, 'k) net_ops \<Rightarrow> connector \<Rightarrow> ('k, 's) event_loop \<Rightarrow>
   (connector \<times> ('k, 's) event_loop) option" where
  "connector_handle_close dbg no cn el =
     (case cn_stream cn of
        None \<Rightarrow> Some (cn, el)
      | Some stream \<Rightarrow> do {
          (r, stream, el) \<leftarrow> el_deregister (stream_deregister dbg (no_ctl no)) stream el;
          (case r of Inl _ \<Rightarrow> None | Inr _ \<Rightarrow> Some (cn\<lparr>cn_stream := Some stream\<rparr>, el))
        })"

end
