(* ===== verification/Net_World.thy ===== *)
theory Net_World
  imports Acceptor
begin

text \<open>
  The objects that closures share. An \<^verbatim>\<open>Arc<Mutex<T>>\<close> is an address in a store of mutexes, one
  store for each type \<^verbatim>\<open>T\<close>; a closure of the library is a number, and the table of closures
  says which it is and what it has captured. Allocation counts up. An object that nothing
  refers to any more stays in its store; the sockets that are closed by a drop are closed
  explicitly.
\<close>

section \<open>Mutexes\<close>

record 'x mutex =
  mx_held :: bool
  mx_value :: 'x

definition mutex_new :: "'x \<Rightarrow> 'x mutex" where
  "mutex_new x = \<lparr>mx_held = False, mx_value = x\<rparr>"

text \<open>
  \<open>f\<close> run between \<^verbatim>\<open>lock().unwrap()\<close> and the drop of the guard, on the store that \<open>get\<close> reads and
  \<open>put\<close> writes. All runs on the loop's thread, so that waiting for a mutex that is held is a
  deadlock: \<open>None\<close>.
\<close>

definition with_lock ::
  "('w \<Rightarrow> ptr \<rightharpoonup> 'x mutex) \<Rightarrow> ((ptr \<rightharpoonup> 'x mutex) \<Rightarrow> 'w \<Rightarrow> 'w) \<Rightarrow> ptr \<Rightarrow>
   ('x \<Rightarrow> 'e \<Rightarrow> 'w \<Rightarrow> ('r \<times> 'x \<times> 'e \<times> 'w) option) \<Rightarrow> 'e \<Rightarrow> 'w \<Rightarrow> ('r \<times> 'e \<times> 'w) option" where
  "with_lock get put p f e w =
     (case get w p of
        None \<Rightarrow> None
      | Some m \<Rightarrow>
          if mx_held m then None
          else do {
            (r, x, e, w) \<leftarrow> f (mx_value m) e (put ((get w)(p \<mapsto> m\<lparr>mx_held := True\<rparr>)) w);
            Some (r, e, put ((get w)(p \<mapsto> mutex_new x)) w)
          })"

lemma mutex_new_reads [simp]: "mx_held (mutex_new x) = False" "mx_value (mutex_new x) = x"
  by (simp_all add: mutex_new_def)

text \<open>
  A store is a field of the world: reading and writing it obey the laws of a field.
\<close>

locale mutex_store =
  fixes get :: "'w \<Rightarrow> ptr \<rightharpoonup> 'x mutex" and put :: "(ptr \<rightharpoonup> 'x mutex) \<Rightarrow> 'w \<Rightarrow> 'w"
  assumes get_put: "get (put m w) = m"
    and put_put: "put m (put m' w) = put m w"
    and put_get: "put (get w) w = w"
begin

lemma lock_run:
  assumes "get w p = Some (mutex_new x)"
    "f x e (put ((get w)(p \<mapsto> \<lparr>mx_held = True, mx_value = x\<rparr>)) w) = Some (r, x', e', w')"
  shows "with_lock get put p f e w = Some (r, e', put ((get w')(p \<mapsto> mutex_new x')) w')"
  using assms by (simp add: with_lock_def mutex_new_def)

text \<open>Locking again what is held is a deadlock.\<close>

lemma lock_twice:
  "with_lock get put p (\<lambda>x e w. Option.bind (with_lock get put p g e w) (h x)) e w = None"
  by (auto simp: with_lock_def get_put split: option.splits)

end

section \<open>The world\<close>

text \<open>
  \<open>'b\<close> are buffers, \<open>'h\<close> the sessions of a server's \<^verbatim>\<open>Handler\<close>, \<open>'g\<close> the handlers of clients and \<open>'u\<close>
  what else user code has. A number that is not in the table is a closure of the user.
\<close>

record tcp_server =
  sv_acceptor :: ptr
  sv_session_alloc :: bool

record tcp_client =
  cl_connector :: ptr

datatype closure =
    Accept_Event ptr
  | Accept_Stream ptr
  | Conn_Event ptr
  | Session_Recv ptr | Session_Written ptr | Session_Error ptr
  | Connector_Event ptr
  | Connect_Timeout ptr
  | Client_Stream ptr
  | Client_Recv ptr | Client_Written ptr | Client_Error ptr

record ('b, 'h, 'g, 'u) world =
  w_next :: nat
  w_closures :: "nat \<rightharpoonup> closure"
  w_conns :: "ptr \<rightharpoonup> 'b tcp_connection mutex"
  w_sessions :: "ptr \<rightharpoonup> 'h mutex"
  w_acceptors :: "ptr \<rightharpoonup> acceptor mutex"
  w_servers :: "ptr \<rightharpoonup> tcp_server mutex"
  w_connectors :: "ptr \<rightharpoonup> connector mutex"
  w_clients :: "ptr \<rightharpoonup> 'g mutex"
  w_socket_token :: usize
  w_user :: 'u

definition closure_new :: "closure \<Rightarrow> ('b, 'h, 'g, 'u) world \<Rightarrow> job \<times> ('b, 'h, 'g, 'u) world" where
  "closure_new c w = (UserJob (w_next w),
     w\<lparr>w_closures := (w_closures w)(w_next w \<mapsto> c), w_next := Suc (w_next w)\<rparr>)"

definition lock_conn where
  "lock_conn = with_lock w_conns (\<lambda>m w. w\<lparr>w_conns := m\<rparr>)"

definition lock_session where
  "lock_session = with_lock w_sessions (\<lambda>m w. w\<lparr>w_sessions := m\<rparr>)"

definition lock_acceptor where
  "lock_acceptor = with_lock w_acceptors (\<lambda>m w. w\<lparr>w_acceptors := m\<rparr>)"

definition lock_server where
  "lock_server = with_lock w_servers (\<lambda>m w. w\<lparr>w_servers := m\<rparr>)"

definition lock_connector where
  "lock_connector = with_lock w_connectors (\<lambda>m w. w\<lparr>w_connectors := m\<rparr>)"

definition lock_client where
  "lock_client = with_lock w_clients (\<lambda>m w. w\<lparr>w_clients := m\<rparr>)"

interpretation conns: mutex_store w_conns "\<lambda>m w. w\<lparr>w_conns := m\<rparr>"
  by unfold_locales simp_all

interpretation sessions: mutex_store w_sessions "\<lambda>m w. w\<lparr>w_sessions := m\<rparr>"
  by unfold_locales simp_all

interpretation acceptors: mutex_store w_acceptors "\<lambda>m w. w\<lparr>w_acceptors := m\<rparr>"
  by unfold_locales simp_all

interpretation servers: mutex_store w_servers "\<lambda>m w. w\<lparr>w_servers := m\<rparr>"
  by unfold_locales simp_all

interpretation connectors: mutex_store w_connectors "\<lambda>m w. w\<lparr>w_connectors := m\<rparr>"
  by unfold_locales simp_all

interpretation clients: mutex_store w_clients "\<lambda>m w. w\<lparr>w_clients := m\<rparr>"
  by unfold_locales simp_all

lemmas lock_defs = lock_conn_def lock_session_def lock_acceptor_def lock_server_def
  lock_connector_def lock_client_def

section \<open>User code\<close>

text \<open>
  A method gets its object, locked, and may change it, the loop and the world; \<open>None\<close> is a
  panic, a deadlock or no return. The first group is the server's \<^verbatim>\<open>Handler\<close>, the second a
  \<^verbatim>\<open>ClientHandler\<close>, the third are the closures that are not the library's, by number.
\<close>

type_synonym ('w, 'k, 's, 'x, 'r) method_call =
  "'x \<Rightarrow> ('k, 's) event_loop \<Rightarrow> 'w \<Rightarrow> ('r \<times> 'x \<times> ('k, 's) event_loop \<times> 'w) option"

record ('a, 'b, 'h, 'g, 'k, 's, 'w) program =
  pg_session_new :: "('k, 's, 'w, 'h) user_job"
  pg_session_attach :: "ptr \<Rightarrow> ('w, 'k, 's, 'h, unit) method_call"
  pg_session_accept :: "('w, 'k, 's, 'h, unit) method_call"
  pg_session_recv :: "'b \<Rightarrow> ('w, 'k, 's, 'h, 'b) method_call"
  pg_session_written :: "('w, 'k, 's, 'h, bool) method_call"
  pg_session_error :: "('w, 'k, 's, 'h, unit) method_call"
  pg_client_attach :: "ptr \<Rightarrow> ('w, 'k, 's, 'g, unit) method_call"
  pg_client_connect :: "ptr \<Rightarrow> ('w, 'k, 's, 'g, unit) method_call"
  pg_client_recv :: "'b \<Rightarrow> ('w, 'k, 's, 'g, 'b) method_call"
  pg_client_written :: "('w, 'k, 's, 'g, bool) method_call"
  pg_client_error :: "('w, 'k, 's, 'g, unit) method_call"
  pg_read :: "nat \<Rightarrow> 'b \<Rightarrow> ('k, 's, 'w, 'b) user_job"
  pg_writ :: "nat \<Rightarrow> ('k, 's, 'w, bool) user_job"
  pg_close :: "nat \<Rightarrow> ('k, 's, 'w, unit) user_job"
  pg_accept :: "nat \<Rightarrow> tcp_stream \<Rightarrow> 'a socket_addr \<Rightarrow> ('k, 's, 'w, unit) user_job"
  pg_conn :: "nat \<Rightarrow> tcp_stream \<Rightarrow> ('k, 's, 'w, bool) user_job"
  pg_job :: "nat \<Rightarrow> usize \<Rightarrow> ('k, 's, 'w, unit) user_job"
  pg_timer :: "nat \<Rightarrow> ('k, 's, 'w, unit) user_job"

text \<open>The jobs of the connections: the closures that server and client set call the handler.\<close>

definition world_conn_jobs ::
  "('a, 'b, 'h, 'g, 'k, 's, ('b, 'h, 'g, 'u) world) program \<Rightarrow>
   ('b, 'k, 's, ('b, 'h, 'g, 'u) world) conn_jobs" where
  "world_conn_jobs pg = \<lparr>
     cj_read = (\<lambda>n buf el w. case w_closures w n of
        Some (Session_Recv s) \<Rightarrow> lock_session s (pg_session_recv pg buf) el w
      | Some (Client_Recv g) \<Rightarrow> lock_client g (pg_client_recv pg buf) el w
      | Some _ \<Rightarrow> None
      | None \<Rightarrow> pg_read pg n buf el w),
     cj_writ = (\<lambda>n el w. case w_closures w n of
        Some (Session_Written s) \<Rightarrow> lock_session s (pg_session_written pg) el w
      | Some (Client_Written g) \<Rightarrow> lock_client g (pg_client_written pg) el w
      | Some _ \<Rightarrow> None
      | None \<Rightarrow> pg_writ pg n el w),
     cj_close = (\<lambda>n el w. case w_closures w n of
        Some (Session_Error s) \<Rightarrow> lock_session s (pg_session_error pg) el w
      | Some (Client_Error g) \<Rightarrow> lock_client g (pg_client_error pg) el w
      | Some _ \<Rightarrow> None
      | None \<Rightarrow> pg_close pg n el w)\<rparr>"

subsection \<open>Allocation\<close>

definition conn_alloc :: "'b tcp_connection \<Rightarrow> ('b, 'h, 'g, 'u) world \<Rightarrow> ptr \<times> ('b, 'h, 'g, 'u) world" where
  "conn_alloc c w = (w_next w,
     w\<lparr>w_conns := (w_conns w)(w_next w \<mapsto> mutex_new c), w_next := Suc (w_next w)\<rparr>)"

definition session_share :: "'h \<Rightarrow> ('b, 'h, 'g, 'u) world \<Rightarrow> ptr \<times> ('b, 'h, 'g, 'u) world" where
  "session_share h w = (w_next w,
     w\<lparr>w_sessions := (w_sessions w)(w_next w \<mapsto> mutex_new h), w_next := Suc (w_next w)\<rparr>)"

definition acceptor_share :: "acceptor \<Rightarrow> ('b, 'h, 'g, 'u) world \<Rightarrow> ptr \<times> ('b, 'h, 'g, 'u) world" where
  "acceptor_share a w = (w_next w,
     w\<lparr>w_acceptors := (w_acceptors w)(w_next w \<mapsto> mutex_new a), w_next := Suc (w_next w)\<rparr>)"

definition server_share :: "tcp_server \<Rightarrow> ('b, 'h, 'g, 'u) world \<Rightarrow> ptr \<times> ('b, 'h, 'g, 'u) world" where
  "server_share sv w = (w_next w,
     w\<lparr>w_servers := (w_servers w)(w_next w \<mapsto> mutex_new sv), w_next := Suc (w_next w)\<rparr>)"

definition connector_share :: "connector \<Rightarrow> ('b, 'h, 'g, 'u) world \<Rightarrow> ptr \<times> ('b, 'h, 'g, 'u) world" where
  "connector_share cn w = (w_next w,
     w\<lparr>w_connectors := (w_connectors w)(w_next w \<mapsto> mutex_new cn), w_next := Suc (w_next w)\<rparr>)"

text \<open>A change of a connection under its lock.\<close>

definition conn_modify ::
  "ptr \<Rightarrow> ('b tcp_connection \<Rightarrow> 'b tcp_connection) \<Rightarrow> ('b, 'h, 'g, 'u) world \<Rightarrow>
   ('b, 'h, 'g, 'u) world option" where
  "conn_modify p f w = map_option (\<lambda>(_, _, w). w) (lock_conn p (\<lambda>c e w. Some ((), f c, e, w)) () w)"

end
