(* ===== verification/Tcp_Server.thy ===== *)
theory Tcp_Server
  imports Net_World
begin

text \<open>
  The server of \<^verbatim>\<open>src/net/tcp_server.rs\<close>: for every stream its acceptor takes it makes a
  connection and a session of the user's \<^verbatim>\<open>Handler\<close>, joins the two by closures, and registers
  the connection with the loop.
\<close>

definition server_new ::
  "('a, 'k) net_ops \<Rightarrow> (string \<Rightarrow> 'a socket_addr option) \<Rightarrow> string \<Rightarrow> ('k, 's) event_loop \<Rightarrow>
   ('b, 'h, 'g, 'u) world \<Rightarrow> (tcp_server \<times> ('k, 's) event_loop \<times> ('b, 'h, 'g, 'u) world) option" where
  "server_new no parse addr el w = do {
     (ac, k) \<leftarrow> acceptor_new no parse addr (el_kernel el);
     let (a, w) = acceptor_share ac w;
     Some (\<lparr>sv_acceptor = a, sv_session_alloc = False\<rparr>, el_set_kernel k el, w)
   }"

text \<open>The allocator is the \<^verbatim>\<open>new\<close> of the one handler type a program gives \<^verbatim>\<open>start\<close>.\<close>

definition server_start :: "tcp_server \<Rightarrow> tcp_server" where
  "server_start sv = sv\<lparr>sv_session_alloc := True\<rparr>"

text \<open>The registration of a connection, with its mutex locked; the result is unwrapped.\<close>

definition conn_register ::
  "('a, 'k) net_ops \<Rightarrow> ptr \<Rightarrow> token \<Rightarrow> job \<Rightarrow> ('k, 's) event_loop \<Rightarrow> ('b, 'h, 'g, 'u) world \<Rightarrow>
   (unit \<times> ('k, 's) event_loop \<times> ('b, 'h, 'g, 'u) world) option" where
  "conn_register no conn token job el w = lock_conn conn (\<lambda>c el w. do {
     (r, s, el) \<leftarrow> el_register
       (stream_register (no_ctl no) \<lparr>te_ttype = SocketEvent, te_token = token\<rparr>
         (ready_bitor ready_readable ready_writable) opt_edge job) (tc_stream c) el;
     (case r of Inl _ \<Rightarrow> None | Inr _ \<Rightarrow> Some ((), c\<lparr>tc_stream := s\<rparr>, el, w))
   }) el w"

definition on_accept_connection ::
  "'b buf_ops \<Rightarrow> ('a, 'k) net_ops \<Rightarrow> ('a, 'b, 'h, 'g, 'k, 's, ('b, 'h, 'g, 'u) world) program \<Rightarrow>
   tcp_stream \<Rightarrow> 'a socket_addr \<Rightarrow> (('b, 'h, 'g, 'u) world, 'k, 's, tcp_server, unit) method_call" where
  "on_accept_connection bo no pg stream addr sv el w = do {
     let (conn, w) = conn_alloc (conn_new bo stream) w;
     _ \<leftarrow> (if sv_session_alloc sv then Some () else None);
     (h, el, w) \<leftarrow> pg_session_new pg el w;
     let (session, w) = session_share h w;
     (_, el, w) \<leftarrow> lock_session session (pg_session_attach pg conn) el w;
     (_, el, w) \<leftarrow> lock_session session (pg_session_accept pg) el w;
     let (job, w) = closure_new (Session_Recv session) w;
     w \<leftarrow> conn_modify conn (set_read_job job) w;
     let (job, w) = closure_new (Session_Written session) w;
     w \<leftarrow> conn_modify conn (set_writ_job job) w;
     let (job, w) = closure_new (Session_Error session) w;
     w \<leftarrow> conn_modify conn (set_close_job job) w;
     let (job, w) = closure_new (Conn_Event conn) w;
     let id = w_socket_token w;
     token \<leftarrow> checked_add id 1;
     let w = w\<lparr>w_socket_token := id + 1\<rparr>;
     (_, el, w) \<leftarrow> conn_register no conn (Token token) job el w;
     Some ((), sv, el, w)
   }"

text \<open>The accept jobs: the closure the server sets locks the server and takes the stream.\<close>

definition world_accept_jobs ::
  "'b buf_ops \<Rightarrow> ('a, 'k) net_ops \<Rightarrow> ('a, 'b, 'h, 'g, 'k, 's, ('b, 'h, 'g, 'u) world) program \<Rightarrow>
   nat \<Rightarrow> tcp_stream \<Rightarrow> 'a socket_addr \<Rightarrow> ('k, 's, ('b, 'h, 'g, 'u) world, unit) user_job" where
  "world_accept_jobs bo no pg n stream addr el w =
     (case w_closures w n of
        Some (Accept_Stream sv) \<Rightarrow> lock_server sv (on_accept_connection bo no pg stream addr) el w
      | Some _ \<Rightarrow> None
      | None \<Rightarrow> pg_accept pg n stream addr el w)"

text \<open>The closure of the listening socket locks the acceptor and reads it.\<close>

definition accept_event ::
  "'b buf_ops \<Rightarrow> ('a, 'k) net_ops \<Rightarrow> ('a, 'b, 'h, 'g, 'k, 's, ('b, 'h, 'g, 'u) world) program \<Rightarrow> ptr \<Rightarrow>
   ('k, 's, ('b, 'h, 'g, 'u) world, unit) user_job" where
  "accept_event bo no pg a el w = lock_acceptor a (\<lambda>ac el w. do {
     (el, w) \<leftarrow> acceptor_handle_read no (world_accept_jobs bo no pg) ac el w;
     Some ((), ac, el, w)
   }) el w"

text \<open>The closure of a connection locks it and hands it the event.\<close>

definition conn_event ::
  "'b buf_ops \<Rightarrow> bool \<Rightarrow> ('a, 'k) net_ops \<Rightarrow>
   ('a, 'b, 'h, 'g, 'k, 's, ('b, 'h, 'g, 'u) world) program \<Rightarrow> ptr \<Rightarrow> usize \<Rightarrow>
   ('k, 's, ('b, 'h, 'g, 'u) world, unit) user_job" where
  "conn_event bo dbg no pg conn event el w = lock_conn conn (\<lambda>c el w. do {
     (c, el, w) \<leftarrow> handle_event bo dbg no (world_conn_jobs pg) event c el w;
     Some ((), c, el, w)
   }) el w"

definition start_internal ::
  "('a, 'k) net_ops \<Rightarrow> ptr \<Rightarrow> ('k, 's) event_loop \<Rightarrow> ('b, 'h, 'g, 'u) world \<Rightarrow>
   (('k, 's) event_loop \<times> ('b, 'h, 'g, 'u) world) option" where
  "start_internal no this el w = do {
     (acceptor, el, w) \<leftarrow> lock_server this (\<lambda>sv el w. Some (sv_acceptor sv, sv, el, w)) el w;
     (_, el, w) \<leftarrow> lock_server this (\<lambda>sv el w. do {
         (_, el, w) \<leftarrow> lock_acceptor (sv_acceptor sv) (\<lambda>ac el w. do {
             let (job, w) = closure_new (Accept_Event acceptor) w;
             (ac, el) \<leftarrow> acceptor_bind no job ac el;
             Some ((), ac, el, w)
           }) el w;
         Some ((), sv, el, w)
       }) el w;
     let (job, w) = closure_new (Accept_Stream this) w;
     (_, el, w) \<leftarrow> lock_server this (\<lambda>sv el w. do {
         (_, el, w) \<leftarrow> lock_acceptor (sv_acceptor sv)
           (\<lambda>ac el w. Some ((), set_accept_job job ac, el, w)) el w;
         Some ((), sv, el, w)
       }) el w;
     Some (el, w)
   }"

end
