(* ===== verification/Tcp_Client.thy ===== *)
theory Tcp_Client
  imports Tcp_Server
begin

text \<open>
  Connecting: \<^verbatim>\<open>Connector::connect\<close> of \<^verbatim>\<open>src/net/connector.rs\<close> and the client of
  \<^verbatim>\<open>src/net/tcp_server.rs\<close>, and what the loop does with the number of a closure.
\<close>

section \<open>Connecting\<close>

definition duration_from_millis :: "u64 \<Rightarrow> duration" where
  "duration_from_millis ms = \<lparr>dur_secs = ms div 1000, dur_nanos = ucast (ms mod 1000) * 1000000\<rparr>"

text \<open>Storing the stream drops an older one, which closes it.\<close>

definition connector_store ::
  "('a, 'k) net_ops \<Rightarrow> tcp_stream \<Rightarrow> connector \<Rightarrow> ('k, 's) event_loop \<Rightarrow> connector \<times> ('k, 's) event_loop" where
  "connector_store no stream cn el =
     (cn\<lparr>cn_stream := Some stream\<rparr>,
      case cn_stream cn of
        None \<Rightarrow> el
      | Some old \<Rightarrow> el_set_kernel (no_close no (ts_sys old) (el_kernel el)) el)"

definition connector_register ::
  "('a, 'k) net_ops \<Rightarrow> job \<Rightarrow> connector \<Rightarrow> ('k, 's) event_loop \<Rightarrow> (connector \<times> ('k, 's) event_loop) option" where
  "connector_register no job cn el = do {
     stream \<leftarrow> cn_stream cn;
     (r, stream, el) \<leftarrow> el_register
       (stream_register (no_ctl no) \<lparr>te_ttype = SocketEvent, te_token = Token 9999999\<rparr>
         (ready_bitor ready_writable ready_readable) (opt_bitor opt_edge opt_oneshot) job) stream el;
     (case r of Inl _ \<Rightarrow> None | Inr _ \<Rightarrow> Some (cn\<lparr>cn_stream := Some stream\<rparr>, el))
   }"

definition connector_connect ::
  "('s, job entry) slab_ops \<Rightarrow> ('a, 'k) net_ops \<Rightarrow> (string \<Rightarrow> 'a socket_addr option) \<Rightarrow> duration \<Rightarrow> ptr \<Rightarrow>
   string \<Rightarrow> usize \<Rightarrow> ('k, 's) event_loop \<Rightarrow> ('b, 'h, 'g, 'u) world \<Rightarrow>
   (('k, 's) event_loop \<times> ('b, 'h, 'g, 'u) world) option" where
  "connector_connect sl no parse elapsed this addr timeout_ms el w = do {
     a \<leftarrow> parse addr;
     (case tcp_connect no a (el_kernel el) of
        (Inl _, _) \<Rightarrow> None
      | (Inr stream, k) \<Rightarrow> do {
          let el = el_set_kernel k el;
          (_, el, w) \<leftarrow> lock_connector this (\<lambda>cn el w.
            let (cn, el) = connector_store no stream cn el in Some ((), cn, el, w)) el w;
          let (job, w) = closure_new (Connector_Event this) w;
          (el, w) \<leftarrow> (if timeout_ms \<noteq> u64_max then do {
              let (timer_job, w) = closure_new (Connect_Timeout this) w;
              (timer, el) \<leftarrow> el_timeout sl elapsed (duration_from_millis timeout_ms) timer_job el;
              (_, el, w) \<leftarrow> lock_connector this
                (\<lambda>cn el w. Some ((), cn\<lparr>cn_timer := Some timer\<rparr>, el, w)) el w;
              Some (el, w)
            }
            else Some (el, w));
          (_, el, w) \<leftarrow> lock_connector this (\<lambda>cn el w. do {
              (cn, el) \<leftarrow> connector_register no job cn el;
              Some ((), cn, el, w)
            }) el w;
          Some (el, w)
        })
   }"

text \<open>The job of the connect timeout: it clears itself and deregisters the stream.\<close>

definition connect_timeout ::
  "('s, job entry) slab_ops \<Rightarrow> bool \<Rightarrow> ('a, 'k) net_ops \<Rightarrow> ptr \<Rightarrow> ('k, 's, ('b, 'h, 'g, 'u) world, unit) user_job" where
  "connect_timeout sl dbg no this el w = do {
     (_, el, w) \<leftarrow> lock_connector this (\<lambda>cn el w. do {
         timer \<leftarrow> cn_timer cn;
         (_, el) \<leftarrow> el_clear_timeout sl timer el;
         Some ((), cn, el, w)
       }) el w;
     lock_connector this (\<lambda>cn el w. do {
         stream \<leftarrow> cn_stream cn;
         (r, stream, el) \<leftarrow> el_deregister (stream_deregister dbg (no_ctl no)) stream el;
         (case r of Inl _ \<Rightarrow> None | Inr _ \<Rightarrow> Some ((), cn\<lparr>cn_stream := Some stream\<rparr>, el, w))
       }) el w
   }"

section \<open>Client\<close>

definition client_new :: "('b, 'h, 'g, 'u) world \<Rightarrow> tcp_client \<times> ('b, 'h, 'g, 'u) world" where
  "client_new w = (let (cn, w) = connector_share connector_new w in (\<lparr>cl_connector = cn\<rparr>, w))"

text \<open>
  \<^verbatim>\<open>take_error\<close> and what follows from an error: \<^verbatim>\<open>on_error\<close> runs while the connection is locked.
  The answer says whether the stream is connected.
\<close>

definition client_check ::
  "('a, 'k) net_ops \<Rightarrow> ('a, 'b, 'h, 'g, 'k, 's, ('b, 'h, 'g, 'u) world) program \<Rightarrow> ptr \<Rightarrow>
   (('b, 'h, 'g, 'u) world, 'k, 's, 'b tcp_connection, bool) method_call" where
  "client_check no pg handler c el w =
     (let (r, k) = stream_take_error no (tc_stream c) (el_kernel el);
          el = el_set_kernel k el
      in case r of
           Inr (Some _) \<Rightarrow> do {
             (_, el, w) \<leftarrow> lock_client handler (pg_client_error pg) el w;
             Some (False, c, el, w)
           }
         | _ \<Rightarrow> Some (True, c, el, w))"

text \<open>The closure of \<^verbatim>\<open>start_connect\<close>. A connection that failed is dropped, which closes its stream.\<close>

definition client_stream ::
  "'b buf_ops \<Rightarrow> bool \<Rightarrow> ('a, 'k) net_ops \<Rightarrow>
   ('a, 'b, 'h, 'g, 'k, 's, ('b, 'h, 'g, 'u) world) program \<Rightarrow> ptr \<Rightarrow> tcp_stream \<Rightarrow>
   ('k, 's, ('b, 'h, 'g, 'u) world, bool) user_job" where
  "client_stream bo dbg no pg handler stream el w = do {
     let (conn, w) = conn_alloc (conn_new bo stream) w;
     (connected, el, w) \<leftarrow> lock_conn conn (client_check no pg handler) el w;
     if \<not> connected then Some (False, el_set_kernel (no_close no (ts_sys stream) (el_kernel el)) el, w)
     else do {
       (_, el, w) \<leftarrow> lock_client handler (pg_client_attach pg conn) el w;
       let (job, w) = closure_new (Client_Recv handler) w;
       w \<leftarrow> conn_modify conn (set_read_job job) w;
       let (job, w) = closure_new (Client_Written handler) w;
       w \<leftarrow> conn_modify conn (set_writ_job job) w;
       let (job, w) = closure_new (Client_Error handler) w;
       w \<leftarrow> conn_modify conn (set_close_job job) w;
       let (job, w) = closure_new (Conn_Event conn) w;
       (_, el, w) \<leftarrow> lock_conn conn (\<lambda>c el w. do {
           (c, el) \<leftarrow> close_stream dbg no c el;
           Some ((), c, el, w)
         }) el w;
       (fd, el, w) \<leftarrow> lock_conn conn (\<lambda>c el w. Some (ts_sys (tc_stream c), c, el, w)) el w;
       w \<leftarrow> conn_modify conn (set_enabled True) w;
       (_, el, w) \<leftarrow> conn_register no conn (Token (scast fd)) job el w;
       (_, el, w) \<leftarrow> lock_client handler (pg_client_connect pg conn) el w;
       Some (True, el, w)
     }
   }"

definition world_stream_jobs ::
  "'b buf_ops \<Rightarrow> bool \<Rightarrow> ('a, 'k) net_ops \<Rightarrow>
   ('a, 'b, 'h, 'g, 'k, 's, ('b, 'h, 'g, 'u) world) program \<Rightarrow> nat \<Rightarrow> tcp_stream \<Rightarrow>
   ('k, 's, ('b, 'h, 'g, 'u) world, bool) user_job" where
  "world_stream_jobs bo dbg no pg n stream el w =
     (case w_closures w n of
        Some (Client_Stream handler) \<Rightarrow> client_stream bo dbg no pg handler stream el w
      | Some _ \<Rightarrow> None
      | None \<Rightarrow> pg_conn pg n stream el w)"

definition connector_event ::
  "('s, job entry) slab_ops \<Rightarrow> 'b buf_ops \<Rightarrow> bool \<Rightarrow> ('a, 'k) net_ops \<Rightarrow>
   ('a, 'b, 'h, 'g, 'k, 's, ('b, 'h, 'g, 'u) world) program \<Rightarrow> ptr option \<Rightarrow> ptr \<Rightarrow> usize \<Rightarrow>
   ('k, 's, ('b, 'h, 'g, 'u) world, unit) user_job" where
  "connector_event sl bo dbg no pg current this event el w = lock_connector this (\<lambda>cn el w. do {
     (cn, el, w) \<leftarrow> connector_handle_event sl dbg no (world_stream_jobs bo dbg no pg) current event cn el w;
     Some ((), cn, el, w)
   }) el w"

text \<open>The timeout of the client is \<^verbatim>\<open>usize::MAX\<close>: none.\<close>

definition start_connect ::
  "('s, job entry) slab_ops \<Rightarrow> ('a, 'k) net_ops \<Rightarrow> (string \<Rightarrow> 'a socket_addr option) \<Rightarrow> duration \<Rightarrow>
   string \<Rightarrow> ptr \<Rightarrow> tcp_client \<Rightarrow> ('k, 's) event_loop \<Rightarrow> ('b, 'h, 'g, 'u) world \<Rightarrow>
   (('k, 's) event_loop \<times> ('b, 'h, 'g, 'u) world) option" where
  "start_connect sl no parse elapsed addr handler cl el w = do {
     let (job, w) = closure_new (Client_Stream handler) w;
     (_, el, w) \<leftarrow> lock_connector (cl_connector cl)
       (\<lambda>cn el w. Some ((), set_conn_job job cn, el, w)) el w;
     connector_connect sl no parse elapsed (cl_connector cl) addr u64_max el w
   }"

section \<open>Running a closure\<close>

text \<open>What the loop runs for the job of an event, and for a timer's job.\<close>

definition world_job ::
  "('s, job entry) slab_ops \<Rightarrow> 'b buf_ops \<Rightarrow> bool \<Rightarrow> ('a, 'k) net_ops \<Rightarrow>
   ('a, 'b, 'h, 'g, 'k, 's, ('b, 'h, 'g, 'u) world) program \<Rightarrow> ptr option \<Rightarrow> job \<Rightarrow> usize \<Rightarrow>
   ('k, 's) event_loop \<Rightarrow> ('b, 'h, 'g, 'u) world \<Rightarrow>
   (('k, 's) event_loop \<times> ('b, 'h, 'g, 'u) world) option" where
  "world_job sl bo dbg no pg current job event el w = (case job of
     NullJob \<Rightarrow> Some (el, w)
   | UserJob n \<Rightarrow> map_option snd (case w_closures w n of
       Some (Accept_Event a) \<Rightarrow> accept_event bo no pg a el w
     | Some (Conn_Event c) \<Rightarrow> conn_event bo dbg no pg c event el w
     | Some (Connector_Event cn) \<Rightarrow> connector_event sl bo dbg no pg current cn event el w
     | Some _ \<Rightarrow> None
     | None \<Rightarrow> pg_job pg n event el w))"

definition world_timer_job ::
  "('s, job entry) slab_ops \<Rightarrow> bool \<Rightarrow> ('a, 'k) net_ops \<Rightarrow>
   ('a, 'b, 'h, 'g, 'k, 's, ('b, 'h, 'g, 'u) world) program \<Rightarrow> job \<Rightarrow>
   ('k, 's) event_loop \<Rightarrow> ('b, 'h, 'g, 'u) world \<Rightarrow>
   (('k, 's) event_loop \<times> ('b, 'h, 'g, 'u) world) option" where
  "world_timer_job sl dbg no pg job el w = (case job of
     NullJob \<Rightarrow> Some (el, w)
   | UserJob n \<Rightarrow> map_option snd (case w_closures w n of
       Some (Connect_Timeout cn) \<Rightarrow> connect_timeout sl dbg no cn el w
     | Some _ \<Rightarrow> None
     | None \<Rightarrow> pg_timer pg n el w))"

end
