(* ===== verification/Tunnel.thy ===== *)
theory Tunnel
  imports Tcp_Client
begin

text \<open>
  The program \<^verbatim>\<open>examples/tunnel.rs\<close>: for every client that connects to it, it connects to a
  server and passes the bytes on, both ways. Here the user's part of the world gets its
  contents: the tunnels, and the closures that the handlers hand over to the loop.
\<close>

section \<open>The objects\<close>

record server_session =
  ss_client_conn :: "ptr option"
  ss_server_conn :: "ptr option"

record tunnel =
  tn_addr :: string
  tn_client :: tcp_client
  tn_server_session :: "ptr option"
  tn_client_conn :: "ptr option"

record tunnel_server =
  tu_client_conn :: "ptr option"
  tu_tunnel :: "ptr option"

datatype 'b tunnel_job =
    Flush_Pending ptr ptr
  | Send_Server ptr 'b
  | Shut_Client ptr
  | Shut_Server ptr

record 'b tunnels =
  tu_tunnels :: "ptr \<rightharpoonup> tunnel mutex"
  tu_jobs :: "nat \<rightharpoonup> 'b tunnel_job"

type_synonym 'b tunnel_world = "('b, tunnel_server, server_session, 'b tunnels) world"

text \<open>
  What the program runs in: the operations of the crates and of the kernel, the loop of
  the thread, the allocator of queue nodes, and which objects are still alive when a
  \<^verbatim>\<open>Weak\<close> is upgraded.
\<close>

record ('a, 'b, 'k, 's) tunnel_env =
  tv_slab :: "('s, job entry) slab_ops"
  tv_bufs :: "'b buf_ops"
  tv_debug :: bool
  tv_net :: "('a, 'k) net_ops"
  tv_parse :: "string \<Rightarrow> 'a socket_addr option"
  tv_elapsed :: duration
  tv_write :: "'k pipe_write"
  tv_alloc :: "('k, 's) event_loop \<Rightarrow> ptr"
  tv_current :: "ptr option"
  tv_conn_alive :: "'b tunnel_world \<Rightarrow> ptr \<Rightarrow> bool"
  tv_session_alive :: "'b tunnel_world \<Rightarrow> ptr \<Rightarrow> bool"

definition upgrade :: "('w \<Rightarrow> ptr \<Rightarrow> bool) \<Rightarrow> ptr option \<Rightarrow> 'w \<Rightarrow> ptr option" where
  "upgrade alive weak w = Option.bind weak (\<lambda>p. if alive w p then Some p else None)"

definition lock_tunnel where
  "lock_tunnel = with_lock (\<lambda>w. tu_tunnels (w_user w))
     (\<lambda>m w. w\<lparr>w_user := (w_user w)\<lparr>tu_tunnels := m\<rparr>\<rparr>)"

interpretation tunnel_mutexes: mutex_store "\<lambda>w. tu_tunnels (w_user w)"
    "\<lambda>m w. w\<lparr>w_user := (w_user w)\<lparr>tu_tunnels := m\<rparr>\<rparr>"
  by unfold_locales simp_all

definition tunnel_share :: "tunnel \<Rightarrow> 'b tunnel_world \<Rightarrow> ptr \<times> 'b tunnel_world" where
  "tunnel_share tn w = (w_next w, w\<lparr>w_next := Suc (w_next w),
     w_user := (w_user w)\<lparr>tu_tunnels := (tu_tunnels (w_user w))(w_next w \<mapsto> mutex_new tn)\<rparr>\<rparr>)"

definition server_session_share :: "server_session \<Rightarrow> 'b tunnel_world \<Rightarrow> ptr \<times> 'b tunnel_world" where
  "server_session_share s w = (w_next w,
     w\<lparr>w_next := Suc (w_next w), w_clients := (w_clients w)(w_next w \<mapsto> mutex_new s)\<rparr>)"

text \<open>A closure for the thread's own loop. The number is new in the library's table too.\<close>

definition tunnel_enqueue ::
  "('a, 'b, 'k, 's) tunnel_env \<Rightarrow> 'b tunnel_job \<Rightarrow> ('k, 's) event_loop \<Rightarrow> 'b tunnel_world \<Rightarrow>
   (('k, 's) event_loop \<times> 'b tunnel_world) option" where
  "tunnel_enqueue v j el w = do {
     _ \<leftarrow> get_current_loop (tv_current v);
     let n = w_next w;
     let w = w\<lparr>w_next := Suc n, w_user := (w_user w)\<lparr>tu_jobs := (tu_jobs (w_user w))(n \<mapsto> j)\<rparr>\<rparr>;
     el \<leftarrow> enqueue_job (tv_write v) (tv_alloc v el) (UserJob n) el;
     Some (el, w)
   }"

text \<open>Sending on a connection, with its mutex locked; the result is unwrapped.\<close>

definition tunnel_send ::
  "('a, 'b, 'k, 's) tunnel_env \<Rightarrow> ('b, 'k, 's, 'b tunnel_world) conn_jobs \<Rightarrow> 'b \<Rightarrow>
   ('b tunnel_world, 'k, 's, 'b tcp_connection, unit) method_call" where
  "tunnel_send v cj bytes c el w = do {
     (r, c, el, w) \<leftarrow> conn_send (tv_bufs v) (tv_debug v) (tv_net v) cj bytes c el w;
     (case r of Inl _ \<Rightarrow> None | Inr _ \<Rightarrow> Some ((), c, el, w))
   }"

section \<open>The session with the server\<close>

definition server_session_new :: "ptr \<Rightarrow> server_session" where
  "server_session_new conn = \<lparr>ss_client_conn = Some conn, ss_server_conn = None\<rparr>"

definition ss_get_client_conn ::
  "('a, 'b, 'k, 's) tunnel_env \<Rightarrow> server_session \<Rightarrow> 'b tunnel_world \<Rightarrow> ptr option" where
  "ss_get_client_conn v s w = upgrade (tv_conn_alive v) (ss_client_conn s) w"

definition ss_get_server_conn ::
  "('a, 'b, 'k, 's) tunnel_env \<Rightarrow> server_session \<Rightarrow> 'b tunnel_world \<Rightarrow> ptr option" where
  "ss_get_server_conn v s w = upgrade (tv_conn_alive v) (ss_server_conn s) w"

definition ss_attach_connection ::
  "ptr \<Rightarrow> ('b tunnel_world, 'k, 's, server_session, unit) method_call" where
  "ss_attach_connection conn s el w = Some ((), s\<lparr>ss_server_conn := Some conn\<rparr>, el, w)"

definition ss_on_connect ::
  "('a, 'b, 'k, 's) tunnel_env \<Rightarrow> ptr \<Rightarrow> ('b tunnel_world, 'k, 's, server_session, unit) method_call" where
  "ss_on_connect v new_conn s el w = do {
     (failed, el, w) \<leftarrow> lock_conn new_conn (\<lambda>c el w.
       let (r, k) = stream_take_error (tv_net v) (tc_stream c) (el_kernel el)
       in Some (case r of Inr (Some _) \<Rightarrow> True | _ \<Rightarrow> False, c, el_set_kernel k el, w)) el w;
     if failed then Some ((), s, el, w)
     else (case ss_get_client_conn v s w of
         None \<Rightarrow> Some ((), s, el, w)
       | Some cs \<Rightarrow> do {
           (el, w) \<leftarrow> tunnel_enqueue v (Flush_Pending new_conn cs) el w;
           Some ((), s, el, w)
         })
   }"

definition ss_on_recv ::
  "('a, 'b, 'k, 's) tunnel_env \<Rightarrow> ('b, 'k, 's, 'b tunnel_world) conn_jobs \<Rightarrow> 'b \<Rightarrow>
   ('b tunnel_world, 'k, 's, server_session, 'b) method_call" where
  "ss_on_recv v cj bytes s el w = (case ss_get_client_conn v s w of
       None \<Rightarrow> Some (bytes, s, el, w)
     | Some cs \<Rightarrow>
         let len = bo_len (tv_bufs v) bytes in
         if 0 < len then do {
           (_, el, w) \<leftarrow> lock_conn cs (tunnel_send v cj bytes) el w;
           bytes \<leftarrow> bo_advance (tv_bufs v) len bytes;
           Some (bytes, s, el, w)
         }
         else Some (bytes, s, el, w))"

definition ss_on_written :: "('b tunnel_world, 'k, 's, server_session, bool) method_call" where
  "ss_on_written s el w = Some (True, s, el, w)"

definition ss_on_error ::
  "('a, 'b, 'k, 's) tunnel_env \<Rightarrow> ('b tunnel_world, 'k, 's, server_session, unit) method_call" where
  "ss_on_error v s el w = (case ss_get_client_conn v s w of
       None \<Rightarrow> Some ((), s, el, w)
     | Some cs \<Rightarrow> do {
         (el, w) \<leftarrow> tunnel_enqueue v (Shut_Client cs) el w;
         Some ((), s, el, w)
       })"

section \<open>The tunnel\<close>

definition tunnel_new :: "string \<Rightarrow> ptr \<Rightarrow> 'b tunnel_world \<Rightarrow> tunnel \<times> 'b tunnel_world" where
  "tunnel_new addr conn w = (let (cl, w) = client_new w in
     (\<lparr>tn_addr = addr, tn_client = cl, tn_server_session = None, tn_client_conn = Some conn\<rparr>, w))"

definition tn_get_client_conn ::
  "('a, 'b, 'k, 's) tunnel_env \<Rightarrow> tunnel \<Rightarrow> 'b tunnel_world \<Rightarrow> ptr option" where
  "tn_get_client_conn v tn w = upgrade (tv_conn_alive v) (tn_client_conn tn) w"

definition tn_get_server_session ::
  "('a, 'b, 'k, 's) tunnel_env \<Rightarrow> tunnel \<Rightarrow> 'b tunnel_world \<Rightarrow> ptr option" where
  "tn_get_server_session v tn w = upgrade (tv_session_alive v) (tn_server_session tn) w"

definition tn_get_server_conn ::
  "('a, 'b, 'k, 's) tunnel_env \<Rightarrow> ('b tunnel_world, 'k, 's, tunnel, ptr option) method_call" where
  "tn_get_server_conn v tn el w = (case tn_get_server_session v tn w of
       None \<Rightarrow> Some (None, tn, el, w)
     | Some session \<Rightarrow> do {
         (conn, el, w) \<leftarrow> lock_client session (\<lambda>s el w. Some (ss_get_server_conn v s w, s, el, w)) el w;
         Some (conn, tn, el, w)
       })"

definition tunnel_connect ::
  "('a, 'b, 'k, 's) tunnel_env \<Rightarrow> ('b tunnel_world, 'k, 's, tunnel, unit) method_call" where
  "tunnel_connect v tn el w = (case tn_get_client_conn v tn w of
       None \<Rightarrow> Some ((), tn, el, w)
     | Some cs \<Rightarrow> do {
         let (session, w) = server_session_share (server_session_new cs) w;
         (el, w) \<leftarrow> start_connect (tv_slab v) (tv_net v) (tv_parse v) (tv_elapsed v) (tn_addr tn) session
           (tn_client tn) el w;
         Some ((), tn\<lparr>tn_server_session := Some session\<rparr>, el, w)
       })"

section \<open>The session with the client\<close>

definition tunnel_server_new :: tunnel_server where
  "tunnel_server_new = \<lparr>tu_client_conn = None, tu_tunnel = None\<rparr>"

definition tu_get_client_conn ::
  "('a, 'b, 'k, 's) tunnel_env \<Rightarrow> tunnel_server \<Rightarrow> 'b tunnel_world \<Rightarrow> ptr option" where
  "tu_get_client_conn v h w = upgrade (tv_conn_alive v) (tu_client_conn h) w"

definition tu_get_server_conn ::
  "('a, 'b, 'k, 's) tunnel_env \<Rightarrow> ('b tunnel_world, 'k, 's, tunnel_server, ptr option) method_call" where
  "tu_get_server_conn v h el w = (case tu_tunnel h of
       None \<Rightarrow> Some (None, h, el, w)
     | Some tunnel \<Rightarrow> do {
         (conn, el, w) \<leftarrow> lock_tunnel tunnel (tn_get_server_conn v) el w;
         Some (conn, h, el, w)
       })"

definition tu_attach_connection ::
  "ptr \<Rightarrow> ('b tunnel_world, 'k, 's, tunnel_server, unit) method_call" where
  "tu_attach_connection conn h el w = Some ((), h\<lparr>tu_client_conn := Some conn\<rparr>, el, w)"

definition tu_free_connection :: "tunnel_server \<Rightarrow> tunnel_server" where
  "tu_free_connection h = h\<lparr>tu_client_conn := None\<rparr>"

definition tu_on_accept ::
  "('a, 'b, 'k, 's) tunnel_env \<Rightarrow> ('b tunnel_world, 'k, 's, tunnel_server, unit) method_call" where
  "tu_on_accept v h el w = (case tu_get_client_conn v h w of
       None \<Rightarrow> Some ((), h, el, w)
     | Some cc \<Rightarrow> do {
         _ \<leftarrow> get_current_loop (tv_current v);
         let (tn, w) = tunnel_new ''127.0.0.1:80'' cc w;
         let (tunnel, w) = tunnel_share tn w;
         (_, el, w) \<leftarrow> lock_tunnel tunnel (tunnel_connect v) el w;
         Some ((), h\<lparr>tu_tunnel := Some tunnel\<rparr>, el, w)
       })"

definition tu_on_recv ::
  "('a, 'b, 'k, 's) tunnel_env \<Rightarrow> 'b \<Rightarrow> ('b tunnel_world, 'k, 's, tunnel_server, 'b) method_call" where
  "tu_on_recv v bytes h el w =
     (let len = bo_len (tv_bufs v) bytes in
      if len = 0 then Some (bytes, h, el, w)
      else do {
        (conn, h, el, w) \<leftarrow> tu_get_server_conn v h el w;
        (case conn of
           None \<Rightarrow> Some (bytes, h, el, w)
         | Some ss \<Rightarrow> do {
             rest \<leftarrow> bo_advance (tv_bufs v) len bytes;
             (el, w) \<leftarrow> tunnel_enqueue v (Send_Server ss bytes) el w;
             Some (rest, h, el, w)
           })
      })"

definition tu_on_written :: "('b tunnel_world, 'k, 's, tunnel_server, bool) method_call" where
  "tu_on_written h el w = Some (True, h, el, w)"

definition tu_on_error ::
  "('a, 'b, 'k, 's) tunnel_env \<Rightarrow> ('b tunnel_world, 'k, 's, tunnel_server, unit) method_call" where
  "tu_on_error v h el w = do {
     (conn, h, el, w) \<leftarrow> tu_get_server_conn v (tu_free_connection h) el w;
     (case conn of
        None \<Rightarrow> Some ((), h, el, w)
      | Some ss \<Rightarrow> do {
          (el, w) \<leftarrow> tunnel_enqueue v (Shut_Server ss) el w;
          Some ((), h, el, w)
        })
   }"

section \<open>The program\<close>

text \<open>The closures handed over to the loop.\<close>

definition run_tunnel_job ::
  "('a, 'b, 'k, 's) tunnel_env \<Rightarrow> ('b, 'k, 's, 'b tunnel_world) conn_jobs \<Rightarrow> 'b tunnel_job \<Rightarrow>
   ('k, 's, 'b tunnel_world, unit) user_job" where
  "run_tunnel_job v cj j el w = (case j of
     Flush_Pending ss cs \<Rightarrow> lock_conn ss (\<lambda>sc el w. do {
         (sc, el, w) \<leftarrow> lock_conn cs (\<lambda>cc el w. do {
             bytes \<leftarrow> tc_read_buffer cc;
             let len = bo_len (tv_bufs v) bytes;
             if 0 < len then do {
               (_, sc, el, w) \<leftarrow> tunnel_send v cj bytes sc el w;
               bytes \<leftarrow> bo_advance (tv_bufs v) len bytes;
               Some (sc, cc\<lparr>tc_read_buffer := Some bytes\<rparr>, el, w)
             }
             else Some (sc, cc, el, w)
           }) el w;
         Some ((), sc, el, w)
       }) el w
   | Send_Server ss bytes \<Rightarrow> lock_conn ss (tunnel_send v cj bytes) el w
   | Shut_Client cs \<Rightarrow> lock_conn cs (\<lambda>c el w.
       case conn_shutdown (tv_net v) Shut_Write c el of
         (Inl _, _) \<Rightarrow> None
       | (Inr _, c, el) \<Rightarrow> Some ((), c, el, w)) el w
   | Shut_Server ss \<Rightarrow> lock_conn ss (\<lambda>c el w.
       let (_, c, el) = conn_shutdown (tv_net v) Shut_Write c el in Some ((), c, el, w)) el w)"

text \<open>
  The two handlers and the closures. \<open>cj\<close> are the jobs of the connections, which a method
  that sends runs in turn. The program sets no closures of its own on connections,
  acceptors and connectors, and no timers.
\<close>

definition tunnel_program ::
  "('a, 'b, 'k, 's) tunnel_env \<Rightarrow> ('b, 'k, 's, 'b tunnel_world) conn_jobs \<Rightarrow>
   ('a, 'b, tunnel_server, server_session, 'k, 's, 'b tunnel_world) program" where
  "tunnel_program v cj = \<lparr>
     pg_session_new = (\<lambda>el w. Some (tunnel_server_new, el, w)),
     pg_session_attach = tu_attach_connection,
     pg_session_accept = tu_on_accept v,
     pg_session_recv = tu_on_recv v,
     pg_session_written = tu_on_written,
     pg_session_error = tu_on_error v,
     pg_client_attach = ss_attach_connection,
     pg_client_connect = ss_on_connect v,
     pg_client_recv = ss_on_recv v cj,
     pg_client_written = ss_on_written,
     pg_client_error = ss_on_error v,
     pg_read = (\<lambda>_ _ _ _. None), pg_writ = (\<lambda>_ _ _. None), pg_close = (\<lambda>_ _ _. None),
     pg_accept = (\<lambda>_ _ _ _ _. None), pg_conn = (\<lambda>_ _ _ _. None),
     pg_job = (\<lambda>n _ el w. Option.bind (tu_jobs (w_user w) n) (\<lambda>j. run_tunnel_job v cj j el w)),
     pg_timer = (\<lambda>_ _ _. None)\<rparr>"

text \<open>
  Sending runs the jobs for what is written and for closing, not the one for reading; and
  those two send nothing in turn. So the jobs can be given in two steps.
\<close>

definition no_conn_jobs :: "('b, 'k, 's, 'w) conn_jobs" where
  "no_conn_jobs = \<lparr>cj_read = (\<lambda>_ _ _ _. None), cj_writ = (\<lambda>_ _ _. None), cj_close = (\<lambda>_ _ _. None)\<rparr>"

definition tunnel_prog ::
  "('a, 'b, 'k, 's) tunnel_env \<Rightarrow>
   ('a, 'b, tunnel_server, server_session, 'k, 's, 'b tunnel_world) program" where
  "tunnel_prog v = tunnel_program v (world_conn_jobs (tunnel_program v no_conn_jobs))"

text \<open>What \<^verbatim>\<open>main\<close> does for a loop of the pool.\<close>

definition tunnel_serve ::
  "('a, 'b, 'k, 's) tunnel_env \<Rightarrow> ('k, 's) event_loop \<Rightarrow> 'b tunnel_world \<Rightarrow>
   (('k, 's) event_loop \<times> 'b tunnel_world) option" where
  "tunnel_serve v el w = do {
     (sv, el, w) \<leftarrow> server_new (tv_net v) (tv_parse v) ''0.0.0.0:9528'' el w;
     let (p, w) = server_share sv w;
     (_, el, w) \<leftarrow> lock_server p (\<lambda>sv el w. Some ((), server_start sv, el, w)) el w;
     start_internal (tv_net v) p el w
   }"

end
