(* ===== verification/Connection_Spec.thy ===== *)
theory Connection_Spec
  imports Connection
begin

text \<open>
  What the jobs of a connection see of its stream, how often it is closed, and what
  becomes of the bytes it is given to send.
\<close>

section \<open>Reading a stream\<close>

text \<open>
  What is documented of reading a non-blocking stream: \<open>inp\<close> is what has arrived, of which a
  read takes some from the front; then it would block, or the peer has finished, or it
  fails.
\<close>

datatype read_end = Blocks | Ended | Fails io_error

definition reads :: "('a, 'k) net_ops \<Rightarrow> i32 \<Rightarrow> ('k \<Rightarrow> byte list) \<Rightarrow> ('k \<Rightarrow> read_end) \<Rightarrow> bool" where
  "reads no fd inp en \<longleftrightarrow> (\<forall>n k r k'. 0 < n \<longrightarrow> no_read no fd n k = (r, k') \<longrightarrow>
     en k' = en k \<and>
     (if inp k = [] then inp k' = [] \<and>
        (case en k of
           Blocks \<Rightarrow> \<exists>m. r = Inl (Io_error WouldBlock m)
         | Ended \<Rightarrow> r = Inr []
         | Fails e \<Rightarrow> r = Inl e \<and> err_kind e \<noteq> WouldBlock)
      else \<exists>bs. r = Inr bs \<and> bs \<noteq> [] \<and> length bs \<le> n \<and> inp k = bs @ inp k'))"

lemma try_read_buf_reads:
  assumes laws: "buf_laws bo" and rd: "reads no (ts_sys s) inp en"
  shows "if inp k = []
    then \<exists>b' k'. bo_bytes bo b' = bo_bytes bo b \<and> inp k' = [] \<and> en k' = en k \<and>
      try_read_buf bo (stream_read no s) b k =
        Some (case en k of Blocks \<Rightarrow> Inr None | Ended \<Rightarrow> Inr (Some 0) | Fails e \<Rightarrow> Inl e, b', k')
    else \<exists>bs b' k'. bs \<noteq> [] \<and> inp k = bs @ inp k' \<and> en k' = en k \<and>
      bo_bytes bo b' = bo_bytes bo b @ bs \<and>
      try_read_buf bo (stream_read no s) b k = Some (Inr (Some (length bs)), b', k')"
proof -
  obtain n b1 where m: "bo_chunk_mut bo b = (n, b1)" by fastforce
  have n: "0 < n" "bo_bytes bo b1 = bo_bytes bo b"
    using buf_lawsD(6,7) [OF laws, of b] m by simp_all
  obtain r k' where r: "no_read no (ts_sys s) n k = (r, k')" by fastforce
  note d = rd [unfolded reads_def, rule_format, OF n(1) r]
  have run: "try_read_buf bo (stream_read no s) b k =
      (case map_non_block r of Inl e \<Rightarrow> Some (Inl e, b1, k') | Inr None \<Rightarrow> Some (Inr None, b1, k')
       | Inr (Some bs) \<Rightarrow> do { buf \<leftarrow> bo_advance_mut bo bs b1; Some (Inr (Some (length bs)), buf, k') })"
    by (simp add: try_read_buf_def m try_read_def stream_read_def r)
  show ?thesis
  proof (cases "inp k = []")
    case True
    obtain b2 where b2: "bo_advance_mut bo [] b1 = Some b2" "bo_bytes bo b2 = bo_bytes bo b"
      using buf_advance_mut [OF laws m, of "[]"] by auto
    show ?thesis
    proof (cases "en k")
      case Ended
      then show ?thesis using True d run b2 by (intro if_P [THEN iffD2]) (auto simp: map_non_block_def)
    qed (use True d run n(2) in \<open>auto simp: map_non_block_def\<close>)
  next
    case False
    then obtain bs where bs: "r = Inr bs" "bs \<noteq> []" "length bs \<le> n" "inp k = bs @ inp k'"
      using d by auto
    obtain b2 where "bo_advance_mut bo bs b1 = Some b2" "bo_bytes bo b2 = bo_bytes bo b @ bs"
      by (rule buf_advance_mut [OF laws m bs(3)])
    then show ?thesis using False bs d run by (auto simp: map_non_block_def)
  qed
qed
text \<open>A read job that in the worlds \<open>I\<close> takes all the bytes and leaves the loop alone.\<close>

definition consumes ::
  "('w \<Rightarrow> bool) \<Rightarrow> 'b buf_ops \<Rightarrow> ('b \<Rightarrow> ('k, 's, 'w, 'b) user_job) \<Rightarrow> (byte list \<Rightarrow> 'w \<Rightarrow> 'w) \<Rightarrow> bool" where
  "consumes I bo job rj \<longleftrightarrow> (\<forall>b el w. I w \<longrightarrow> I (rj (bo_bytes bo b) w) \<and>
     (\<exists>b'. job b el w = Some (b', el, rj (bo_bytes bo b) w) \<and> bo_bytes bo b' = []))"

definition read_outcome ::
  "bool \<Rightarrow> ('a, 'k) net_ops \<Rightarrow> ('b, 'k, 's, 'w) conn_jobs \<Rightarrow> (byte list \<Rightarrow> 'w \<Rightarrow> 'w) \<Rightarrow> read_end \<Rightarrow>
   'b tcp_connection \<Rightarrow> ('k, 's) event_loop \<Rightarrow> 'w \<Rightarrow>
   ('b tcp_connection \<times> ('k, 's) event_loop \<times> 'w) option" where
  "read_outcome dbg no cj rj en c el w =
     (case en of
        Blocks \<Rightarrow> Some (c, el, w)
      | Ended \<Rightarrow> handle_close dbg no cj c el (rj [] w)
      | Fails _ \<Rightarrow> handle_close dbg no cj c el w)"

lemma handle_read_stream:
  assumes laws: "buf_laws bo"
  shows "reads no (ts_sys (tc_stream c)) inp en \<Longrightarrow> consumes I bo (run_read_job cj (tc_read_job c)) rj \<Longrightarrow>
    tc_read_buffer c = Some b \<Longrightarrow> bo_bytes bo b = [] \<Longrightarrow> I w \<Longrightarrow>
    \<exists>b' chunks k'. concat chunks = inp (el_kernel el) \<and> [] \<notin> set chunks \<and> bo_bytes bo b' = [] \<and>
      inp k' = [] \<and>
      handle_read bo dbg no cj c el w = read_outcome dbg no cj rj (en (el_kernel el))
        (c\<lparr>tc_read_buffer := Some b', tc_read_triggered := False\<rparr>) (el_set_kernel k' el)
        (fold rj chunks w)"
proof (induction "length (inp (el_kernel el))" arbitrary: el c b w rule: less_induct)
  case (less el c b w)
  let ?k = "el_kernel el"
  note rd = try_read_buf_reads [OF laws less.prems(1), of ?k b]
  show ?case
  proof (cases "inp ?k = []")
    case True
    then obtain b' k' where r: "bo_bytes bo b' = []" "inp k' = []"
      "try_read_buf bo (stream_read no (tc_stream c)) b ?k =
        Some (case en ?k of Blocks \<Rightarrow> Inr None | Ended \<Rightarrow> Inr (Some 0) | Fails e \<Rightarrow> Inl e, b', k')"
      using rd less.prems(4) by auto
    obtain b2 where j: "run_read_job cj (tc_read_job c) b' (el_set_kernel k' el) w = Some (b2, el_set_kernel k' el, rj [] w)"
      "bo_bytes bo b2 = []"
      using less.prems(2,5) r(1) unfolding consumes_def by metis
    have "handle_read bo dbg no cj c el w = read_outcome dbg no cj rj (en ?k)
        (c\<lparr>tc_read_buffer := Some (if en ?k = Ended then b2 else b'), tc_read_triggered := False\<rparr>)
        (el_set_kernel k' el) w"
      by (subst handle_read.simps)
        (cases "en ?k", simp_all add: less.prems(3) r(3) j read_outcome_def)
    then show ?thesis using True r(1,2) j(2)
      by (intro exI [of _ "if en ?k = Ended then b2 else b'"] exI [of _ "[]"] exI [of _ k']) simp
  next
    case False
    then obtain bs b' k1 where r: "bs \<noteq> []" "inp ?k = bs @ inp k1" "en k1 = en ?k"
      "bo_bytes bo b' = bs"
      "try_read_buf bo (stream_read no (tc_stream c)) b ?k = Some (Inr (Some (length bs)), b', k1)"
      using rd less.prems(4) by auto
    let ?el = "el_set_kernel k1 el"
    obtain b2 where j: "run_read_job cj (tc_read_job c) b' ?el w = Some (b2, ?el, rj bs w)" "bo_bytes bo b2 = []" "I (rj bs w)"
      using less.prems(2,5) r(4) unfolding consumes_def by metis
    let ?c = "c\<lparr>tc_read_buffer := Some b2\<rparr>"
    have run: "handle_read bo dbg no cj c el w = handle_read bo dbg no cj ?c ?el (rj bs w)"
      by (subst handle_read.simps) (simp add: less.prems(3) r(1,5) j)
    have "length (inp (el_kernel ?el)) < length (inp ?k)" using r(1,2) by simp
    from less.hyps [OF this, of ?c b2 "rj bs w"] less.prems(1,2) j(2,3) r(3)
    obtain b3 chunks k' where ih: "concat chunks = inp k1" "[] \<notin> set chunks" "bo_bytes bo b3 = []"
      "inp k' = []"
      "handle_read bo dbg no cj ?c ?el (rj bs w) = read_outcome dbg no cj rj (en ?k)
        (c\<lparr>tc_read_buffer := Some b3, tc_read_triggered := False\<rparr>) (el_set_kernel k' el)
        (fold rj chunks (rj bs w))"
      by auto
    then show ?thesis using run r(1,2)
      by (intro exI [of _ b3] exI [of _ "bs # chunks"] exI [of _ k']) simp
  qed
qed

section \<open>Operations one after the other\<close>

datatype 'b conn_op = Event usize | Send 'b | Shutdown shutdown | Enable bool

fun conn_exec ::
  "'b buf_ops \<Rightarrow> bool \<Rightarrow> ('a, 'k) net_ops \<Rightarrow> ('b, 'k, 's, 'w) conn_jobs \<Rightarrow> 'b conn_op \<Rightarrow> 'b tcp_connection \<Rightarrow>
   ('k, 's) event_loop \<Rightarrow> 'w \<Rightarrow> ('b tcp_connection \<times> ('k, 's) event_loop \<times> 'w) option" where
  "conn_exec bo dbg no cj (Event event) c el w = handle_event bo dbg no cj event c el w"
| "conn_exec bo dbg no cj (Send bytes) c el w = do {
     (_, c, el, w) \<leftarrow> conn_send bo dbg no cj bytes c el w;
     Some (c, el, w)
   }"
| "conn_exec bo dbg no cj (Shutdown how) c el w =
     (let (_, c, el) = conn_shutdown no how c el in Some (c, el, w))"
| "conn_exec bo dbg no cj (Enable b) c el w = Some (set_enabled b c, el, w)"

fun conn_execs ::
  "'b buf_ops \<Rightarrow> bool \<Rightarrow> ('a, 'k) net_ops \<Rightarrow> ('b, 'k, 's, 'w) conn_jobs \<Rightarrow> 'b conn_op list \<Rightarrow> 'b tcp_connection \<Rightarrow>
   ('k, 's) event_loop \<Rightarrow> 'w \<Rightarrow> ('b tcp_connection \<times> ('k, 's) event_loop \<times> 'w) option" where
  "conn_execs bo dbg no cj [] c el w = Some (c, el, w)"
| "conn_execs bo dbg no cj (op # ops) c el w = do {
     (c, el, w) \<leftarrow> conn_exec bo dbg no cj op c el w;
     conn_execs bo dbg no cj ops c el w
   }"

text \<open>
  The buffers are there, and nothing is ever in the sending one. \<open>counts\<close> says that \<open>n\<close>
  counts the runs of the close job.
\<close>

definition conn_ok :: "'b buf_ops \<Rightarrow> 'b tcp_connection \<Rightarrow> bool" where
  "conn_ok bo c \<longleftrightarrow> tc_read_buffer c \<noteq> None \<and> tc_waiting c \<noteq> None \<and>
     (\<exists>b. tc_sending c = Some b \<and> bo_bytes bo b = [])"

definition counts :: "('b, 'k, 's, 'w) conn_jobs \<Rightarrow> ('w \<Rightarrow> nat) \<Rightarrow> 'b tcp_connection \<Rightarrow> bool" where
  "counts cj n c \<longleftrightarrow>
     (\<forall>b el w r el' w'. run_read_job cj (tc_read_job c) b el w = Some (r, el', w') \<longrightarrow> n w' = n w) \<and>
     (\<forall>el w r el' w'. run_writ_job cj (tc_writ_job c) el w = Some (r, el', w') \<longrightarrow> n w' = n w) \<and>
     (\<forall>el w r el' w'. run_close_job cj (tc_close_job c) el w = Some (r, el', w') \<longrightarrow> n w' = Suc (n w))"

definition conn_step ::
  "'b buf_ops \<Rightarrow> ('b, 'k, 's, 'w) conn_jobs \<Rightarrow> ('w \<Rightarrow> nat) \<Rightarrow> 'b tcp_connection \<Rightarrow> 'w \<Rightarrow>
   'b tcp_connection \<Rightarrow> 'w \<Rightarrow> bool" where
  "conn_step bo cj n c w c' w' \<longleftrightarrow> conn_ok bo c' \<and> counts cj n c' \<and> (tc_closed c \<longrightarrow> tc_closed c') \<and>
     n w' + of_bool (tc_closed c) = n w + of_bool (tc_closed c')"

lemma conn_step_trans:
  "conn_step bo cj n c w c1 w1 \<Longrightarrow> conn_step bo cj n c1 w1 c' w' \<Longrightarrow> conn_step bo cj n c w c' w'"
  by (auto simp: conn_step_def)

lemma conn_stepD:
  assumes "conn_step bo cj n c w c' w'"
  shows "conn_ok bo c'" "counts cj n c'"
  using assms by (simp_all add: conn_step_def)

lemma conn_step_refl: "conn_ok bo c \<Longrightarrow> counts cj n c \<Longrightarrow> conn_step bo cj n c w c w"
  by (simp add: conn_step_def)

lemma conn_step_upd:
  assumes "conn_step bo cj n c w c1 w1"
  shows "conn_step bo cj n c w (c1\<lparr>tc_read_triggered := f\<rparr>) w1"
    "conn_step bo cj n c w (c1\<lparr>tc_write_triggered := f\<rparr>) w1"
    "conn_step bo cj n c w (c1\<lparr>tc_read_enabled := f\<rparr>) w1"
    "conn_step bo cj n c w (c1\<lparr>tc_write_enabled := f\<rparr>) w1"
    "conn_step bo cj n c w (set_enabled f c1) w1"
    "conn_step bo cj n c w (c1\<lparr>tc_read_buffer := Some b\<rparr>) w1"
    "conn_step bo cj n c w (c1\<lparr>tc_waiting := Some b\<rparr>) w1"
    "bo_bytes bo b = [] \<Longrightarrow> conn_step bo cj n c w (c1\<lparr>tc_sending := Some b\<rparr>) w1"
  using assms by (auto simp: conn_step_def conn_ok_def counts_def set_enabled_def)

text \<open>A job that ran: it does not change the connection.\<close>

lemma conn_step_job:
  assumes "conn_step bo cj n c w c1 w1"
  shows "run_read_job cj (tc_read_job c1) b el w1 = Some (r, el', w') \<Longrightarrow> conn_step bo cj n c w c1 w'"
    "run_writ_job cj (tc_writ_job c1) el w1 = Some (q, el', w') \<Longrightarrow> conn_step bo cj n c w c1 w'"
  using assms by (auto simp: conn_step_def counts_def)

lemma handle_close_step:
  assumes "conn_step bo cj n c w c1 w1" "handle_close dbg no cj c1 el w1 = Some (c', el', w')"
  shows "conn_step bo cj n c w c' w'"
proof (cases "tc_closed c1")
  case True
  then show ?thesis using assms by (auto simp: handle_close_def)
next
  case False
  then obtain el1 where j: "run_close_job cj (tc_close_job c1) el w1 = Some ((), el1, w')"
    and c': "close_stream dbg no ((set_enabled False c1)\<lparr>tc_closed := True\<rparr>) el1 = Some (c', el')"
    using assms(2) by (auto simp: handle_close_def set_enabled_def split: Option.bind_splits)
  obtain s where "c' = (set_enabled False c1)\<lparr>tc_closed := True, tc_stream := s\<rparr>"
    using c' by (auto simp: close_stream_def split: Option.bind_splits sum.splits)
  moreover have "n w' = Suc (n w1)" using j conn_stepD(2) [OF assms(1)] by (auto simp: counts_def)
  ultimately show ?thesis using False assms(1)
    by (auto simp: conn_step_def conn_ok_def counts_def set_enabled_def)
qed

lemma handle_read_step:
  assumes "conn_step bo cj n c w c1 w1" "handle_read bo dbg no cj c1 el w1 = Some (c', el', w')"
  shows "conn_step bo cj n c w c' w'"
proof -
  have "conn_step bo cj n c w c1 w1 \<longrightarrow> conn_step bo cj n c w (fst (c', el', w')) (snd (snd (c', el', w')))"
  proof (rule handle_read.raw_induct [where P = "\<lambda>bo dbg no cj c1 el w1 r.
      conn_step bo cj n c w c1 w1 \<longrightarrow> conn_step bo cj n c w (fst r) (snd (snd r))", OF _ assms(2)],
      intro impI, goal_cases)
    case (1 f bo dbg no cj c1 el w1 r)
    note s = conn_step_upd [OF 1(3)]
    obtain buf res buf1 k where t: "tc_read_buffer c1 = Some buf"
      "try_read_buf bo (stream_read no (tc_stream c1)) buf (el_kernel el) = Some (res, buf1, k)"
      using 1(2) by (auto split: Option.bind_splits)
    show ?case
    proof (cases "\<exists>m. res = Inr (Some m)")
      case False
      have u: "conn_step bo cj n c w (c1\<lparr>tc_read_buffer := Some buf1, tc_read_triggered := False\<rparr>) w1"
        by (rule conn_step_upd(1) [OF s(6)])
      show ?thesis using 1(2) t False u handle_close_step [OF u]
        by (cases r) (auto simp: Let_def split: sum.splits option.splits)
    next
      case True
      then obtain m where m: "res = Inr (Some m)" by blast
      obtain buf2 el2 w2 where j: "run_read_job cj (tc_read_job c1) buf1 (el_set_kernel k el) w1 = Some (buf2, el2, w2)"
        using 1(2) t m by (auto split: Option.bind_splits)
      let ?c2 = "c1\<lparr>tc_read_buffer := Some buf2\<rparr>"
      have s2: "conn_step bo cj n c w ?c2 w2"
        by (rule conn_step_upd(6) [OF conn_step_job(1) [OF 1(3) j]])
      have "(if 0 < m then f bo dbg no cj ?c2 el2 w2
          else handle_close dbg no cj (?c2\<lparr>tc_read_triggered := False\<rparr>) el2 w2) = Some r"
        using 1(2) t m j by (simp add: Let_def)
      then show ?thesis
        using 1(1) s2 handle_close_step [OF conn_step_upd(1) [OF s2]]
        by (cases r) (auto split: if_splits)
    qed
  qed
  then show ?thesis using assms(1) by simp
qed

lemma write_buf_step:
  assumes "conn_step bo cj n c w c1 w1" "write_buf bo dbg no cj buf c1 el w1 = Some (c', el', w')"
  shows "conn_step bo cj n c w c' w'"
proof -
  obtain res buf1 k where t:
    "try_write_buf bo (stream_write no (tc_stream c1)) buf (el_kernel el) = Some (res, buf1, k)"
    using assms(2) by (auto simp: write_buf_def split: Option.bind_splits)
  note u = conn_step_upd(2) [OF assms(1), of False]
  show ?thesis
  proof (cases "(\<exists>m. res = Inr (Some m)) \<and> bo_len bo buf1 = 0")
    case True
    then obtain ret el1 w2 where j: "run_writ_job cj (tc_writ_job c1) (el_set_kernel k el) w1 = Some (ret, el1, w2)"
      and c': "(if ret then Some (c1\<lparr>tc_write_triggered := False\<rparr>, el1, w2)
        else handle_close dbg no cj (c1\<lparr>tc_write_triggered := False\<rparr>) el1 w2) = Some (c', el', w')"
      using assms(2) t by (auto simp: write_buf_def Let_def split: Option.bind_splits if_splits)
    have "conn_step bo cj n c w (c1\<lparr>tc_write_triggered := False\<rparr>) w2"
      by (rule conn_step_upd(2) [OF conn_step_job(2) [OF assms(1) j]])
    then show ?thesis using c' handle_close_step by (cases ret) auto
  next
    case False
    then show ?thesis
      using assms t u handle_close_step [OF u]
      by (auto simp: write_buf_def Let_def split: sum.splits option.splits if_splits)
  qed
qed

lemma write_data_waiting:
  assumes laws: "buf_laws bo" and ok: "conn_ok bo c" and b: "tc_waiting c = Some b"
  obtains s where "bo_bytes bo s = []" "write_data bo dbg no cj c el w =
    (if bo_bytes bo b = [] then Some (c\<lparr>tc_sending := Some s\<rparr>, el, w)
     else write_buf bo dbg no cj (fst (bo_split bo b))
       (c\<lparr>tc_sending := Some s, tc_waiting := Some (snd (bo_split bo b))\<rparr>) el w)"
proof -
  obtain s where s: "tc_sending c = Some s" "bo_bytes bo s = []" using ok by (auto simp: conn_ok_def)
  show ?thesis
    by (rule that [OF s(2)])
      (simp add: write_data_def s b bo_len_def buf_lawsD(1) [OF laws] split_def Let_def)
qed

lemma write_data_step:
  assumes laws: "buf_laws bo" and step: "conn_step bo cj n c w c1 w1"
    and run: "write_data bo dbg no cj c1 el w1 = Some (c', el', w')"
  shows "conn_step bo cj n c w c' w'"
proof -
  obtain b where b: "tc_waiting c1 = Some b" using conn_stepD(1) [OF step] by (auto simp: conn_ok_def)
  obtain s where s: "bo_bytes bo s = []" "write_data bo dbg no cj c1 el w1 =
    (if bo_bytes bo b = [] then Some (c1\<lparr>tc_sending := Some s\<rparr>, el, w1)
     else write_buf bo dbg no cj (fst (bo_split bo b))
       (c1\<lparr>tc_sending := Some s, tc_waiting := Some (snd (bo_split bo b))\<rparr>) el w1)"
    by (rule write_data_waiting [OF laws conn_stepD(1) [OF step] b])
  note u = conn_step_upd(8) [OF step s(1)]
  show ?thesis
    using run s(2) u write_buf_step [OF conn_step_upd(7) [OF u]] by (auto split: if_splits)
qed

lemma handle_write_step:
  assumes "buf_laws bo" "conn_step bo cj n c w c1 w1"
    "handle_write bo dbg no cj c1 el w1 = Some (c', el', w')"
  shows "conn_step bo cj n c w c' w'"
  using assms(2,3) write_data_step [OF assms(1,2)]
  by (auto simp: handle_write_def split: Option.bind_splits if_splits)

lemma handle_event_step:
  assumes laws: "buf_laws bo" and step: "conn_step bo cj n c w c1 w1"
    and run: "handle_event bo dbg no cj event c1 el w1 = Some (c', el', w')"
  shows "conn_step bo cj n c w c' w'"
proof -
  let ?r = "ready_from_usize event"
  obtain c2 el2 w2 c3 el3 w3 where r:
    "(if ready_is_readable ?r then handle_read bo dbg no cj (c1\<lparr>tc_read_triggered := True\<rparr>) el w1
      else Some (c1, el, w1)) = Some (c2, el2, w2)"
    "(if ready_is_writable ?r then handle_write bo dbg no cj (c2\<lparr>tc_write_triggered := True\<rparr>) el2 w2
      else Some (c2, el2, w2)) = Some (c3, el3, w3)"
    "(if ready_is_error ?r \<or> ready_is_hup ?r
      then handle_close dbg no cj (c3\<lparr>tc_read_triggered := True, tc_write_triggered := True\<rparr>) el3 w3
      else Some (c3, el3, w3)) = Some (c', el', w')"
    using run by (auto simp: handle_event_def Let_def split: Option.bind_splits)
  have 2: "conn_step bo cj n c w c2 w2"
    using r(1) step handle_read_step [OF conn_step_upd(1) [OF step]]
    by (cases "ready_is_readable ?r") simp_all
  have 3: "conn_step bo cj n c w c3 w3"
    using r(2) 2 handle_write_step [OF laws conn_step_upd(2) [OF 2]]
    by (cases "ready_is_writable ?r") simp_all
  show ?thesis
    using r(3) 3 handle_close_step [OF conn_step_upd(2) [OF conn_step_upd(1) [OF 3]]]
    by (cases "ready_is_error ?r \<or> ready_is_hup ?r") simp_all
qed

lemma conn_send_step:
  assumes laws: "buf_laws bo" and step: "conn_step bo cj n c w c1 w1"
    and run: "conn_send bo dbg no cj bytes c1 el w1 = Some (r, c', el', w')"
  shows "conn_step bo cj n c w c' w'"
proof (cases "tc_write_enabled c1 \<and> bo_len bo bytes \<noteq> 0")
  case False
  then show ?thesis using run step by (auto simp: conn_send_def Let_def split: if_splits)
next
  case True
  obtain b where b: "tc_waiting c1 = Some b" using conn_stepD(1) [OF step] by (auto simp: conn_ok_def)
  have "write_data bo dbg no cj (c1\<lparr>tc_waiting := Some (bo_put bo b bytes)\<rparr>) el w1 = Some (c', el', w')"
    using run True b by (auto simp: conn_send_def Let_def split: Option.bind_splits)
  then show ?thesis by (rule write_data_step [OF laws conn_step_upd(7) [OF step]])
qed

lemma conn_exec_step:
  assumes laws: "buf_laws bo" and step: "conn_step bo cj n c w c1 w1"
    and run: "conn_exec bo dbg no cj op c1 el w1 = Some (c', el', w')"
  shows "conn_step bo cj n c w c' w'"
proof (cases op)
  case (Event event)
  then show ?thesis using run handle_event_step [OF laws step] by simp
next
  case (Send bytes)
  then show ?thesis using run conn_send_step [OF laws step] by (auto split: Option.bind_splits)
next
  case (Shutdown how)
  then show ?thesis
    using run conn_step_upd(3,4,5) [OF step, of False]
    by (auto simp: conn_shutdown_def split_def Let_def split: if_splits)
next
  case (Enable b)
  then show ?thesis using run conn_step_upd(5) [OF step] by auto
qed

lemma conn_execs_step:
  assumes laws: "buf_laws bo"
  shows "conn_execs bo dbg no cj ops c1 el w1 = Some (c', el', w') \<Longrightarrow> conn_step bo cj n c w c1 w1 \<Longrightarrow>
    conn_step bo cj n c w c' w'"
proof (induction ops arbitrary: c1 el w1)
  case (Cons op ops)
  then obtain c2 el2 w2 where e: "conn_exec bo dbg no cj op c1 el w1 = Some (c2, el2, w2)"
    and es: "conn_execs bo dbg no cj ops c2 el2 w2 = Some (c', el', w')" by (auto split: Option.bind_splits)
  show ?case by (rule Cons.IH [OF es conn_exec_step [OF laws Cons.prems(2) e]])
qed auto
section \<open>A connection to run\<close>

text \<open>
  The kernel is the number of bytes that have arrived; a write takes two bytes at most. The
  world logs what the read job was given and counts the runs of the close job.
\<close>

definition demo_net :: "(nat, nat) net_ops" where
  "demo_net = \<lparr>no_new_v4 = (\<lambda>k. (Inr 5, k)), no_new_v6 = (\<lambda>k. (Inr 6, k)),
     no_reuse_address = (\<lambda>_ _ k. (Inr (), k)), no_reuse_port = (\<lambda>_ _ k. (Inr (), k)),
     no_bind = (\<lambda>_ _ k. (Inr (), k)), no_listen = (\<lambda>_ _ k. (Inr (), k)),
     no_connect = (\<lambda>_ _ k. (Inl (Io_error EINPROGRESS ''''), k)),
     no_accept = (\<lambda>_ k. case k of 0 \<Rightarrow> (Inl (Io_error WouldBlock ''''), 0) | Suc j \<Rightarrow> (Inr (7, V4 0), j)),
     no_read = (\<lambda>_ n k. if k = 0 then (Inl (Io_error WouldBlock ''''), 0)
       else (Inr (replicate (min n k) 1), k - min n k)),
     no_write = (\<lambda>_ bs k. (Inr (min 2 (length bs)), k)),
     no_shutdown = (\<lambda>_ _ k. (Inr (), k)), no_take_error = (\<lambda>_ k. (Inr None, k)),
     no_fcntl = (\<lambda>_ _ _ k. ((0, no_error), k)), no_close = (\<lambda>_ k. k),
     no_ctl = (\<lambda>_ _ _ _ k. ((0, no_error), k))\<rparr>"

definition demo_jobs :: "(byte list, nat, 's, byte list list \<times> nat) conn_jobs" where
  "demo_jobs = \<lparr>cj_read = (\<lambda>_ b el (log, n). Some ([], el, (b # log, n))),
     cj_writ = (\<lambda>_ el w. Some (True, el, w)),
     cj_close = (\<lambda>_ el (log, n). Some ((), el, (log, Suc n)))\<rparr>"

definition demo_conn :: "byte list tcp_connection" where
  "demo_conn = set_read_job (UserJob 1) (set_close_job (UserJob 2)
     (conn_new (list_bufs 3) \<lparr>ts_sys = 5, ts_selector_id = sid_new\<rparr>))"

definition demo_el :: "nat \<Rightarrow> (nat, (usize \<rightharpoonup> string entry) \<times> nat) event_loop" where
  "demo_el k = \<lparr>el_run = True,
     el_poll = \<lparr>po_selector = demo_selector, po_queue = demo_poll\<lparr>rq_pipe := k\<rparr>\<rparr>,
     el_timer = the demo_timer\<rparr>"

lemma demo_conn_reads:
  "tc_read_buffer demo_conn = Some []" "tc_sending demo_conn = Some []" "tc_waiting demo_conn = Some []"
  "tc_write_enabled demo_conn" "ts_sys (tc_stream demo_conn) = 5"
  "run_read_job demo_jobs (tc_read_job demo_conn) = (\<lambda>b el (log, n). Some ([], el, (b # log, n)))"
  "run_writ_job demo_jobs (tc_writ_job demo_conn) = (\<lambda>el w. Some (True, el, w))"
  "run_close_job demo_jobs (tc_close_job demo_conn) = (\<lambda>el (log, n). Some ((), el, (log, Suc n)))"
  by (simp_all add: run_read_job_def run_writ_job_def run_close_job_def demo_jobs_def fun_eq_iff
    demo_conn_def set_read_job_def set_close_job_def conn_new_def list_bufs_def)

lemma demo_conn_ok: "conn_ok (list_bufs 3) demo_conn"
  by (simp add: conn_ok_def demo_conn_reads list_bufs_def)

lemma demo_net_reads: "reads demo_net fd (\<lambda>k. replicate k 1) (\<lambda>_. Blocks)"
  by (auto simp: reads_def demo_net_def replicate_add [symmetric] split: if_splits)

lemma demo_kernel [simp]: "el_kernel (demo_el k) = k"
  by (simp add: demo_el_def el_kernel_def po_kernel_def)

section \<open>Properties\<close>

text \<open>
  C12: Reading delivers the stream: when its socket becomes readable, the connection reads
  until the kernel has nothing left and returns; its job is given exactly the bytes that
  arrived, in order and none empty; at the end of the stream it is called once more with
  nothing and the connection is closed, as it is on an error, and a stream that would
  block keeps it open. For a job that takes all it is given and leaves the loop alone,
  in the worlds \<open>I\<close> that it keeps.
\<close>

theorem handle_read_delivers:
  assumes "buf_laws bo" "reads no (ts_sys (tc_stream c)) inp en" "consumes I bo (run_read_job cj (tc_read_job c)) rj"
    "tc_read_buffer c = Some b" "bo_bytes bo b = []" "I w"
  shows "\<exists>b' chunks k'. concat chunks = inp (el_kernel el) \<and> [] \<notin> set chunks \<and> bo_bytes bo b' = [] \<and>
    inp k' = [] \<and>
    handle_read bo dbg no cj c el w =
      (let c' = c\<lparr>tc_read_buffer := Some b', tc_read_triggered := False\<rparr>; el' = el_set_kernel k' el;
           w' = fold rj chunks w
       in case en (el_kernel el) of
            Blocks \<Rightarrow> Some (c', el', w')
          | Ended \<Rightarrow> handle_close dbg no cj c' el' (rj [] w')
          | Fails _ \<Rightarrow> handle_close dbg no cj c' el' w')"
  using handle_read_stream [where inp = inp and en = en and rj = rj and dbg = dbg and el = el and w = w,
      OF assms] unfolding read_outcome_def Let_def .

lemma handle_read_delivers_witness:
  "\<exists>c' el' chunks. handle_read (list_bufs 3) False demo_net demo_jobs demo_conn (demo_el 9) ([], 0) =
      Some (c', el', (rev chunks, 0)) \<and> concat chunks = replicate 9 1 \<and> [] \<notin> set chunks"
proof -
  let ?rj = "\<lambda>bs (log, n). (bs # log, n :: nat)"
  have c: "consumes (\<lambda>_. True) (list_bufs 3) (run_read_job demo_jobs (tc_read_job demo_conn)) ?rj"
    by (auto simp: consumes_def demo_conn_reads list_bufs_def)
  have b: "tc_read_buffer demo_conn = Some []" "bo_bytes (list_bufs 3) [] = []"
    by (simp_all add: demo_conn_reads list_bufs_def)
  have fold: "fold ?rj bss (log, n) = (rev bss @ log, n)" for bss log n
    by (induction bss arbitrary: log) auto
  from handle_read_delivers [where dbg = False and el = "demo_el 9" and w = "([], 0)",
      OF list_bufs_laws demo_net_reads c b TrueI]
  show ?thesis unfolding fold by (auto simp: Let_def)
qed

text \<open>
  C13: Whatever events come in and whatever its user sends, shuts down or enables again, the
  close job of a connection runs at most once, namely exactly when the connection becomes
  closed; and a closed connection stays closed. The buffers are always there and nothing
  is ever in the sending one.
\<close>

theorem conn_closes_once:
  assumes "buf_laws bo" "conn_ok bo c" "counts cj n c"
    "conn_execs bo dbg no cj ops c el w = Some (c', el', w')"
  shows "conn_ok bo c' \<and> (tc_closed c \<longrightarrow> tc_closed c') \<and>
    n w' = n w + (if tc_closed c' \<and> \<not> tc_closed c then 1 else 0)"
  using conn_execs_step [OF assms(1,4) conn_step_refl [OF assms(2,3)]]
  by (cases "tc_closed c"; cases "tc_closed c'") (simp_all add: conn_step_def)

text \<open>Two hang-ups, the second after the connection was enabled again.\<close>

lemma conn_closes_once_witness:
  "\<exists>c' el' w'. conn_execs (list_bufs 3) False demo_net demo_jobs [Event 9, Enable True, Event 8] demo_conn (demo_el 4) ([], 0) =
      Some (c', el', w') \<and> tc_closed c' \<and> snd w' = 1"
proof -
  have k: "counts demo_jobs snd demo_conn" by (auto simp: counts_def demo_conn_reads)
  have "map_option (\<lambda>(c, _, _). tc_closed c) (conn_execs (list_bufs 3) False demo_net demo_jobs
      [Event 9, Enable True, Event 8] demo_conn (demo_el 4) ([], 0)) = Some True" by code_simp
  then obtain c' el' w' where r: "conn_execs (list_bufs 3) False demo_net demo_jobs
      [Event 9, Enable True, Event 8] demo_conn (demo_el 4) ([], 0) = Some (c', el', w')" "tc_closed c'"
    by auto
  moreover have "\<not> tc_closed demo_conn"
    by (simp add: demo_conn_def set_read_job_def set_close_job_def conn_new_def)
  ultimately show ?thesis
    using conn_closes_once [OF list_bufs_laws demo_conn_ok k r(1)] by auto
qed

text \<open>
  C20: Sending loses data. When the kernel does not take all the bytes at once, or none
  because it would block, \<^verbatim>\<open>send\<close> still answers that it has sent them, keeps none of the
  rest in its buffers, and neither closes the connection nor tells its user.
\<close>

theorem send_loses_rest:
  assumes "buf_laws bo" "conn_ok bo c" "tc_write_enabled c" "tc_waiting c = Some b"
    "bo_bytes bo bytes \<noteq> []"
    "no_write no (ts_sys (tc_stream c)) (bo_bytes bo b @ bo_bytes bo bytes) (el_kernel el) = (r, k')"
    "case r of Inr m \<Rightarrow> m < length (bo_bytes bo b @ bo_bytes bo bytes) | Inl e \<Rightarrow> err_kind e = WouldBlock"
  shows "\<exists>c' b' s. conn_send bo dbg no cj bytes c el w =
      Some (Inr (length (bo_bytes bo bytes)), c', el_set_kernel k' el, w) \<and>
    tc_waiting c' = Some b' \<and> bo_bytes bo b' = [] \<and> tc_sending c' = Some s \<and> bo_bytes bo s = [] \<and>
    tc_closed c' = tc_closed c"
proof -
  let ?buf = "bo_put bo b bytes" and ?bs = "bo_bytes bo b @ bo_bytes bo bytes"
  let ?c = "c\<lparr>tc_waiting := Some ?buf\<rparr>"
  have bs: "bo_bytes bo ?buf = ?bs" by (rule buf_lawsD(5) [OF assms(1)])
  have ok: "conn_ok bo ?c" using assms(2) by (simp add: conn_ok_def)
  obtain s where s: "bo_bytes bo s = []" "write_data bo dbg no cj ?c el w =
      (if bo_bytes bo ?buf = [] then Some (?c\<lparr>tc_sending := Some s\<rparr>, el, w)
       else write_buf bo dbg no cj (fst (bo_split bo ?buf))
         (?c\<lparr>tc_sending := Some s, tc_waiting := Some (snd (bo_split bo ?buf))\<rparr>) el w)"
    by (rule write_data_waiting [OF assms(1) ok, of ?buf]) simp_all
  let ?c2 = "c\<lparr>tc_sending := Some s, tc_waiting := Some (snd (bo_split bo ?buf))\<rparr>"
  have sp: "bo_bytes bo (fst (bo_split bo ?buf)) = ?bs" "bo_bytes bo (snd (bo_split bo ?buf)) = []"
    using buf_lawsD(3,4) [OF assms(1)] bs by simp_all
  have t: "try_write (stream_write no (tc_stream c)) (bo_chunk bo (fst (bo_split bo ?buf))) (el_kernel el) =
      (map_non_block r, k')"
    using assms(6) by (simp add: try_write_def stream_write_def buf_lawsD(2) [OF assms(1)] sp)
  have "\<exists>c'. write_buf bo dbg no cj (fst (bo_split bo ?buf)) ?c2 el w = Some (c', el_set_kernel k' el, w) \<and>
      tc_waiting c' = tc_waiting ?c2 \<and> tc_sending c' = Some s \<and> tc_closed c' = tc_closed c"
  proof (cases r)
    case (Inl e)
    then show ?thesis using t assms(7)
      by (simp add: write_buf_def try_write_buf_def map_non_block_def)
  next
    case (Inr m)
    then obtain b2 where "bo_advance bo m (fst (bo_split bo ?buf)) = Some b2" "bo_bytes bo b2 = drop m ?bs"
      using buf_advance [OF assms(1), of m "fst (bo_split bo ?buf)"] assms(7) sp(1) by auto
    moreover have "0 < length (drop m ?bs)" using assms(7) Inr by simp
    ultimately have "bo_advance bo m (fst (bo_split bo ?buf)) = Some b2" "0 < bo_len bo b2"
      unfolding bo_len_def by presburger+
    then show ?thesis using t Inr
      by (simp add: write_buf_def try_write_buf_def map_non_block_def Let_def)
  qed
  then show ?thesis
    using s(2) bs assms(3,4,5) sp(2) s(1) by (auto simp: conn_send_def bo_len_def Let_def)
qed

lemma send_loses_rest_witness:
  "\<exists>c' el' b'. conn_send (list_bufs 3) False demo_net demo_jobs [1, 2, 3, 4] demo_conn (demo_el 0) ([], 0) =
      Some (Inr 4, c', el', ([], 0)) \<and> tc_waiting c' = Some b' \<and> b' = []"
proof -
  have "no_write demo_net (ts_sys (tc_stream demo_conn))
      (bo_bytes (list_bufs 3) [] @ bo_bytes (list_bufs 3) [1, 2, 3, 4]) (el_kernel (demo_el 0)) = (Inr 2, 0)"
    by (simp add: demo_net_def list_bufs_def)
  from send_loses_rest [where dbg = False and cj = demo_jobs and w = "([], 0)", OF list_bufs_laws demo_conn_ok
      demo_conn_reads(4,3) _ this]
  show ?thesis by (auto simp: list_bufs_def)
qed

text \<open>
  C39: Out-of-band data closes a connection. When the kernel reports \<^verbatim>\<open>EPOLLPRI\<close> for its
  descriptor (bit 1 of the word; say with no error and no hang-up), the readiness that the
  loop hands to \<^verbatim>\<open>handle_event\<close> answers \<^verbatim>\<open>is_hup\<close>, since the bits of \<^verbatim>\<open>PRI\<close> contain those of
  \<^verbatim>\<open>HUP\<close>. So the connection reads what has arrived and then runs \<^verbatim>\<open>handle_close\<close>, although
  its stream goes on.
\<close>

theorem urgent_data_closes:
  assumes "buf_laws bo" "reads no (ts_sys (tc_stream c)) inp en"
    "consumes I bo (run_read_job cj (tc_read_job c)) rj" "tc_read_buffer c = Some b" "bo_bytes bo b = []" "I w"
    "en (el_kernel el) = Blocks" "bit word 1" "\<not> bit word 2"
  shows "ready_is_hup (epoll_to_ready word) \<and>
    (\<exists>b' chunks k'. concat chunks = inp (el_kernel el) \<and> [] \<notin> set chunks \<and> bo_bytes bo b' = [] \<and>
      handle_event bo dbg no cj (ready_as_usize (epoll_to_ready word)) c el w =
        handle_close dbg no cj
          (c\<lparr>tc_read_buffer := Some b', tc_read_triggered := True, tc_write_triggered := True\<rparr>)
          (el_set_kernel k' el) (fold rj chunks w))"
proof -
  let ?c = "c\<lparr>tc_read_triggered := True\<rparr>"
  have ready: "ready_is_readable (epoll_to_ready word)" "\<not> ready_is_writable (epoll_to_ready word)"
    "ready_is_hup (epoll_to_ready word)"
    using assms(8,9) epoll_to_ready_answers [of word] by simp_all
  obtain b' chunks k' where r: "concat chunks = inp (el_kernel el)" "[] \<notin> set chunks" "bo_bytes bo b' = []"
    "handle_read bo dbg no cj ?c el w =
      Some (?c\<lparr>tc_read_buffer := Some b', tc_read_triggered := False\<rparr>, el_set_kernel k' el, fold rj chunks w)"
    using handle_read_stream [where c = ?c and dbg = dbg and w = w, OF assms(1), of no inp en I cj rj b el] assms(2-7)
    by (auto simp: read_outcome_def)
  then have "handle_event bo dbg no cj (ready_as_usize (epoll_to_ready word)) c el w =
      handle_close dbg no cj
        (c\<lparr>tc_read_buffer := Some b', tc_read_triggered := True, tc_write_triggered := True\<rparr>)
        (el_set_kernel k' el) (fold rj chunks w)"
    using ready by (simp add: handle_event_def ready_as_usize_def ready_from_usize_def)
  with ready(3) r(1-3) show ?thesis by blast
qed

lemma urgent_data_closes_witness:
  "\<exists>el' w' c'. handle_event (list_bufs 3) False demo_net demo_jobs (ready_as_usize (epoll_to_ready 2))
      demo_conn (demo_el 9) ([], 0) =
      handle_close False demo_net demo_jobs c' el' w' \<and> \<not> tc_closed c' \<and> snd w' = 0"
proof -
  let ?rj = "\<lambda>bs (log, n). (bs # log, n :: nat)"
  have c: "consumes (\<lambda>w. snd w = 0) (list_bufs 3) (run_read_job demo_jobs (tc_read_job demo_conn)) ?rj"
    by (auto simp: consumes_def demo_conn_reads list_bufs_def)
  have b: "tc_read_buffer demo_conn = Some []" "bo_bytes (list_bufs 3) [] = []"
    by (simp_all add: demo_conn_reads list_bufs_def)
  have o: "\<not> tc_closed demo_conn"
    by (simp add: demo_conn_def set_read_job_def set_close_job_def conn_new_def)
  have fold: "snd (fold ?rj bss w) = snd w" for bss w
    by (induction bss arbitrary: w) auto
  from urgent_data_closes [where dbg = False and el = "demo_el 9" and w = "([], 0)" and word = 2,
      OF list_bufs_laws demo_net_reads c b _ refl]
  obtain b' chunks k' where r: "handle_event (list_bufs 3) False demo_net demo_jobs (ready_as_usize (epoll_to_ready 2))
      demo_conn (demo_el 9) ([], 0) =
      handle_close False demo_net demo_jobs
        (demo_conn\<lparr>tc_read_buffer := Some b', tc_read_triggered := True, tc_write_triggered := True\<rparr>)
        (el_set_kernel k' (demo_el 9)) (fold ?rj chunks ([], 0))"
    by (auto simp: bit_2_iff)
  show ?thesis by (rule exI, rule exI, rule exI, rule conjI, rule r) (use o in \<open>simp add: fold\<close>)
qed

end
