(* ===== verification/Acceptor_Spec.thy ===== *)
theory Acceptor_Spec
  imports Acceptor Connection_Spec
begin

text \<open>What an acceptor makes of the connections that wait at its socket.\<close>

text \<open>
  What is documented of accepting: \<open>backlog\<close> are the connections that wait, of which the first is
  taken; it blocks only when none waits; it is interrupted only so often in a row
  (\<open>intr\<close>); and any other error leaves the waiting ones alone.
\<close>

definition accepts ::
  "('a, 'k) net_ops \<Rightarrow> i32 \<Rightarrow> ('k \<Rightarrow> (i32 \<times> 'a socket_addr) list) \<Rightarrow> ('k \<Rightarrow> nat) \<Rightarrow> bool" where
  "accepts no fd backlog intr \<longleftrightarrow> (\<forall>k r k'. no_accept no fd k = (r, k') \<longrightarrow>
     (case r of
        Inr x \<Rightarrow> backlog k = x # backlog k'
      | Inl e \<Rightarrow> backlog k' = backlog k \<and> (err_kind e = Interrupted \<longrightarrow> intr k' < intr k) \<and>
          (err_kind e = WouldBlock \<longrightarrow> backlog k = [])))"

text \<open>Making a descriptor non-blocking works and has nothing to do with them.\<close>

definition unblocks :: "('a, 'k) net_ops \<Rightarrow> ('k \<Rightarrow> 'x) \<Rightarrow> bool" where
  "unblocks no backlog \<longleftrightarrow>
     (\<forall>fd k. \<exists>k'. set_nonblock (no_fcntl no) fd k = (Inr (), k') \<and> backlog k' = backlog k)"

text \<open>Why the loop ended early: the last call to the kernel failed.\<close>

definition accept_failed :: "('a, 'k) net_ops \<Rightarrow> i32 \<Rightarrow> 'k \<Rightarrow> bool" where
  "accept_failed no fd k \<longleftrightarrow> (\<exists>k1 e. no_accept no fd k1 = (Inl e, k) \<and>
     err_kind e \<noteq> Interrupted \<and> err_kind e \<noteq> WouldBlock)"

text \<open>
  The rule for the loop: an invariant of the streams taken so far, of the waiting ones and of
  the state, which the accept job establishes for one more stream.
\<close>

lemma acceptor_loop:
  fixes backlog :: "'k \<Rightarrow> (i32 \<times> 'a socket_addr) list" and intr :: "'k \<Rightarrow> nat"
  assumes acc: "accepts no (tl_sys (ac_listener ac)) backlog intr" and nb: "unblocks no backlog"
    and job: "\<And>don s a rest el w. P don el w \<Longrightarrow> all = don @ (s, a) # rest \<Longrightarrow> backlog (el_kernel el) = rest \<Longrightarrow>
      \<exists>el' w'. run_accept_job no aj (ac_job ac) \<lparr>ts_sys = s, ts_selector_id = sid_new\<rparr> a el w =
          Some ((), el', w') \<and> P (don @ [(s, a)]) el' w' \<and> backlog (el_kernel el') = rest"
    and kernel: "\<And>don el w k. P don el w \<Longrightarrow> P don (el_set_kernel k el) w"
  shows "P don el w \<Longrightarrow> all = don @ backlog (el_kernel el) \<Longrightarrow>
    \<exists>el' w' don' rest. acceptor_handle_read no aj ac el w = Some (el', w') \<and> all = don' @ rest \<and>
      P don' el' w' \<and> backlog (el_kernel el') = rest \<and>
      (rest = [] \<or> accept_failed no (tl_sys (ac_listener ac)) (el_kernel el'))"
proof (induction "(el, w)" arbitrary: el w don rule: wf_induct_rule [OF wf_measures
      [of "[\<lambda>(el, w). length (backlog (el_kernel el)), \<lambda>(el, w). intr (el_kernel el)]"]])
  case (1 el w don)
  let ?fd = "tl_sys (ac_listener ac)" and ?k = "el_kernel el"
  obtain r k1 where r: "no_accept no ?fd ?k = (r, k1)" by fastforce
  note d = acc [unfolded accepts_def, rule_format, OF r]
  show ?case
  proof (cases r)
    case (Inr x)
    obtain s a where x: "x = (s, a)" by fastforce
    obtain k2 where k2: "set_nonblock (no_fcntl no) s k1 = (Inr (), k2)" "backlog k2 = backlog k1"
      using nb unfolding unblocks_def by blast
    let ?el = "el_set_kernel k2 el"
    have p: "backlog ?k = (s, a) # backlog k1" using d Inr x by simp
    obtain el2 w2 where j: "run_accept_job no aj (ac_job ac) \<lparr>ts_sys = s, ts_selector_id = sid_new\<rparr> a ?el w =
        Some ((), el2, w2)" "P (don @ [(s, a)]) el2 w2" "backlog (el_kernel el2) = backlog k1"
      using job [OF kernel [OF 1(2), of k2], of s a "backlog k1"] 1(3) p k2(2) by auto
    have run: "acceptor_handle_read no aj ac el w = acceptor_handle_read no aj ac el2 w2"
      by (subst acceptor_handle_read.simps)
        (simp add: listener_accept_def accept_std_def from_stream_def or_close_def r Inr x k2(1) j(1))
    show ?thesis unfolding run
      by (rule 1(1) [OF _ j(2)]) (use p j(3) 1(3) in auto)
  next
    case (Inl e)
    have k1: "backlog k1 = backlog ?k" using d Inl by simp
    let ?el = "el_set_kernel k1 el"
    have run: "acceptor_handle_read no aj ac el w =
        (if err_kind e = Interrupted then acceptor_handle_read no aj ac ?el w else Some (?el, w))"
      by (subst acceptor_handle_read.simps)
        (simp add: listener_accept_def accept_std_def r Inl)
    show ?thesis
    proof (cases "err_kind e = Interrupted")
      case True
      show ?thesis unfolding run if_P [OF True]
        by (rule 1(1) [OF _ kernel [OF 1(2)]]) (use True Inl d k1 1(3) in auto)
    next
      case False
      have "backlog k1 = [] \<or> accept_failed no ?fd k1"
        using False Inl d r by (auto simp: accept_failed_def)
      then show ?thesis unfolding run if_not_P [OF False]
        using 1(3) k1 kernel [OF 1(2), of k1]
        by (intro exI [of _ ?el] exI [of _ w] exI [of _ don] exI [of _ "backlog k1"]) simp
    qed
  qed
qed

text \<open>
  C40: An acceptor takes the waiting connections in order and gives each to its job once,
  however often the kernel interrupts it, and returns. It takes all of them unless a call
  fails otherwise; then the others go on waiting. For a job that leaves the loop alone.
\<close>

theorem acceptor_takes_in_order:
  assumes "accepts no (tl_sys (ac_listener ac)) backlog intr" "unblocks no backlog" "ac_job ac = UserJob n"
    "\<And>s a el w. aj n \<lparr>ts_sys = s, ts_selector_id = sid_new\<rparr> a el w = Some ((), el, rj (s, a) w)"
  shows "\<exists>k' don rest. acceptor_handle_read no aj ac el w = Some (el_set_kernel k' el, fold rj don w) \<and>
    backlog (el_kernel el) = don @ rest \<and> backlog k' = rest \<and>
    (rest = [] \<or> accept_failed no (tl_sys (ac_listener ac)) k')"
proof -
  let ?P = "\<lambda>don el1 w1. \<exists>k'. el1 = el_set_kernel k' el \<and> w1 = fold rj don w"
  have start: "?P [] el w" by (auto intro: exI [of _ "el_kernel el"])
  have job: "run_accept_job no aj (ac_job ac) \<lparr>ts_sys = s, ts_selector_id = sid_new\<rparr> a el1 w1 =
      Some ((), el1, rj (s, a) w1)" for s a el1 w1
    using assms(3,4) by (simp add: run_accept_job_def)
  show ?thesis
    using acceptor_loop [where P = ?P and aj = aj and all = "backlog (el_kernel el)", OF assms(1,2) _ _ start]
      job by fastforce
qed
text \<open>A kernel that interrupts every other call.\<close>

definition demo_accept :: "(nat, nat) net_ops" where
  "demo_accept = demo_net\<lparr>no_accept := (\<lambda>_ k.
     if odd k then (Inl (Io_error Interrupted ''''), k - 1)
     else if k = 0 then (Inl (Io_error WouldBlock ''''), 0)
     else (Inr (7, V4 0), k - 1))\<rparr>"

lemma demo_accept_ok:
  "accepts demo_accept fd (\<lambda>k. replicate (k div 2) (7, V4 0)) (\<lambda>k. of_bool (odd k))"
  "unblocks demo_accept backlog" "\<not> accept_failed demo_accept fd k"
proof -
  show "accepts demo_accept fd (\<lambda>k. replicate (k div 2) (7, V4 0)) (\<lambda>k. of_bool (odd k))"
    unfolding accepts_def
  proof (intro allI impI)
    fix k r k' assume r: "no_accept demo_accept fd k = (r, k')"
    consider "odd k" | "k = 0" | "even k" "k \<noteq> 0" by blast
    then show "case r of Inr x \<Rightarrow> replicate (k div 2) (7, V4 0) = x # replicate (k' div 2) (7, V4 0)
      | Inl e \<Rightarrow> replicate (k' div 2) (7, V4 0) = replicate (k div 2) (7, V4 0) \<and>
          (err_kind e = Interrupted \<longrightarrow> (of_bool (odd k') :: nat) < of_bool (odd k)) \<and>
          (err_kind e = WouldBlock \<longrightarrow> replicate (k div 2) (7, V4 0) = [])"
    proof cases
      case 1
      then have "(k - 1) div 2 = k div 2" "even (k - 1)" by presburger+
      then show ?thesis using r 1 by (auto simp: demo_accept_def)
    next
      case 3
      then have "k div 2 = Suc ((k - 1) div 2)" by presburger
      then show ?thesis using r 3 by (auto simp: demo_accept_def)
    qed (use r in \<open>auto simp: demo_accept_def\<close>)
  qed
  show "unblocks demo_accept backlog"
    by (simp add: unblocks_def demo_accept_def demo_net_def set_nonblock_def cvt_def)
  show "\<not> accept_failed demo_accept fd k"
    by (auto simp: accept_failed_def demo_accept_def split: if_splits)
qed

lemma acceptor_takes_in_order_witness:
  "\<exists>el'. acceptor_handle_read demo_accept (\<lambda>_ s a el w. Some ((), el, (ts_sys s, a) # w))
      \<lparr>ac_listener = \<lparr>tl_sys = 6, tl_selector_id = sid_new\<rparr>, ac_is_listening = True, ac_job = UserJob 0\<rparr>
      (demo_el 5) [] = Some (el', [(7, V4 0), (7, V4 0)])"
proof -
  let ?ac = "\<lparr>ac_listener = \<lparr>tl_sys = 6, tl_selector_id = sid_new\<rparr>, ac_is_listening = True, ac_job = UserJob 0\<rparr>"
  let ?aj = "\<lambda>_ s a el w. Some ((), el, (ts_sys s, a) # w)"
  have j: "ac_job ?ac = UserJob 0" "\<And>s a el w. ?aj 0 \<lparr>ts_sys = s, ts_selector_id = sid_new\<rparr> a el w =
    Some ((), el, (#) (s, a) w)" by simp_all
  from acceptor_takes_in_order [where aj = ?aj and el = "demo_el 5" and w = "[]",
      OF demo_accept_ok(1,2) j]
  obtain k' don rest where r: "acceptor_handle_read demo_accept ?aj ?ac (demo_el 5) [] =
      Some (el_set_kernel k' (demo_el 5), fold (#) don [])"
    "replicate (el_kernel (demo_el 5) div 2) (7, V4 0) = don @ rest"
    "rest = [] \<or> accept_failed demo_accept (tl_sys (ac_listener ?ac)) k'" by blast
  have "don = replicate 2 (7, V4 0)" using r(2,3) demo_accept_ok(3) by simp
  then show ?thesis using r(1) by (auto simp: numeral_2_eq_2)
qed

end
