(* ===== verification/Tcp_Server_Spec.thy ===== *)
theory Tcp_Server_Spec
  imports Tcp_Server Acceptor_Spec
begin

text \<open>What a server makes of the connections it accepts and of their events.\<close>

section \<open>One more connection\<close>

text \<open>A handler whose first methods only change the session.\<close>

definition sessions_quiet ::
  "('a, 'b, 'h, 'g, 'k, 's, 'w) program \<Rightarrow> 'h \<Rightarrow> (ptr \<Rightarrow> 'h \<Rightarrow> 'h) \<Rightarrow> ('h \<Rightarrow> 'h) \<Rightarrow> bool" where
  "sessions_quiet pg h0 att acc \<longleftrightarrow>
     (\<forall>el w. pg_session_new pg el w = Some (h0, el, w)) \<and>
     (\<forall>conn h el w. pg_session_attach pg conn h el w = Some ((), att conn h, el, w)) \<and>
     (\<forall>h el w. pg_session_accept pg h el w = Some ((), acc h, el, w))"

text \<open>The connection as the server leaves it, and what is in the selector for it.\<close>

definition served_conn :: "'b buf_ops \<Rightarrow> i32 \<Rightarrow> usize \<Rightarrow> nat \<Rightarrow> 'b tcp_connection" where
  "served_conn bo fd sel n = (conn_new bo \<lparr>ts_sys = fd, ts_selector_id = \<lparr>sid_id = sel\<rparr>\<rparr>)
     \<lparr>tc_read_job := UserJob n, tc_writ_job := UserJob (n + 1), tc_close_job := UserJob (n + 2)\<rparr>"

definition server_step ::
  "'b buf_ops \<Rightarrow> usize \<Rightarrow> 'h \<Rightarrow> i32 \<Rightarrow> ('b, 'h, 'g, 'u) world \<Rightarrow> ('b, 'h, 'g, 'u) world" where
  "server_step bo sel h fd w = (let n = w_next w in w\<lparr>
     w_conns := (w_conns w)(n \<mapsto> mutex_new (served_conn bo fd sel (n + 2))),
     w_sessions := (w_sessions w)(n + 1 \<mapsto> mutex_new h),
     w_closures := (w_closures w)(n + 2 \<mapsto> Session_Recv (n + 1), n + 3 \<mapsto> Session_Written (n + 1),
       n + 4 \<mapsto> Session_Error (n + 1), n + 5 \<mapsto> Conn_Event n),
     w_next := n + 6, w_socket_token := w_socket_token w + 1\<rparr>)"

definition el_watch :: "i32 \<Rightarrow> job_entry \<Rightarrow> 'k \<Rightarrow> ('k, 's) event_loop \<Rightarrow> ('k, 's) event_loop" where
  "el_watch fd e k el = (let po = el_poll el; sel = po_selector po in
     el\<lparr>el_poll := po_update (sel\<lparr>sel_events_map := (sel_events_map sel)(fd \<mapsto> e)\<rparr>) k po\<rparr>)"

definition served_entry :: "usize \<Rightarrow> nat \<Rightarrow> job_entry" where
  "served_entry token n = \<lparr>je_token_entry = \<lparr>te_ttype = SocketEvent, te_token = Token token\<rparr>,
     je_job = UserJob n, je_ready = ready_empty\<rparr>"

lemma el_watch_reads [simp]:
  "el_kernel (el_watch fd e k el) = k"
  "sel_events_map (po_selector (el_poll (el_watch fd e k el))) =
    (sel_events_map (po_selector (el_poll el)))(fd \<mapsto> e)"
  "sel_epfd (po_selector (el_poll (el_watch fd e k el))) = sel_epfd (po_selector (el_poll el))"
  "sel_id (po_selector (el_poll (el_watch fd e k el))) = sel_id (po_selector (el_poll el))"
  by (simp_all add: el_watch_def el_kernel_def po_update_def po_kernel_def Let_def)

lemma el_set_kernel_selector [simp]:
  "po_selector (el_poll (el_set_kernel k el)) = po_selector (el_poll el)"
  by (simp add: el_set_kernel_def po_update_def)

lemma conn_register_run:
  assumes c: "w_conns w p = Some (mutex_new c)"
    "sid_id (ts_selector_id (tc_stream c)) \<in> {0, sel_id (po_selector (el_poll el))}"
    and ctl: "no_ctl no (sel_epfd (po_selector (el_poll el))) EPOLL_CTL_ADD (ts_sys (tc_stream c))
      \<lparr>epe_events = ioevent_to_epoll (ready_bitor ready_readable ready_writable) opt_edge,
       epe_u64 = scast (ts_sys (tc_stream c))\<rparr> (el_kernel el) = (ret, k')" "cvt ret = Inr x"
  shows "conn_register no p (Token token) (UserJob n) el w = Some ((),
    el_watch (ts_sys (tc_stream c)) (served_entry token n) k' el,
    w\<lparr>w_conns := (w_conns w)(p \<mapsto> mutex_new (c\<lparr>tc_stream :=
      (tc_stream c)\<lparr>ts_selector_id := \<lparr>sid_id = sel_id (po_selector (el_poll el))\<rparr>\<rparr>\<rparr>))\<rparr>)"
proof -
  have "sid_associate (ts_selector_id (tc_stream c)) (el_poll el) =
      (Inr (), \<lparr>sid_id = sel_id (po_selector (el_poll el))\<rparr>)"
    using c(2) by (cases "ts_selector_id (tc_stream c)") (auto simp: sid_associate_def)
  then show ?thesis using c ctl
    by (simp add: conn_register_def lock_conn_def with_lock_def el_register_def poll_register_def
        stream_register_def evfd_register_def selector_register_def poll_selector_def el_kernel_def
        el_watch_def served_entry_def Let_def)
qed

lemma on_accept_run:
  fixes w :: "('b, 'h, 'g, 'u) world"
  assumes quiet: "sessions_quiet pg h0 att acc" and sv: "sv_session_alloc sv"
    and token: "checked_add (w_socket_token w) 1 = Some token"
    and ctl: "no_ctl no (sel_epfd (po_selector (el_poll el))) EPOLL_CTL_ADD fd
      \<lparr>epe_events = ioevent_to_epoll (ready_bitor ready_readable ready_writable) opt_edge,
       epe_u64 = scast fd\<rparr> (el_kernel el) = (ret, k')" "cvt ret = Inr x"
  shows "on_accept_connection bo no pg \<lparr>ts_sys = fd, ts_selector_id = sid_new\<rparr> a sv el w =
    Some ((), sv, el_watch fd (served_entry token (w_next w + 5)) k' el,
      server_step bo (sel_id (po_selector (el_poll el))) (acc (att (w_next w) h0)) fd w)"
proof -
  let ?c = "(conn_new bo \<lparr>ts_sys = fd, ts_selector_id = sid_new\<rparr>)\<lparr>tc_read_job := UserJob (Suc (Suc (w_next w))),
    tc_writ_job := UserJob (Suc (Suc (Suc (w_next w)))), tc_close_job := UserJob (Suc (Suc (Suc (Suc (w_next w)))))\<rparr>"
  have reg: "conn_register no (w_next w) (Token token) (UserJob (Suc (Suc (Suc (Suc (Suc (w_next w))))))) el w1 = Some ((),
      el_watch fd (served_entry token (Suc (Suc (Suc (Suc (Suc (w_next w))))))) k' el,
      w1\<lparr>w_conns := (w_conns w1)(w_next w \<mapsto> mutex_new
        (served_conn bo fd (sel_id (po_selector (el_poll el))) (Suc (Suc (w_next w)))))\<rparr>)"
    if "w_conns w1 (w_next w) = Some (mutex_new ?c)" for w1 :: "('b, 'h, 'g, 'u) world"
    using conn_register_run [where no = no and el = el and k' = k' and token = token and
        n = "Suc (Suc (Suc (Suc (Suc (w_next w)))))", OF that _ _ ctl(2)] ctl(1)
    by (simp add: conn_new_def sid_new_def served_conn_def eval_nat_numeral)
  show ?thesis using quiet sv token
    by (simp add: on_accept_connection_def sessions_quiet_def conn_alloc_def session_share_def
        lock_session_def with_lock_def conn_modify_def lock_conn_def closure_new_def set_read_job_def
        set_writ_job_def set_close_job_def server_step_def eval_nat_numeral
        Let_def reg)
qed
section \<open>All the waiting connections\<close>

text \<open>
  The descriptor \<open>fd\<close> is wired to a connection: the connection is open and has nothing left in
  its buffers, its three jobs are the given closures, and what the selector has for \<open>fd\<close> is the
  closure of the connection. It is served when the three closures call a session.
\<close>

definition wired ::
  "'b buf_ops \<Rightarrow> ('k, 's) event_loop \<Rightarrow> ('b, 'h, 'g, 'u) world \<Rightarrow> i32 \<Rightarrow> ptr \<Rightarrow>
   closure \<Rightarrow> closure \<Rightarrow> closure \<Rightarrow> bool" where
  "wired bo el w fd conn rd wr er \<longleftrightarrow> (\<exists>c b b' jr jw jc j token.
     w_conns w conn = Some (mutex_new c) \<and> ts_sys (tc_stream c) = fd \<and> conn_ok bo c \<and> \<not> tc_closed c \<and>
     tc_read_buffer c = Some b \<and> bo_bytes bo b = [] \<and> tc_waiting c = Some b' \<and> bo_bytes bo b' = [] \<and>
     tc_read_job c = UserJob jr \<and> w_closures w jr = Some rd \<and>
     tc_writ_job c = UserJob jw \<and> w_closures w jw = Some wr \<and>
     tc_close_job c = UserJob jc \<and> w_closures w jc = Some er \<and>
     sel_events_map (po_selector (el_poll el)) fd = Some (served_entry token j) \<and>
     w_closures w j = Some (Conn_Event conn))"

abbreviation serves ::
  "'b buf_ops \<Rightarrow> ('k, 's) event_loop \<Rightarrow> ('b, 'h, 'g, 'u) world \<Rightarrow> i32 \<Rightarrow> ptr \<Rightarrow> ptr \<Rightarrow> bool" where
  "serves bo el w fd conn session \<equiv> wired bo el w fd conn
     (Session_Recv session) (Session_Written session) (Session_Error session)"

text \<open>Addresses and numbers from \<open>w_next\<close> on are not in use.\<close>

definition world_fresh :: "('b, 'h, 'g, 'u) world \<Rightarrow> bool" where
  "world_fresh w \<longleftrightarrow> (\<forall>n \<ge> w_next w. w_closures w n = None \<and> w_conns w n = None \<and> w_sessions w n = None)"

text \<open>Nothing of the old world is changed.\<close>

definition world_extends :: "('b, 'h, 'g, 'u) world \<Rightarrow> ('b, 'h, 'g, 'u) world \<Rightarrow> bool" where
  "world_extends w w' \<longleftrightarrow> w_conns w \<subseteq>\<^sub>m w_conns w' \<and> w_sessions w \<subseteq>\<^sub>m w_sessions w' \<and>
     w_closures w \<subseteq>\<^sub>m w_closures w' \<and> w_acceptors w' = w_acceptors w \<and> w_servers w' = w_servers w \<and>
     w_connectors w' = w_connectors w \<and> w_clients w' = w_clients w \<and> w_user w' = w_user w"

lemma map_leD: "m \<subseteq>\<^sub>m m' \<Longrightarrow> m p = Some x \<Longrightarrow> m' p = Some x"
  using domI [of m p x] by (auto simp: map_le_def)

lemma serves_mono:
  assumes "serves bo el w fd conn session" "w_conns w \<subseteq>\<^sub>m w_conns w'" "w_closures w \<subseteq>\<^sub>m w_closures w'"
    "sel_events_map (po_selector (el_poll el')) fd = sel_events_map (po_selector (el_poll el)) fd"
  shows "serves bo el' w' fd conn session"
proof -
  have le: "w_conns w p = Some x \<Longrightarrow> w_conns w' p = Some x" "w_closures w n = Some d \<Longrightarrow> w_closures w' n = Some d"
    for p x n d using map_leD [OF assms(2)] map_leD [OF assms(3)] by simp_all
  show ?thesis using assms(1) unfolding wired_def assms(4) by (blast intro: le)
qed

lemma map_le_fresh: "m \<subseteq>\<^sub>m m' \<Longrightarrow> m p = None \<Longrightarrow> m \<subseteq>\<^sub>m m'(p \<mapsto> x)"
  by (auto simp: map_le_def)

lemma world_freshD:
  assumes "world_fresh w" "w_next w \<le> n"
  shows "w_closures w n = None" "w_conns w n = None" "w_sessions w n = None"
  using assms by (simp_all add: world_fresh_def)

lemma server_step_extends:
  assumes "world_fresh w"
  shows "world_extends w (server_step bo sel h fd w)"
  by (simp add: world_extends_def server_step_def Let_def map_le_fresh world_freshD [OF assms])

lemma server_step_fresh:
  assumes "world_fresh w"
  shows "world_fresh (server_step bo sel h fd w)"
  unfolding world_fresh_def
proof (intro allI impI)
  fix n assume "w_next (server_step bo sel h fd w) \<le> n"
  then have n: "w_next w + 6 \<le> n" by (simp add: server_step_def Let_def)
  then show "w_closures (server_step bo sel h fd w) n = None \<and> w_conns (server_step bo sel h fd w) n = None \<and>
      w_sessions (server_step bo sel h fd w) n = None"
    using world_freshD [OF assms, of n] by (simp add: server_step_def Let_def)
qed

lemma served_conn_ok:
  assumes "buf_laws bo"
  shows "conn_ok bo (served_conn bo fd sel n)" "\<not> tc_closed (served_conn bo fd sel n)"
    "ts_sys (tc_stream (served_conn bo fd sel n)) = fd"
    "tc_read_buffer (served_conn bo fd sel n) = Some (bo_with_capacity bo 1024)"
    "tc_waiting (served_conn bo fd sel n) = Some (bo_with_capacity bo 1024)"
    "tc_read_job (served_conn bo fd sel n) = UserJob n"
    "tc_writ_job (served_conn bo fd sel n) = UserJob (n + 1)"
    "tc_close_job (served_conn bo fd sel n) = UserJob (n + 2)"
  by (simp_all add: served_conn_def conn_new_def conn_ok_def buf_lawsD(1) [OF assms])

lemma server_step_reads:
  "w_conns (server_step bo sel h fd w) (w_next w) =
    Some (mutex_new (served_conn bo fd sel (w_next w + 2)))"
  "w_sessions (server_step bo sel h fd w) (w_next w + 1) = Some (mutex_new h)"
  "w_closures (server_step bo sel h fd w) (w_next w + 2) = Some (Session_Recv (w_next w + 1))"
  "w_closures (server_step bo sel h fd w) (w_next w + 2 + 1) = Some (Session_Written (w_next w + 1))"
  "w_closures (server_step bo sel h fd w) (w_next w + 2 + 2) = Some (Session_Error (w_next w + 1))"
  "w_closures (server_step bo sel h fd w) (w_next w + 5) = Some (Conn_Event (w_next w))"
  "w_next (server_step bo sel h fd w) = w_next w + 6"
  "w_socket_token (server_step bo sel h fd w) = w_socket_token w + 1"
  by (simp_all add: server_step_def Let_def)

lemma server_step_serves:
  assumes "buf_laws bo"
  shows "serves bo (el_watch fd (served_entry token (w_next w + 5)) k el)
    (server_step bo sel h fd w) fd (w_next w) (w_next w + 1)"
proof -
  have "sel_events_map (po_selector (el_poll (el_watch fd (served_entry token (w_next w + 5)) k el))) fd =
      Some (served_entry token (w_next w + 5))" by simp
  then show ?thesis
    unfolding wired_def
    by (intro exI conjI)
      (rule server_step_reads served_conn_ok [OF assms] buf_lawsD(1) [OF assms] | assumption)+
qed

text \<open>Registering a descriptor of \<open>fds\<close> works and leaves the waiting connections alone.\<close>

definition ctl_adds :: "('a, 'k) net_ops \<Rightarrow> i32 set \<Rightarrow> ('k \<Rightarrow> 'x) \<Rightarrow> bool" where
  "ctl_adds no fds f \<longleftrightarrow> (\<forall>ep info k. \<forall>fd \<in> fds. \<exists>ret k' x.
     no_ctl no ep EPOLL_CTL_ADD fd info k = (ret, k') \<and> cvt ret = Inr x \<and> f k' = f k)"

lemma accept_job_run:
  assumes quiet: "sessions_quiet pg h0 att acc" and fresh: "world_fresh w"
    and n: "w_closures w n = Some (Accept_Stream sv)"
    and sv: "w_servers w sv = Some (mutex_new srv)" "sv_session_alloc srv"
    and token: "unat (w_socket_token w) + 1 < 2 ^ 64"
    and ctl: "ctl_adds no fds f" "fd \<in> fds"
  obtains k' token where "world_accept_jobs bo no pg n \<lparr>ts_sys = fd, ts_selector_id = sid_new\<rparr> a el w =
      Some ((), el_watch fd (served_entry token (w_next w + 5)) k' el,
        server_step bo (sel_id (po_selector (el_poll el))) (acc (att (w_next w) h0)) fd w)"
    "f k' = f (el_kernel el)"
proof -
  let ?w = "w\<lparr>w_servers := (w_servers w)(sv \<mapsto> \<lparr>mx_held = True, mx_value = srv\<rparr>)\<rparr>"
  obtain ret k' x where k: "no_ctl no (sel_epfd (po_selector (el_poll el))) EPOLL_CTL_ADD fd
      \<lparr>epe_events = ioevent_to_epoll (ready_bitor ready_readable ready_writable) opt_edge,
       epe_u64 = scast fd\<rparr> (el_kernel el) = (ret, k')" "cvt ret = Inr x" "f k' = f (el_kernel el)"
    using ctl unfolding ctl_adds_def by blast
  have t: "checked_add (w_socket_token ?w) 1 = Some (w_socket_token w + 1)"
    using token by (simp add: checked_add_def)
  note run = on_accept_run [where w = ?w, OF quiet sv(2) t k(1,2)]
  have "world_accept_jobs bo no pg n \<lparr>ts_sys = fd, ts_selector_id = sid_new\<rparr> a el w =
      Some ((), el_watch fd (served_entry (w_socket_token w + 1) (w_next w + 5)) k' el,
        server_step bo (sel_id (po_selector (el_poll el))) (acc (att (w_next w) h0)) fd w)"
    using n sv(1) run [of bo a]
    by (simp add: world_accept_jobs_def lock_server_def with_lock_def mutex_new_def server_step_def
        Let_def fun_upd_idem)
  with k(3) that show ?thesis by blast
qed
text \<open>
  The invariant of the accepting loop that started in \<open>w0\<close>: the \<open>i\<close>-th stream has its
  connection and its session at the \<open>i\<close>-th addresses, and nothing old has changed.
\<close>

definition served_all ::
  "'b buf_ops \<Rightarrow> (ptr \<Rightarrow> 'h) \<Rightarrow> ('b, 'h, 'g, 'u) world \<Rightarrow> (i32 \<times> 'a socket_addr) list \<Rightarrow>
   ('k, 's) event_loop \<Rightarrow> ('b, 'h, 'g, 'u) world \<Rightarrow> bool" where
  "served_all bo h w0 don el w \<longleftrightarrow> w_next w = w_next w0 + 6 * length don \<and> world_fresh w \<and>
     world_extends w0 w \<and> unat (w_socket_token w) = unat (w_socket_token w0) + length don \<and>
     (\<forall>i < length don. serves bo el w (fst (don ! i)) (w_next w0 + 6 * i) (w_next w0 + 6 * i + 1) \<and>
       w_sessions w (w_next w0 + 6 * i + 1) = Some (mutex_new (h (w_next w0 + 6 * i))))"

lemma world_extends_refl [simp]: "world_extends w w"
  by (simp add: world_extends_def)

lemma world_extends_trans: "world_extends w w1 \<Longrightarrow> world_extends w1 w2 \<Longrightarrow> world_extends w w2"
  unfolding world_extends_def by (auto intro: map_le_trans)

lemma served_all_step:
  assumes laws: "buf_laws bo" and P: "served_all bo h w0 don el w"
    and new: "fd \<notin> fst ` set don" and token: "unat (w_socket_token w) + 1 < 2 ^ 64"
  shows "served_all bo h w0 (don @ [(fd, a)]) (el_watch fd (served_entry t (w_next w + 5)) k el)
    (server_step bo sel (h (w_next w)) fd w)"
proof -
  let ?el = "el_watch fd (served_entry t (w_next w + 5)) k el" and ?w = "server_step bo sel (h (w_next w)) fd w"
  have n: "w_next w = w_next w0 + 6 * length don" "world_fresh w"
    using P by (simp_all add: served_all_def)
  note ext = server_step_extends [OF n(2), of bo sel "h (w_next w)" fd]
  have "unat (w_socket_token w + 1) = unat (w_socket_token w) + 1"
    using token by (simp add: unat_word_ariths)
  moreover have "serves bo ?el ?w (fst ((don @ [(fd, a)]) ! i)) (w_next w0 + 6 * i) (w_next w0 + 6 * i + 1) \<and>
      w_sessions ?w (w_next w0 + 6 * i + 1) = Some (mutex_new (h (w_next w0 + 6 * i)))"
    if i: "i < length (don @ [(fd, a)])" for i
  proof (cases "i = length don")
    case True
    then show ?thesis
      using server_step_serves [OF laws] server_step_reads(2) [of bo sel "h (w_next w)" fd w]
      by (simp flip: n(1))
  next
    case False
    then have i: "i < length don" using i by simp
    then have old: "serves bo el w (fst (don ! i)) (w_next w0 + 6 * i) (w_next w0 + 6 * i + 1)"
      "w_sessions w (w_next w0 + 6 * i + 1) = Some (mutex_new (h (w_next w0 + 6 * i)))"
      using P by (simp_all add: served_all_def)
    have "fst (don ! i) \<noteq> fd" using new i by (metis image_eqI nth_mem)
    then have "serves bo ?el ?w (fst (don ! i)) (w_next w0 + 6 * i) (w_next w0 + 6 * i + 1)"
      using ext by (intro serves_mono [OF old(1)]) (simp_all add: world_extends_def)
    moreover have "w_sessions ?w (w_next w0 + 6 * i + 1) = Some (mutex_new (h (w_next w0 + 6 * i)))"
      by (rule map_leD [where m = "w_sessions w", OF _ old(2)])
        (use ext in \<open>simp add: world_extends_def\<close>)
    ultimately show ?thesis using i by (simp add: nth_append)
  qed
  ultimately show ?thesis
    using P server_step_fresh [OF n(2)] world_extends_trans [OF _ ext]
    unfolding served_all_def server_step_reads by (auto simp: n(1))
qed

lemma served_all_kernel:
  "served_all bo h w0 don el w \<Longrightarrow> served_all bo h w0 don (el_set_kernel k el) w"
  by (simp add: served_all_def wired_def)
text \<open>
  C14: A readable listening socket: the server takes the waiting connections in order, makes
  for each a connection and a session that knows it, at fresh addresses, joins the two,
  and registers the connection's closure under the stream's descriptor. It returns with
  its mutexes free and nothing old changed, and takes all of them unless the kernel
  fails. For a \<^verbatim>\<open>Handler\<close> whose first methods only change the session.
\<close>

theorem server_serves_waiting:
  assumes "buf_laws bo" "sessions_quiet pg h0 att acc" "world_fresh w"
    "w_acceptors w a = Some (mutex_new ac)" "ac_job ac = UserJob n" "w_closures w n = Some (Accept_Stream sv)"
    "w_servers w sv = Some (mutex_new srv)" "sv_session_alloc srv"
    "accepts no (tl_sys (ac_listener ac)) backlog intr" "unblocks no backlog"
    "ctl_adds no (fst ` set (backlog (el_kernel el))) backlog" "distinct (map fst (backlog (el_kernel el)))"
    "unat (w_socket_token w) + length (backlog (el_kernel el)) < 2 ^ 64"
  shows "\<exists>el' w' don rest. accept_event bo no pg a el w = Some ((), el', w') \<and>
    backlog (el_kernel el) = don @ rest \<and> backlog (el_kernel el') = rest \<and>
    (rest = [] \<or> accept_failed no (tl_sys (ac_listener ac)) (el_kernel el')) \<and> world_extends w w' \<and>
    (\<forall>i < length don. serves bo el' w' (fst (don ! i)) (w_next w + 6 * i) (w_next w + 6 * i + 1) \<and>
       w_sessions w' (w_next w + 6 * i + 1) = Some (mutex_new (acc (att (w_next w + 6 * i) h0))))"
proof -
  let ?held = "\<lparr>mx_held = True, mx_value = ac\<rparr>" and ?all = "backlog (el_kernel el)"
  let ?w0 = "w\<lparr>w_acceptors := (w_acceptors w)(a \<mapsto> ?held)\<rparr>" and ?h = "\<lambda>p. acc (att p h0)"
  let ?P = "served_all bo ?h ?w0 :: (i32 \<times> _) list \<Rightarrow> _"
  have start: "?P [] el ?w0" using assms(3) by (simp add: served_all_def world_fresh_def)
  have job: "\<exists>el2 w2. run_accept_job no (world_accept_jobs bo no pg) (ac_job ac)
      \<lparr>ts_sys = fd, ts_selector_id = sid_new\<rparr> x el1 w1 = Some ((), el2, w2) \<and> ?P (don @ [(fd, x)]) el2 w2 \<and>
      backlog (el_kernel el2) = rest"
    if P: "?P don el1 w1" and all: "?all = don @ (fd, x) # rest" and rest: "backlog (el_kernel el1) = rest"
    for don fd x rest el1 w1
  proof -
    have w1: "world_fresh w1" "w_closures w1 n = Some (Accept_Stream sv)" "w_servers w1 sv = Some (mutex_new srv)"
      using P assms(6,7) map_leD [of "w_closures w" "w_closures w1" n]
      by (simp_all add: served_all_def world_extends_def)
    have fd: "fd \<in> fst ` set ?all" "fd \<notin> fst ` set don" using all assms(12) by auto
    have tok: "unat (w_socket_token w1) + 1 < 2 ^ 64"
      using P assms(13) unfolding all by (simp add: served_all_def)
    obtain k' t where "world_accept_jobs bo no pg n \<lparr>ts_sys = fd, ts_selector_id = sid_new\<rparr> x el1 w1 =
        Some ((), el_watch fd (served_entry t (w_next w1 + 5)) k' el1,
          server_step bo (sel_id (po_selector (el_poll el1))) (?h (w_next w1)) fd w1)"
      "backlog k' = backlog (el_kernel el1)"
      by (rule accept_job_run [OF assms(2) w1 assms(8) tok assms(11) fd(1)])
    then show ?thesis
      using served_all_step [OF assms(1) P fd(2) tok] rest assms(5)
      by (auto simp: run_accept_job_def)
  qed
  obtain el' w' don rest where r: "acceptor_handle_read no (world_accept_jobs bo no pg) ac el ?w0 = Some (el', w')"
    "?all = don @ rest" "?P don el' w'" "backlog (el_kernel el') = rest"
    "rest = [] \<or> accept_failed no (tl_sys (ac_listener ac)) (el_kernel el')"
    using acceptor_loop [where P = ?P and all = ?all and aj = "world_accept_jobs bo no pg" and don = "[]",
        OF assms(9,10) job served_all_kernel start] by auto
  let ?w = "w'\<lparr>w_acceptors := (w_acceptors w')(a \<mapsto> mutex_new ac)\<rparr>"
  have "w_acceptors w' = (w_acceptors w)(a \<mapsto> ?held)"
    using r(3) by (simp add: served_all_def world_extends_def)
  then have ext: "world_extends w ?w"
    using r(3) assms(4) by (simp add: served_all_def world_extends_def fun_upd_idem)
  have "accept_event bo no pg a el w = Some ((), el', ?w)"
    using assms(4) r(1) by (simp add: accept_event_def lock_acceptor_def with_lock_def mutex_new_def)
  moreover have "serves bo el' ?w fd c s \<longleftrightarrow> serves bo el' w' fd c s" for fd c s
    by (simp add: wired_def)
  ultimately show ?thesis using r(2-5) ext
    by (intro exI [of _ el'] exI [of _ ?w] exI [of _ don] exI [of _ rest]) (simp add: served_all_def)
qed
section \<open>Events of a connection\<close>

text \<open>A handler that takes all the bytes it receives and leaves the loop alone.\<close>

definition session_reads ::
  "'b buf_ops \<Rightarrow> ('a, 'b, 'h, 'g, 'k, 's, 'w) program \<Rightarrow> (byte list \<Rightarrow> 'h \<Rightarrow> 'h) \<Rightarrow> bool" where
  "session_reads bo pg rcv \<longleftrightarrow> (\<forall>b h el w. \<exists>b'. bo_bytes bo b' = [] \<and>
     pg_session_recv pg b h el w = Some (b', rcv (bo_bytes bo b) h, el, w))"

definition session_upd :: "ptr \<Rightarrow> ('h \<Rightarrow> 'h) \<Rightarrow> ('b, 'h, 'g, 'u) world \<Rightarrow> ('b, 'h, 'g, 'u) world" where
  "session_upd s f w = w\<lparr>w_sessions := (w_sessions w)(s := map_option (mutex_new \<circ> f \<circ> mx_value) (w_sessions w s))\<rparr>"

lemma session_upd_fold:
  "w_sessions w s = Some (mutex_new h) \<Longrightarrow> fold (\<lambda>bs. session_upd s (f bs)) xs w =
    w\<lparr>w_sessions := (w_sessions w)(s \<mapsto> mutex_new (fold f xs h))\<rparr>"
  by (induction xs arbitrary: w h) (simp_all add: session_upd_def fun_upd_idem)

lemma session_consumes:
  fixes pg :: "('a, 'b, 'h, 'g, 'k, 's, ('b, 'h, 'g, 'u) world) program"
  assumes "session_reads bo pg rcv" "w_closures w n = Some (Session_Recv s)" "w_sessions w s = Some (mutex_new h)"
  shows "consumes (\<lambda>w1. w_closures w1 = w_closures w \<and> (\<exists>h. w_sessions w1 s = Some (mutex_new h))) bo
    (run_read_job (world_conn_jobs pg) (UserJob n)) (\<lambda>bs. session_upd s (rcv bs))"
  unfolding consumes_def
proof (intro allI impI, elim conjE exE, intro conjI)
  fix b :: 'b and el :: "('k, 's) event_loop" and w1 :: "('b, 'h, 'g, 'u) world" and h :: 'h
  assume w1: "w_closures w1 = w_closures w" "w_sessions w1 s = Some (mutex_new h)"
  let ?w1 = "w1\<lparr>w_sessions := (w_sessions w1)(s \<mapsto> \<lparr>mx_held = True, mx_value = h\<rparr>)\<rparr>"
  obtain b' where b': "bo_bytes bo b' = []"
    "pg_session_recv pg b h el ?w1 = Some (b', rcv (bo_bytes bo b) h, el, ?w1)"
    using assms(1) unfolding session_reads_def by blast
  have "run_read_job (world_conn_jobs pg) (UserJob n) b el w1 = lock_session s (pg_session_recv pg b) el w1"
    using assms(2) w1(1) by (simp add: run_read_job_def world_conn_jobs_def)
  also have "\<dots> = Some (b', el, session_upd s (rcv (bo_bytes bo b)) w1)"
    unfolding lock_session_def
    using sessions.lock_run [where f = "pg_session_recv pg b", OF w1(2) b'(2)] w1(2)
    by (simp add: session_upd_def)
  finally show "\<exists>b'. run_read_job (world_conn_jobs pg) (UserJob n) b el w1 =
      Some (b', el, session_upd s (rcv (bo_bytes bo b)) w1) \<and> bo_bytes bo b' = []" using b'(1) by blast
qed (auto simp: session_upd_def)

text \<open>Writing when nothing is left to send changes nothing.\<close>

lemma handle_write_idle:
  assumes "conn_ok bo c" "tc_waiting c = Some b" "bo_bytes bo b = []"
  shows "handle_write bo dbg no cj c el w = Some (c, el, w)"
  using assms by (auto simp: handle_write_def conn_ok_def bo_len_def)

text \<open>
  C15: From the socket to the session: when the stream of a connection that is served becomes
  readable, its session, and no other, receives exactly the bytes that have arrived, in
  order; the event returns with all mutexes free, and the connection goes on being served.
  For a session that takes what it receives, a stream that stays open, and whatever the
  event says of writing.
\<close>

theorem conn_event_delivers:
  assumes "buf_laws bo" "serves bo el w fd conn session" "w_sessions w session = Some (mutex_new h)"
    "session_reads bo pg rcv" "reads no fd inp en" "en (el_kernel el) = Blocks"
    "ready_is_readable (ready_from_usize event)" "\<not> ready_is_error (ready_from_usize event)"
    "\<not> ready_is_hup (ready_from_usize event)"
  shows "\<exists>k' w' chunks. conn_event bo dbg no pg conn event el w = Some ((), el_set_kernel k' el, w') \<and>
    concat chunks = inp (el_kernel el) \<and> [] \<notin> set chunks \<and> inp k' = [] \<and>
    w_sessions w' = (w_sessions w)(session \<mapsto> mutex_new (fold rcv chunks h)) \<and>
    (\<forall>p. p \<noteq> conn \<longrightarrow> w_conns w' p = w_conns w p) \<and> w_closures w' = w_closures w \<and>
    serves bo (el_set_kernel k' el) w' fd conn session"
proof -
  obtain c b b' jr jw jc j token where c: "w_conns w conn = Some (mutex_new c)" "ts_sys (tc_stream c) = fd"
    "conn_ok bo c" "\<not> tc_closed c" "tc_read_buffer c = Some b" "bo_bytes bo b = []"
    "tc_waiting c = Some b'" "bo_bytes bo b' = []"
    "tc_read_job c = UserJob jr" "w_closures w jr = Some (Session_Recv session)"
    "tc_writ_job c = UserJob jw" "w_closures w jw = Some (Session_Written session)"
    "tc_close_job c = UserJob jc" "w_closures w jc = Some (Session_Error session)"
    "sel_events_map (po_selector (el_poll el)) fd = Some (served_entry token j)"
    "w_closures w j = Some (Conn_Event conn)"
    using assms(2) unfolding wired_def by blast
  let ?c = "c\<lparr>tc_read_triggered := True\<rparr>" and ?cj = "world_conn_jobs pg"
  let ?w = "w\<lparr>w_conns := (w_conns w)(conn \<mapsto> \<lparr>mx_held = True, mx_value = c\<rparr>)\<rparr>"
  let ?I = "\<lambda>w1. w_closures w1 = w_closures ?w \<and> (\<exists>h. w_sessions w1 session = Some (mutex_new h))"
  have con: "consumes ?I bo (run_read_job ?cj (tc_read_job ?c)) (\<lambda>bs. session_upd session (rcv bs))"
    using session_consumes [OF assms(4), of ?w jr session h] c(9,10) assms(3) by simp
  have "reads no (ts_sys (tc_stream ?c)) inp en" "tc_read_buffer ?c = Some b" "?I ?w"
    using assms(3,5) c(2,5) by auto
  then obtain b2 chunks k' where r: "concat chunks = inp (el_kernel el)" "[] \<notin> set chunks"
    "bo_bytes bo b2 = []" "inp k' = []"
    "handle_read bo dbg no ?cj ?c el ?w =
      Some (c\<lparr>tc_read_buffer := Some b2, tc_read_triggered := False\<rparr>, el_set_kernel k' el,
        fold (\<lambda>bs. session_upd session (rcv bs)) chunks ?w)"
    using handle_read_stream [OF assms(1) _ con _ c(6), of no inp en ?w el dbg] assms(6)
    by (auto simp: read_outcome_def)
  let ?w2 = "?w\<lparr>w_sessions := (w_sessions w)(session \<mapsto> mutex_new (fold rcv chunks h))\<rparr>"
  have fold: "fold (\<lambda>bs. session_upd session (rcv bs)) chunks ?w = ?w2"
    using session_upd_fold [of ?w session h rcv chunks] assms(3) by simp
  let ?wr = "ready_is_writable (ready_from_usize event)"
  let ?c2 = "c\<lparr>tc_read_buffer := Some b2, tc_read_triggered := False,
    tc_write_triggered := ?wr \<or> tc_write_triggered c\<rparr>"
  have "conn_ok bo (c\<lparr>tc_read_buffer := Some b2, tc_read_triggered := False, tc_write_triggered := True\<rparr>)"
    using c(3) by (auto simp: conn_ok_def)
  from handle_write_idle [OF this, of b' dbg no ?cj "el_set_kernel k' el" ?w2]
  have ev: "handle_event bo dbg no ?cj event c el ?w = Some (?c2, el_set_kernel k' el, ?w2)"
    using assms(7-9) r(5) c(7,8) unfolding fold handle_event_def by (cases ?wr) simp_all
  let ?w' = "?w2\<lparr>w_conns := (w_conns w)(conn \<mapsto> mutex_new ?c2)\<rparr>"
  have put: "(w_conns w)(conn \<mapsto> mutex_new ?c2) = (w_conns ?w2)(conn \<mapsto> mutex_new ?c2)" by simp
  have "conn_event bo dbg no pg conn event el w = Some ((), el_set_kernel k' el, ?w')"
    unfolding conn_event_def lock_conn_def put by (rule conns.lock_run [OF c(1)]) (simp add: ev)
  moreover have "serves bo (el_set_kernel k' el) ?w' fd conn session"
    unfolding wired_def using c r(3)
    by (intro exI [of _ ?c2], simp add: conn_ok_def) blast
  ultimately show ?thesis using r(1,2,4) by (intro exI [of _ k'] exI [of _ ?w'] exI [of _ chunks]) simp
qed
section \<open>A server to run\<close>

text \<open>
  Two connections wait at a listening socket, the kernel being their number. A session knows
  its connection, whether it was accepted, and the bytes it has received; a client keeps the
  calls it has had.
\<close>

fun demo_backlog :: "nat \<Rightarrow> (i32 \<times> nat socket_addr) list" where
  "demo_backlog 0 = []"
| "demo_backlog (Suc j) = (word_of_nat (20 + j), V4 0) # demo_backlog j"

definition demo_listen :: "(nat, nat) net_ops" where
  "demo_listen = demo_net\<lparr>no_accept := (\<lambda>_ k. case k of
     0 \<Rightarrow> (Inl (Io_error WouldBlock ''''), 0)
   | Suc j \<Rightarrow> (Inr (word_of_nat (20 + j), V4 0), j))\<rparr>"

type_synonym demo_session = "ptr option \<times> bool \<times> byte list"

type_synonym demo_client = "(string \<times> ptr) list"

type_synonym demo_world = "(byte list, demo_session, demo_client, unit) world"

definition demo_prog :: "(nat, byte list, demo_session, demo_client, nat, 's, demo_world) program" where
  "demo_prog = \<lparr>
     pg_session_new = (\<lambda>el w. Some ((None, False, []), el, w)),
     pg_session_attach = (\<lambda>c (_, a, bs) el w. Some ((), (Some c, a, bs), el, w)),
     pg_session_accept = (\<lambda>(c, _, bs) el w. Some ((), (c, True, bs), el, w)),
     pg_session_recv = (\<lambda>b (c, a, bs) el w. Some ([], (c, a, bs @ b), el, w)),
     pg_session_written = (\<lambda>h el w. Some (True, h, el, w)),
     pg_session_error = (\<lambda>h el w. Some ((), h, el, w)),
     pg_client_attach = (\<lambda>c g el w. Some ((), (''attach'', c) # g, el, w)),
     pg_client_connect = (\<lambda>c g el w. Some ((), (''connect'', c) # g, el, w)),
     pg_client_recv = (\<lambda>_ g el w. Some ([], g, el, w)),
     pg_client_written = (\<lambda>g el w. Some (True, g, el, w)),
     pg_client_error = (\<lambda>g el w. Some ((), (''error'', 0) # g, el, w)),
     pg_read = (\<lambda>_ b el w. Some (b, el, w)), pg_writ = (\<lambda>_ el w. Some (True, el, w)),
     pg_close = (\<lambda>_ el w. Some ((), el, w)), pg_accept = (\<lambda>_ _ _ el w. Some ((), el, w)),
     pg_conn = (\<lambda>_ _ el w. Some (True, el, w)), pg_job = (\<lambda>_ _ el w. Some ((), el, w)),
     pg_timer = (\<lambda>_ el w. Some ((), el, w))\<rparr>"

definition demo_acceptor :: acceptor where
  "demo_acceptor = \<lparr>ac_listener = \<lparr>tl_sys = 6, tl_selector_id = sid_new\<rparr>, ac_is_listening = True,
     ac_job = UserJob 3\<rparr>"

definition demo_world :: demo_world where
  "demo_world = \<lparr>w_next = 4, w_closures = [2 \<mapsto> Accept_Event 0, 3 \<mapsto> Accept_Stream 1],
     w_conns = Map.empty, w_sessions = Map.empty, w_acceptors = [0 \<mapsto> mutex_new demo_acceptor],
     w_servers = [1 \<mapsto> mutex_new \<lparr>sv_acceptor = 0, sv_session_alloc = True\<rparr>],
     w_connectors = Map.empty, w_clients = Map.empty, w_socket_token = 0, w_user = ()\<rparr>"

lemma demo_listen_ok:
  "accepts demo_listen fd demo_backlog (\<lambda>_. 0)" "unblocks demo_listen f" "ctl_adds demo_listen fds f"
  "\<not> accept_failed demo_listen fd k"
  by (auto simp: accepts_def unblocks_def ctl_adds_def accept_failed_def demo_listen_def demo_net_def
      set_nonblock_def cvt_def split: nat.splits)

lemma demo_prog_ok:
  "sessions_quiet demo_prog (None, False, []) (\<lambda>c (_, a, bs). (Some c, a, bs)) (\<lambda>(c, _, bs). (c, True, bs))"
  "session_reads (list_bufs r) demo_prog (\<lambda>bs (c, a, l). (c, a, l @ bs))"
  by (auto simp: sessions_quiet_def session_reads_def demo_prog_def list_bufs_def)

lemma demo_world_fresh: "world_fresh demo_world"
  by (auto simp: world_fresh_def demo_world_def)

lemma server_serves_waiting_witness:
  "\<exists>el' w'. accept_event (list_bufs 3) demo_listen demo_prog 0 (demo_el 2) demo_world = Some ((), el', w') \<and>
    serves (list_bufs 3) el' w' 21 4 5 \<and> serves (list_bufs 3) el' w' 20 10 11 \<and>
    w_sessions w' 11 = Some (mutex_new (Some 10, True, []))"
proof -
  have w: "w_acceptors demo_world 0 = Some (mutex_new demo_acceptor)" "ac_job demo_acceptor = UserJob 3"
    "w_closures demo_world 3 = Some (Accept_Stream 1)"
    "w_servers demo_world 1 = Some (mutex_new \<lparr>sv_acceptor = 0, sv_session_alloc = True\<rparr>)"
    "sv_session_alloc \<lparr>sv_acceptor = 0, sv_session_alloc = True\<rparr>" "w_next demo_world = 4"
    by (simp_all add: demo_world_def demo_acceptor_def)
  have b: "demo_backlog (el_kernel (demo_el 2)) = [(21, V4 0), (20, V4 0)]" by (simp add: numeral_2_eq_2)
  have d: "distinct (map fst (demo_backlog (el_kernel (demo_el 2))))"
    "unat (w_socket_token demo_world) + length (demo_backlog (el_kernel (demo_el 2))) < 2 ^ 64"
    unfolding b by (simp_all add: demo_world_def)
  show ?thesis
    using server_serves_waiting [where bo = "list_bufs 3" and el = "demo_el 2", OF list_bufs_laws
        demo_prog_ok(1) demo_world_fresh w(1-5) demo_listen_ok(1-3) d]
  proof (elim exE conjE, goal_cases)
    case (1 el' w' don rest)
    have don: "don = [(21, V4 0), (20, V4 0)]" using 1(2,4) demo_listen_ok(4) b by simp
    show ?thesis using 1(1) 1(6) [rule_format, of 0] 1(6) [rule_format, of 1] unfolding don w(6) by simp
  qed
qed

lemma conn_event_delivers_witness:
  "\<exists>el w el' w'. conn_event (list_bufs 3) False demo_net demo_prog 4 3
      (el :: (nat, (usize \<rightharpoonup> string entry) \<times> nat) event_loop) w = Some ((), el', w') \<and>
    w_sessions w 5 = Some (mutex_new (None, True, [])) \<and>
    w_sessions w' 5 = Some (mutex_new (None, True, replicate 9 1))"
proof -
  let ?h = "(None, True, []) :: demo_session"
  let ?el = "el_watch 5 (served_entry 1 9) 9 (demo_el 0)"
  let ?w = "server_step (list_bufs 3) 1 ?h 5 demo_world"
  have n: "w_next demo_world = 4" by (simp add: demo_world_def)
  have s: "serves (list_bufs 3) ?el ?w 5 4 5" "w_sessions ?w 5 = Some (mutex_new ?h)"
    using server_step_serves [where bo = "list_bufs 3" and fd = 5 and token = 1 and w = demo_world and
        k = 9 and el = "demo_el 0" and sel = 1 and h = ?h, OF list_bufs_laws]
      server_step_reads(2) [of "list_bufs 3" 1 ?h 5 demo_world] by (simp_all add: n)
  have ev: "ready_is_readable (ready_from_usize 3)" "\<not> ready_is_error (ready_from_usize 3)"
    "\<not> ready_is_hup (ready_from_usize 3)" by code_simp+
  obtain k' w' chunks where r: "conn_event (list_bufs 3) False demo_net demo_prog 4 3 ?el ?w =
      Some ((), el_set_kernel k' ?el, w')"
    "concat chunks = replicate (el_kernel ?el) 1"
    "w_sessions w' = (w_sessions ?w)(5 \<mapsto> mutex_new (fold (\<lambda>bs (c, a, l). (c, a, l @ bs)) chunks ?h))"
    using conn_event_delivers [where bo = "list_bufs 3" and dbg = False, OF list_bufs_laws s demo_prog_ok(2) demo_net_reads refl ev]
    by (elim exE conjE)
  have "fold (\<lambda>bs (c, a, l). (c, a, l @ bs)) xs (c, a, l) = (c, a, l @ concat xs)"
    for xs and c :: "ptr option" and a :: bool and l :: "byte list"
    by (induction xs arbitrary: l) simp_all
  then have "w_sessions w' 5 = Some (mutex_new (None, True, replicate 9 1))" using r(2,3) by simp
  with r(1) s(2) show ?thesis by blast
qed

end
