(* ===== verification/Tcp_Client_Spec.thy ===== *)
theory Tcp_Client_Spec
  imports Tcp_Client Tcp_Server_Spec
begin

text \<open>What becomes of a stream that a client connects.\<close>

text \<open>A handler whose methods on connecting only change the handler.\<close>

definition client_quiet ::
  "('a, 'b, 'h, 'g, 'k, 's, 'w) program \<Rightarrow> (ptr \<Rightarrow> 'g \<Rightarrow> 'g) \<Rightarrow> (ptr \<Rightarrow> 'g \<Rightarrow> 'g) \<Rightarrow> ('g \<Rightarrow> 'g) \<Rightarrow> bool" where
  "client_quiet pg att con err \<longleftrightarrow>
     (\<forall>conn g el w. pg_client_attach pg conn g el w = Some ((), att conn g, el, w)) \<and>
     (\<forall>conn g el w. pg_client_connect pg conn g el w = Some ((), con conn g, el, w)) \<and>
     (\<forall>g el w. pg_client_error pg g el w = Some ((), err g, el, w))"

text \<open>Deregistering and registering \<open>fd\<close> again works.\<close>

definition ctl_moves :: "('a, 'k) net_ops \<Rightarrow> i32 \<Rightarrow> bool" where
  "ctl_moves no fd \<longleftrightarrow> (\<forall>ep op info k. op \<in> {EPOLL_CTL_ADD, EPOLL_CTL_DEL} \<longrightarrow>
     (\<exists>ret k' x. no_ctl no ep op fd info k = (ret, k') \<and> cvt ret = Inr x))"

text \<open>The loop without the entry of a descriptor.\<close>

definition el_forget :: "i32 \<Rightarrow> 'k \<Rightarrow> ('k, 's) event_loop \<Rightarrow> ('k, 's) event_loop" where
  "el_forget fd k el = (let po = el_poll el; sel = po_selector po in
     el\<lparr>el_poll := po_update (sel\<lparr>sel_events_map := (sel_events_map sel)(fd := None)\<rparr>) k po\<rparr>)"

lemma el_forget_reads [simp]:
  "el_kernel (el_forget fd k el) = k"
  "sel_events_map (po_selector (el_poll (el_forget fd k el))) =
    (sel_events_map (po_selector (el_poll el)))(fd := None)"
  "sel_epfd (po_selector (el_poll (el_forget fd k el))) = sel_epfd (po_selector (el_poll el))"
  "sel_id (po_selector (el_poll (el_forget fd k el))) = sel_id (po_selector (el_poll el))"
  by (simp_all add: el_forget_def el_kernel_def po_update_def po_kernel_def Let_def)

lemma close_stream_run:
  assumes "ctl_moves no (ts_sys (tc_stream c))"
    "sel_events_map (po_selector (el_poll el)) (ts_sys (tc_stream c)) \<noteq> None"
  obtains k' where "close_stream dbg no c el = Some (c, el_forget (ts_sys (tc_stream c)) k' el)"
proof -
  obtain ret k' x where k: "no_ctl no (sel_epfd (po_selector (el_poll el))) EPOLL_CTL_DEL (ts_sys (tc_stream c))
      \<lparr>epe_events = 0, epe_u64 = 0\<rparr> (el_kernel el) = (ret, k')" "cvt ret = Inr x"
    using assms(1) unfolding ctl_moves_def by blast
  have "close_stream dbg no c el = Some (c, el_forget (ts_sys (tc_stream c)) k' el)"
    using k assms(2)
    by (auto simp: close_stream_def el_deregister_def poll_deregister_def stream_deregister_def
        evfd_deregister_def selector_deregister_def poll_selector_def el_kernel_def el_forget_def Let_def)
  then show thesis by (rule that)
qed
section \<open>A stream that is connected\<close>

definition client_step ::
  "'b buf_ops \<Rightarrow> usize \<Rightarrow> ptr \<Rightarrow> 'g \<Rightarrow> i32 \<Rightarrow> ('b, 'h, 'g, 'u) world \<Rightarrow> ('b, 'h, 'g, 'u) world" where
  "client_step bo sel g x fd w = (let n = w_next w in w\<lparr>
     w_conns := (w_conns w)(n \<mapsto> mutex_new (served_conn bo fd sel (n + 1))),
     w_clients := (w_clients w)(g \<mapsto> mutex_new x),
     w_closures := (w_closures w)(n + 1 \<mapsto> Client_Recv g, n + 2 \<mapsto> Client_Written g,
       n + 3 \<mapsto> Client_Error g, n + 4 \<mapsto> Conn_Event n),
     w_next := n + 5\<rparr>)"

lemma client_stream_run:
  fixes w :: "('b, 'h, 'g, 'u) world"
  assumes quiet: "client_quiet pg att con err" and g: "w_clients w g = Some (mutex_new x)"
    and sid: "sid \<in> {0, sel_id (po_selector (el_poll el))}"
    and err: "no_take_error no fd (el_kernel el) = (r, k1)" "\<forall>e. r \<noteq> Inr (Some e)"
    and ctl: "ctl_moves no fd" and watched: "sel_events_map (po_selector (el_poll el)) fd \<noteq> None"
  obtains k2 k3 where "client_stream bo dbg no pg g \<lparr>ts_sys = fd, ts_selector_id = \<lparr>sid_id = sid\<rparr>\<rparr> el w =
    Some (True, el_watch fd (served_entry (scast fd) (w_next w + 4)) k3 (el_forget fd k2 (el_set_kernel k1 el)),
      client_step bo (sel_id (po_selector (el_poll el))) g (con (w_next w) (att (w_next w) x)) fd w)"
proof -
  let ?s = "\<lparr>ts_sys = fd, ts_selector_id = \<lparr>sid_id = sid\<rparr>\<rparr>" and ?el1 = "el_set_kernel k1 el"
  let ?c = "(conn_new bo ?s)\<lparr>tc_read_job := UserJob (Suc (w_next w)),
    tc_writ_job := UserJob (Suc (Suc (w_next w))), tc_close_job := UserJob (Suc (Suc (Suc (w_next w))))\<rparr>"
  have s: "tc_stream ?c = ?s" by (simp add: conn_new_def)
  obtain k2 where k2: "close_stream dbg no ?c ?el1 = Some (?c, el_forget fd k2 ?el1)"
    by (rule close_stream_run [where no = no and c = ?c and el = ?el1 and dbg = dbg, unfolded s])
      (use ctl watched in simp_all)
  let ?el2 = "el_forget fd k2 ?el1"
  obtain ret k3 y where k3: "no_ctl no (sel_epfd (po_selector (el_poll ?el2))) EPOLL_CTL_ADD fd
      \<lparr>epe_events = ioevent_to_epoll (ready_bitor ready_readable ready_writable) opt_edge,
       epe_u64 = scast fd\<rparr> (el_kernel ?el2) = (ret, k3)" "cvt ret = Inr y"
    using ctl unfolding ctl_moves_def by blast
  have reg: "conn_register no (w_next w) (Token (scast fd)) (UserJob (Suc (Suc (Suc (Suc (w_next w)))))) ?el2 w1 =
      Some ((), el_watch fd (served_entry (scast fd) (Suc (Suc (Suc (Suc (w_next w)))))) k3 ?el2,
        w1\<lparr>w_conns := (w_conns w1)(w_next w \<mapsto> mutex_new
          (served_conn bo fd (sel_id (po_selector (el_poll el))) (Suc (w_next w))))\<rparr>)"
    if "w_conns w1 (w_next w) = Some (mutex_new ?c)" for w1 :: "('b, 'h, 'g, 'u) world"
    using conn_register_run [where no = no and el = ?el2 and k' = k3, OF that _ _ k3(2)] sid k3(1)
    by (simp add: s served_conn_def) (simp add: conn_new_def)
  have chk: "client_check no pg g (conn_new bo ?s) el w1 = Some (True, conn_new bo ?s, ?el1, w1)" for w1
    using err unfolding client_check_def
    by (cases r; cases "projr r") (auto simp: conn_new_def stream_take_error_def)
  have en: "set_enabled True ?c = ?c" by (simp add: set_enabled_def conn_new_def)
  have "client_stream bo dbg no pg g ?s el w = Some (True,
      el_watch fd (served_entry (scast fd) (w_next w + 4)) k3 ?el2,
      client_step bo (sel_id (po_selector (el_poll el))) g (con (w_next w) (att (w_next w) x)) fd w)"
    using quiet g k2 s
    by (simp add: client_stream_def client_quiet_def conn_alloc_def lock_conn_def with_lock_def chk
       lock_client_def closure_new_def conn_modify_def set_read_job_def set_writ_job_def
       set_close_job_def Let_def reg en client_step_def mutex_new_def eval_nat_numeral)
  then show thesis by (rule that)
qed

text \<open>The closure of the connector locks it, and a writable stream is handed on.\<close>

definition connector_held :: "ptr \<Rightarrow> connector \<Rightarrow> ('b, 'h, 'g, 'u) world \<Rightarrow> ('b, 'h, 'g, 'u) world" where
  "connector_held p cn w = w\<lparr>w_connectors := (w_connectors w)(p \<mapsto> \<lparr>mx_held = True, mx_value = cn\<rparr>)\<rparr>"

definition connector_left :: "ptr \<Rightarrow> connector \<Rightarrow> ('b, 'h, 'g, 'u) world \<Rightarrow> ('b, 'h, 'g, 'u) world" where
  "connector_left p cn w = w\<lparr>w_connectors := (w_connectors w)(p \<mapsto> mutex_new (cn\<lparr>cn_stream := None\<rparr>))\<rparr>"

lemma connector_event_run:
  assumes cn: "w_connectors w p = Some (mutex_new cn)" "cn_stream cn = Some s" "cn_timer cn = None"
      "cn_job cn = UserJob n" "w_closures w n = Some (Client_Stream g)"
    and ready: "ready_is_writable (ready_from_usize event)"
    and run: "client_stream bo dbg no pg g s el (connector_held p cn w) = Some (r, el', w')"
      "w_connectors w' = w_connectors (connector_held p cn w)"
  shows "connector_event sl bo dbg no pg current p event el w = Some ((), el', connector_left p cn w')"
  using cn ready run
  by (simp add: connector_event_def lock_connector_def with_lock_def mutex_new_def connector_held_def
      connector_left_def connector_handle_event_def handle_on_connect_def run_conn_job_def world_stream_jobs_def)

lemma client_step_wired:
  assumes "buf_laws bo"
  shows "wired bo (el_watch fd (served_entry token (w_next w + 4)) k el) (client_step bo sel g x fd w) fd
    (w_next w) (Client_Recv g) (Client_Written g) (Client_Error g)"
proof -
  let ?w = "client_step bo sel g x fd w" and ?n = "w_next w"
  have w: "w_conns ?w ?n = Some (mutex_new (served_conn bo fd sel (?n + 1)))"
    "w_closures ?w (?n + 1) = Some (Client_Recv g)" "w_closures ?w (?n + 1 + 1) = Some (Client_Written g)"
    "w_closures ?w (?n + 1 + 2) = Some (Client_Error g)" "w_closures ?w (?n + 4) = Some (Conn_Event ?n)"
    by (simp_all add: client_step_def Let_def)
  have e: "sel_events_map (po_selector (el_poll (el_watch fd (served_entry token (?n + 4)) k el))) fd =
      Some (served_entry token (?n + 4))" by simp
  show ?thesis unfolding wired_def
    by (intro exI conjI) (rule w e served_conn_ok [OF assms] buf_lawsD(1) [OF assms])+
qed

text \<open>
  C16: The client's connect succeeds: the first writable event of the connector, when the
  socket has no error, gives the stream to a new connection whose three jobs call the
  user's handler, moves the descriptor's registration from the connector's closure to the
  connection's, and calls \<^verbatim>\<open>attach_connection\<close> and then \<^verbatim>\<open>on_connect\<close>, each once; the
  connector is left without a stream and all mutexes free. For a \<^verbatim>\<open>ClientHandler\<close> whose methods
  on connecting only change the handler.
\<close>

theorem client_connects:
  assumes "buf_laws bo" "client_quiet pg att con err" "w_connectors w p = Some (mutex_new cn)"
    "cn_stream cn = Some \<lparr>ts_sys = fd, ts_selector_id = \<lparr>sid_id = sid\<rparr>\<rparr>" "cn_timer cn = None"
    "cn_job cn = UserJob n" "w_closures w n = Some (Client_Stream g)" "w_clients w g = Some (mutex_new x)"
    "sid \<in> {0, sel_id (po_selector (el_poll el))}" "no_take_error no fd (el_kernel el) = (r, k1)"
    "\<forall>e. r \<noteq> Inr (Some e)" "ctl_moves no fd" "sel_events_map (po_selector (el_poll el)) fd \<noteq> None"
    "ready_is_writable (ready_from_usize event)"
  shows "\<exists>el' w'. connector_event sl bo dbg no pg current p event el w = Some ((), el', w') \<and>
    wired bo el' w' fd (w_next w) (Client_Recv g) (Client_Written g) (Client_Error g) \<and>
    w_clients w' = (w_clients w)(g \<mapsto> mutex_new (con (w_next w) (att (w_next w) x))) \<and>
    w_connectors w' = (w_connectors w)(p \<mapsto> mutex_new (cn\<lparr>cn_stream := None\<rparr>)) \<and>
    (\<forall>fd'. fd' \<noteq> fd \<longrightarrow> sel_events_map (po_selector (el_poll el')) fd' =
       sel_events_map (po_selector (el_poll el)) fd')"
proof -
  let ?held = "connector_held p cn w" and ?sel = "sel_id (po_selector (el_poll el))"
  let ?x = "con (w_next w) (att (w_next w) x)"
  let ?w' = "client_step bo ?sel g ?x fd ?held"
  have held: "w_clients ?held = w_clients w" "w_next ?held = w_next w"
    by (simp_all add: connector_held_def)
  then have g: "w_clients ?held g = Some (mutex_new x)" using assms(8) by simp
  obtain k2 k3 where run: "client_stream bo dbg no pg g \<lparr>ts_sys = fd, ts_selector_id = \<lparr>sid_id = sid\<rparr>\<rparr> el ?held =
      Some (True, el_watch fd (served_entry (scast fd) (w_next w + 4)) k3
        (el_forget fd k2 (el_set_kernel k1 el)), ?w')"
    using client_stream_run [where dbg = dbg and bo = bo, OF assms(2) g assms(9-13)] unfolding held by metis
  let ?el' = "el_watch fd (served_entry (scast fd) (w_next w + 4)) k3 (el_forget fd k2 (el_set_kernel k1 el))"
  have c: "w_connectors ?w' = w_connectors ?held" by (simp add: client_step_def Let_def)
  have "wired bo ?el' ?w' fd (w_next w) (Client_Recv g) (Client_Written g) (Client_Error g)"
    by (rule client_step_wired [where w = ?held, unfolded held, OF assms(1)])
  then have "wired bo ?el' (connector_left p cn ?w') fd (w_next w) (Client_Recv g) (Client_Written g) (Client_Error g)"
    by (simp add: wired_def connector_left_def)
  then show ?thesis
    using connector_event_run [OF assms(3-7) assms(14) run c]
    by (intro exI [of _ ?el'] exI [of _ "connector_left p cn ?w'"] conjI)
      (simp_all add: connector_left_def client_step_def connector_held_def Let_def)
qed

section \<open>A stream that is not connected\<close>

lemma client_stream_fails:
  assumes "client_quiet pg att con err" "w_clients w g = Some (mutex_new x)"
    "no_take_error no fd (el_kernel el) = (Inr (Some e), k1)" "ts_sys s = fd"
  shows "client_stream bo dbg no pg g s el w = Some (False, el_set_kernel (no_close no fd k1) el,
    w\<lparr>w_conns := (w_conns w)(w_next w \<mapsto> mutex_new (conn_new bo s)), w_next := Suc (w_next w),
      w_clients := (w_clients w)(g \<mapsto> mutex_new (err x))\<rparr>)"
  using assms
  by (simp add: client_stream_def client_quiet_def conn_alloc_def lock_conn_def with_lock_def client_check_def
      stream_take_error_def lock_client_def mutex_new_def conn_new_def el_kernel_def el_set_kernel_def
      po_update_def po_kernel_def)

text \<open>
  C17: The client's connect fails: when the socket has an error, \<^verbatim>\<open>on_error\<close> is called once, the
  descriptor is closed without being deregistered (its entry stays in the selector), no
  closure is made and nothing is registered; and any further writable event of the
  connector panics, for its stream has been taken and is not put back.
\<close>

theorem client_fails:
  assumes "client_quiet pg att con err" "w_connectors w p = Some (mutex_new cn)"
    "cn_stream cn = Some s" "cn_timer cn = None"
    "cn_job cn = UserJob n" "w_closures w n = Some (Client_Stream g)" "w_clients w g = Some (mutex_new x)"
    "no_take_error no (ts_sys s) (el_kernel el) = (Inr (Some e), k1)"
    "ready_is_writable (ready_from_usize event)"
  shows "\<exists>w'. connector_event sl bo dbg no pg current p event el w =
      Some ((), el_set_kernel (no_close no (ts_sys s) k1) el, w') \<and>
    w_clients w' = (w_clients w)(g \<mapsto> mutex_new (err x)) \<and> w_closures w' = w_closures w \<and>
    w_connectors w' = (w_connectors w)(p \<mapsto> mutex_new (cn\<lparr>cn_stream := None\<rparr>)) \<and>
    (\<forall>el2. connector_event sl bo dbg no pg current p event el2 w' = None)"
proof -
  let ?held = "connector_held p cn w"
  have g: "w_clients ?held g = Some (mutex_new x)" using assms(7) by (simp add: connector_held_def)
  note run = client_stream_fails [where bo = bo and dbg = dbg, OF assms(1) g assms(8) refl]
  let ?w' = "?held\<lparr>w_conns := (w_conns ?held)(w_next ?held \<mapsto> mutex_new (conn_new bo s)),
    w_next := Suc (w_next ?held), w_clients := (w_clients ?held)(g \<mapsto> mutex_new (err x))\<rparr>"
  let ?w2 = "connector_left p cn ?w'"
  have "connector_event sl bo dbg no pg current p event el w =
      Some ((), el_set_kernel (no_close no (ts_sys s) k1) el, ?w2)"
    by (rule connector_event_run [OF assms(2-6) assms(9) run]) simp
  moreover have "connector_event sl bo dbg no pg current p event el2 ?w2 = None" for el2
    using assms(4,9)
    by (simp add: connector_event_def lock_connector_def with_lock_def connector_left_def mutex_new_def
        connector_handle_event_def handle_on_connect_def split: option.splits)
  ultimately show ?thesis
    by (intro exI [of _ ?w2]) (simp add: connector_left_def connector_held_def)
qed

section \<open>A client to run\<close>

text \<open>The connector 0 has its stream, on descriptor 5, and the handler is 1.\<close>

definition demo_connector :: connector where
  "demo_connector = \<lparr>cn_timer = None, cn_stream = Some \<lparr>ts_sys = 5, ts_selector_id = \<lparr>sid_id = 1\<rparr>\<rparr>,
     cn_job = UserJob 3\<rparr>"

definition demo_client_world :: demo_world where
  "demo_client_world = demo_world\<lparr>w_closures := [2 \<mapsto> Connector_Event 0, 3 \<mapsto> Client_Stream 1],
     w_connectors := [0 \<mapsto> mutex_new demo_connector], w_clients := [1 \<mapsto> mutex_new []]\<rparr>"

definition demo_client_el :: "(nat, (usize \<rightharpoonup> job entry) \<times> nat) event_loop" where
  "demo_client_el = el_watch 5 \<lparr>je_token_entry = \<lparr>te_ttype = SocketEvent, te_token = Token 9999999\<rparr>,
     je_job = UserJob 2, je_ready = ready_empty\<rparr> 0
     \<lparr>el_run = True, el_poll = el_poll (demo_el 0), el_timer = the (timer_new demo_slab 100 8 8)\<rparr>"

abbreviation demo_refused :: "(nat, nat) net_ops" where
  "demo_refused \<equiv> demo_net\<lparr>no_take_error := (\<lambda>_ k. (Inr (Some (Io_error Interrupted '''')), k))\<rparr>"

lemma demo_client_ok:
  "client_quiet demo_prog (\<lambda>c g. (''attach'', c) # g) (\<lambda>c g. (''connect'', c) # g) (\<lambda>g. (''error'', 0) # g)"
  "w_connectors demo_client_world 0 = Some (mutex_new demo_connector)"
  "cn_stream demo_connector = Some \<lparr>ts_sys = 5, ts_selector_id = \<lparr>sid_id = 1\<rparr>\<rparr>" "cn_timer demo_connector = None"
  "cn_job demo_connector = UserJob 3" "w_closures demo_client_world 3 = Some (Client_Stream 1)"
  "w_clients demo_client_world 1 = Some (mutex_new [])" "ctl_moves demo_net 5"
  "w_next demo_client_world = 4"
  "no_take_error demo_net fd k = (Inr None, k)"
  by (simp_all add: client_quiet_def demo_prog_def demo_client_world_def demo_world_def demo_connector_def
      ctl_moves_def demo_net_def cvt_def)

lemma demo_writable: "ready_is_writable (ready_from_usize 2)"
  by code_simp

lemma client_connects_witness:
  "\<exists>el' w'. connector_event demo_slab (list_bufs 3) True demo_net demo_prog None 0 2
      demo_client_el demo_client_world = Some ((), el', w') \<and>
    w_clients w' 1 = Some (mutex_new [(''connect'', 4), (''attach'', 4)]) \<and>
    wired (list_bufs 3) el' w' 5 4 (Client_Recv 1) (Client_Written 1) (Client_Error 1)"
proof -
  have s: "(1 :: usize) \<in> {0, sel_id (po_selector (el_poll demo_client_el))}"
    by (simp add: demo_client_el_def demo_el_def demo_selector_def)
  have w: "sel_events_map (po_selector (el_poll demo_client_el)) 5 \<noteq> None"
    by (simp add: demo_client_el_def)
  show ?thesis
    using client_connects [where bo = "list_bufs 3" and dbg = True and current = None and sl = demo_slab,
        OF list_bufs_laws demo_client_ok(1-7) s demo_client_ok(10) _ demo_client_ok(8) w demo_writable]
    unfolding demo_client_ok(9) by auto
qed

lemma client_fails_witness:
  "\<exists>el' w'. connector_event demo_slab (list_bufs 3) True demo_refused demo_prog None 0 2
      demo_client_el demo_client_world = Some ((), el', w') \<and>
    w_clients w' 1 = Some (mutex_new [(''error'', 0)]) \<and>
    connector_event demo_slab (list_bufs 3) True demo_refused demo_prog None 0 2 el' w' = None"
  using client_fails [where bo = "list_bufs 3" and dbg = True and current = None and sl = demo_slab and
      no = demo_refused and el = demo_client_el, OF demo_client_ok(1-7) _ demo_writable]
  by auto

end
