(* ===== verification/Tunnel_Spec.thy ===== *)
theory Tunnel_Spec
  imports Tunnel Tcp_Client_Spec
begin

text \<open>What the tunnel makes of the bytes it is given, and how its handlers can lock up the loop.\<close>

section \<open>Sending\<close>

text \<open>The jobs for writing and closing are all of the jobs that sending runs.\<close>

lemma conn_send_cong:
  assumes "cj_writ cj = cj_writ cj'" "cj_close cj = cj_close cj'"
  shows "conn_send bo dbg no cj = conn_send bo dbg no cj'"
proof -
  have j: "run_writ_job cj = run_writ_job cj'" "run_close_job cj = run_close_job cj'"
    by (simp_all add: fun_eq_iff run_writ_job_def run_close_job_def assms split: job.split)
  then have c: "handle_close dbg no cj = handle_close dbg no cj'"
    by (intro ext) (simp only: handle_close_def)
  with j have b: "write_buf bo dbg no cj = write_buf bo dbg no cj'"
    by (intro ext) (simp only: write_buf_def)
  then have "write_data bo dbg no cj = write_data bo dbg no cj'"
    by (intro ext) (simp only: write_data_def)
  then show ?thesis by (intro ext) (simp only: conn_send_def)
qed

text \<open>A connection with nothing left to send, which is open for writing.\<close>

definition conn_idle :: "'b buf_ops \<Rightarrow> 'b tcp_connection \<Rightarrow> bool" where
  "conn_idle bo c \<longleftrightarrow> conn_ok bo c \<and> tc_write_enabled c \<and> \<not> tc_closed c \<and>
     (\<exists>b. tc_waiting c = Some b \<and> bo_bytes bo b = [])"

lemma conn_send_idle:
  assumes laws: "buf_laws bo" and idle: "conn_idle bo c" and ne: "bo_bytes bo bytes \<noteq> []"
  obtains s wt buf where "bo_bytes bo s = []" "bo_bytes bo wt = []" "bo_bytes bo buf = bo_bytes bo bytes"
    "conn_send bo dbg no cj bytes c el w = (case write_buf bo dbg no cj buf
       (c\<lparr>tc_sending := Some s, tc_waiting := Some wt\<rparr>) el w of
         None \<Rightarrow> None | Some (c, el, w) \<Rightarrow> Some (Inr (length (bo_bytes bo bytes)), c, el, w))"
proof -
  obtain b where b: "conn_ok bo c" "tc_write_enabled c" "tc_waiting c = Some b" "bo_bytes bo b = []"
    using idle by (auto simp: conn_idle_def)
  let ?buf = "bo_put bo b bytes"
  have bs: "bo_bytes bo ?buf = bo_bytes bo bytes" using buf_lawsD(5) [OF laws] b(4) by simp
  have ok: "conn_ok bo (c\<lparr>tc_waiting := Some ?buf\<rparr>)" using b(1) by (simp add: conn_ok_def)
  obtain s where s: "bo_bytes bo s = []" "write_data bo dbg no cj (c\<lparr>tc_waiting := Some ?buf\<rparr>) el w =
      (if bo_bytes bo ?buf = [] then Some (c\<lparr>tc_waiting := Some ?buf, tc_sending := Some s\<rparr>, el, w)
       else write_buf bo dbg no cj (fst (bo_split bo ?buf))
         (c\<lparr>tc_waiting := Some ?buf, tc_sending := Some s, tc_waiting := Some (snd (bo_split bo ?buf))\<rparr>) el w)"
    by (rule write_data_waiting [OF laws ok, of ?buf]) simp_all
  show ?thesis
    by (rule that [of s "snd (bo_split bo ?buf)" "fst (bo_split bo ?buf)"])
      (use s b ne bs in \<open>simp_all add: buf_lawsD(3,4) [OF laws] conn_send_def bo_len_def
        split: option.split\<close>)
qed


text \<open>The write fails, and so does the job for closing.\<close>

lemma conn_send_stuck:
  assumes laws: "buf_laws bo" and idle: "conn_idle bo c" and ne: "bo_bytes bo bytes \<noteq> []"
    and wr: "no_write no (ts_sys (tc_stream c)) (bo_bytes bo bytes) (el_kernel el) = (Inl e, k')"
      "err_kind e \<noteq> WouldBlock"
    and job: "run_close_job cj (tc_close_job c) (el_set_kernel k' el) w = None"
  shows "conn_send bo dbg no cj bytes c el w = None"
proof -
  obtain s wt buf where s: "bo_bytes bo buf = bo_bytes bo bytes"
    "conn_send bo dbg no cj bytes c el w = (case write_buf bo dbg no cj buf
       (c\<lparr>tc_sending := Some s, tc_waiting := Some wt\<rparr>) el w of
         None \<Rightarrow> None | Some (c, el, w) \<Rightarrow> Some (Inr (length (bo_bytes bo bytes)), c, el, w))"
    by (rule conn_send_idle [OF laws idle ne])
  have "try_write (stream_write no (tc_stream c)) (bo_chunk bo buf) (el_kernel el) = (Inl e, k')"
    using wr by (simp add: try_write_def stream_write_def buf_lawsD(2) [OF laws] s(1) map_non_block_def)
  then have "write_buf bo dbg no cj buf (c\<lparr>tc_sending := Some s, tc_waiting := Some wt\<rparr>) el w = None"
    using job idle by (simp add: write_buf_def try_write_buf_def handle_close_def set_enabled_def conn_idle_def)
  then show ?thesis using s(2) by simp
qed

section \<open>The program\<close>

lemma tunnel_program_reads:
  "pg_session_recv (tunnel_program v cj) = tu_on_recv v"
  "pg_session_written (tunnel_program v cj) = tu_on_written"
  "pg_session_error (tunnel_program v cj) = tu_on_error v"
  "pg_client_recv (tunnel_program v cj) = ss_on_recv v cj"
  "pg_client_written (tunnel_program v cj) = ss_on_written"
  "pg_client_error (tunnel_program v cj) = ss_on_error v"
  "pg_writ (tunnel_program v cj) = (\<lambda>_ _ _. None)" "pg_close (tunnel_program v cj) = (\<lambda>_ _ _. None)"
  by (simp_all add: tunnel_program_def)

lemma tunnel_program_writes:
  "cj_writ (world_conn_jobs (tunnel_program v cj)) = cj_writ (world_conn_jobs (tunnel_program v cj'))"
  "cj_close (world_conn_jobs (tunnel_program v cj)) = cj_close (world_conn_jobs (tunnel_program v cj'))"
  unfolding world_conn_jobs_def conn_jobs.select_convs tunnel_program_reads by (rule refl)+

lemma tunnel_send_cong:
  "cj_writ cj = cj_writ cj' \<Longrightarrow> cj_close cj = cj_close cj' \<Longrightarrow> tunnel_send v cj = tunnel_send v cj'"
  by (intro ext) (simp only: tunnel_send_def conn_send_cong [of cj cj'])

lemma tunnel_program_cong:
  assumes "cj_writ cj = cj_writ cj'" "cj_close cj = cj_close cj'"
  shows "tunnel_program v cj = tunnel_program v cj'"
proof -
  note send = tunnel_send_cong [OF assms]
  have "ss_on_recv v cj = ss_on_recv v cj'" "run_tunnel_job v cj = run_tunnel_job v cj'"
    by (intro ext, simp only: ss_on_recv_def run_tunnel_job_def send)+
  then show ?thesis by (simp only: tunnel_program_def)
qed

text \<open>
  The program built in two steps, first without the jobs that sending runs and then with
  them, is the one whose handlers run its own jobs when they send.
\<close>

lemma tunnel_prog_own_jobs:
  "tunnel_prog v = tunnel_program v (world_conn_jobs (tunnel_prog v))"
  unfolding tunnel_prog_def by (rule tunnel_program_cong) (rule tunnel_program_writes)+

section \<open>From the server to the client\<close>

text \<open>
  The two ends of a tunnel: \<open>g\<close> is the session with the server, which knows the client's
  connection \<open>cs\<close>; that has nothing left to send, and its jobs call the session \<open>s\<close>, which
  knows the tunnel \<open>t\<close>, and this \<open>g\<close>.
\<close>

definition joined ::
  "'b buf_ops \<Rightarrow> 'b tunnel_world \<Rightarrow> i32 \<Rightarrow> ptr \<Rightarrow> ptr \<Rightarrow> ptr \<Rightarrow> ptr \<Rightarrow> bool" where
  "joined bo w fd cs s t g \<longleftrightarrow> (\<exists>ses h tn c jw jc.
     w_clients w g = Some (mutex_new ses) \<and> ss_client_conn ses = Some cs \<and>
     w_conns w cs = Some (mutex_new c) \<and> ts_sys (tc_stream c) = fd \<and> conn_idle bo c \<and>
     tc_writ_job c = UserJob jw \<and> w_closures w jw = Some (Session_Written s) \<and>
     tc_close_job c = UserJob jc \<and> w_closures w jc = Some (Session_Error s) \<and>
     w_sessions w s = Some (mutex_new h) \<and> tu_tunnel h = Some t \<and>
     tu_tunnels (w_user w) t = Some (mutex_new tn) \<and> tn_server_session tn = Some g)"

text \<open>The kernel takes all the bytes it is given for \<open>fd\<close>, and does nothing else.\<close>

definition takes_all ::
  "('a, 'k) net_ops \<Rightarrow> i32 \<Rightarrow> ('k \<Rightarrow> byte list) \<Rightarrow> ('k \<Rightarrow> byte list) \<Rightarrow> ('k \<Rightarrow> read_end) \<Rightarrow> bool" where
  "takes_all no fd out inp en \<longleftrightarrow> (\<forall>bs k. \<exists>k'. no_write no fd bs k = (Inr (length bs), k') \<and>
     out k' = out k @ bs \<and> inp k' = inp k \<and> en k' = en k)"





text \<open>The closures of the server's connection call the session \<open>g\<close>.\<close>

abbreviation faces_server ::
  "'b buf_ops \<Rightarrow> ('k, 's) event_loop \<Rightarrow> 'b tunnel_world \<Rightarrow> i32 \<Rightarrow> ptr \<Rightarrow> ptr \<Rightarrow> bool" where
  "faces_server bo el w fd ss g \<equiv> wired bo el w fd ss (Client_Recv g) (Client_Written g) (Client_Error g)"


text \<open>The session with the server is locked while the client's session asks for it.\<close>

lemma recv_stuck:
  assumes laws: "buf_laws (tv_bufs v)" and j: "joined (tv_bufs v) w fd cs s t g"
    and alive: "\<And>w. tv_conn_alive v w cs" "\<And>w. tv_session_alive v w g"
    and kernel: "\<forall>bs k. \<exists>e k'. no_write (tv_net v) fd bs k = (Inl e, k') \<and> err_kind e \<noteq> WouldBlock"
    and ne: "bo_bytes (tv_bufs v) b \<noteq> []"
  shows "lock_client g (pg_client_recv (tunnel_prog v) b) el w = None"
proof -
  let ?bo = "tv_bufs v" and ?no = "tv_net v"
  obtain ses h tn c jc where d: "w_clients w g = Some (mutex_new ses)" "ss_client_conn ses = Some cs"
    "w_conns w cs = Some (mutex_new c)" "ts_sys (tc_stream c) = fd" "conn_idle ?bo c"
    "tc_close_job c = UserJob jc" "w_closures w jc = Some (Session_Error s)"
    "w_sessions w s = Some (mutex_new h)" "tu_tunnel h = Some t"
    "tu_tunnels (w_user w) t = Some (mutex_new tn)" "tn_server_session tn = Some g"
    using j unfolding joined_def by blast
  define cj where "cj = world_conn_jobs (tunnel_program v no_conn_jobs)"
  let ?wg = "w\<lparr>w_clients := (w_clients w)(g \<mapsto> \<lparr>mx_held = True, mx_value = ses\<rparr>)\<rparr>"
  let ?wc = "?wg\<lparr>w_conns := (w_conns w)(cs \<mapsto> \<lparr>mx_held = True, mx_value = c\<rparr>)\<rparr>"
  obtain e k' where k': "no_write ?no (ts_sys (tc_stream c)) (bo_bytes ?bo b) (el_kernel el) = (Inl e, k')"
    "err_kind e \<noteq> WouldBlock"
    using kernel d(4) by blast
  have "run_close_job cj (tc_close_job c) el1 ?wc = None" for el1
    using d(6-11) alive(2)
    by (simp add: run_close_job_def cj_def world_conn_jobs_def tunnel_program_reads lock_session_def with_lock_def
        mutex_new_def tu_on_error_def tu_free_connection_def tu_get_server_conn_def lock_tunnel_def
        tn_get_server_conn_def tn_get_server_session_def upgrade_def lock_client_def)
  from conn_send_stuck [OF laws d(5) ne k' this]
  have "conn_send ?bo (tv_debug v) ?no cj b c el ?wc = None" .
  then show ?thesis using d(1-3) alive(1) ne
    by (simp add: tunnel_prog_def tunnel_program_reads ss_on_recv_def lock_client_def lock_conn_def with_lock_def
        mutex_new_def ss_get_client_conn_def upgrade_def tunnel_send_def bo_len_def flip: cj_def)
qed

section \<open>A tunnel to run\<close>

text \<open>
  The kernel is what has arrived from the server and what has been written to the client;
  with \<open>gone\<close> the client is not there any more. Its connection is at address 5 with the
  descriptor 8, the server's at address 4 with the descriptor 5.
\<close>

definition tunnel_net :: "bool \<Rightarrow> (nat, byte list \<times> byte list) net_ops" where
  "tunnel_net gone = \<lparr>no_new_v4 = (\<lambda>k. (Inr 5, k)), no_new_v6 = (\<lambda>k. (Inr 6, k)),
     no_reuse_address = (\<lambda>_ _ k. (Inr (), k)), no_reuse_port = (\<lambda>_ _ k. (Inr (), k)),
     no_bind = (\<lambda>_ _ k. (Inr (), k)), no_listen = (\<lambda>_ _ k. (Inr (), k)),
     no_connect = (\<lambda>_ _ k. (Inl (Io_error EINPROGRESS ''''), k)),
     no_accept = (\<lambda>_ k. (Inl (Io_error WouldBlock ''''), k)),
     no_read = (\<lambda>_ n (i, out). if i = [] then (Inl (Io_error WouldBlock ''''), (i, out))
       else (Inr (take n i), (drop n i, out))),
     no_write = (\<lambda>_ bs (i, out). if gone then (Inl (Io_error (OsKind 32) ''''), (i, out))
       else (Inr (length bs), (i, out @ bs))),
     no_shutdown = (\<lambda>_ _ k. (Inr (), k)), no_take_error = (\<lambda>_ k. (Inr None, k)),
     no_fcntl = (\<lambda>_ _ _ k. ((0, no_error), k)), no_close = (\<lambda>_ k. k),
     no_ctl = (\<lambda>_ _ _ _ k. ((0, no_error), k))\<rparr>"

definition tunnel_el :: "byte list \<Rightarrow> (byte list \<times> byte list, (usize \<rightharpoonup> job entry) \<times> nat) event_loop" where
  "tunnel_el bs = \<lparr>el_run = True, el_poll = \<lparr>po_selector = demo_selector\<lparr>sel_events_map := [5 \<mapsto> served_entry 1 9]\<rparr>,
     po_queue = \<lparr>rq_addr = 0, rq_heap = Map.empty, rq_head = 1, rq_tail = 1, rq_end = 1, rq_sleep = 2,
       rq_closed = 3, rq_arc = (\<lambda>_. 1), rq_pipe = (bs, [])\<rparr>\<rparr>,
     el_timer = the (timer_new demo_slab 100 8 8)\<rparr>"

definition tunnel_env_demo ::
  "bool \<Rightarrow> (nat, byte list, byte list \<times> byte list, (usize \<rightharpoonup> job entry) \<times> nat) tunnel_env" where
  "tunnel_env_demo gone = \<lparr>tv_slab = demo_slab, tv_bufs = list_bufs 3, tv_debug = False,
     tv_net = tunnel_net gone, tv_parse = (\<lambda>_. Some (V4 0)), tv_elapsed = duration_zero,
     tv_write = (\<lambda>k. (Inr 1, k)), tv_alloc = (\<lambda>_. 30), tv_current = Some 0,
     tv_conn_alive = (\<lambda>_ _. True), tv_session_alive = (\<lambda>_ _. True)\<rparr>"

definition tunnel_demo :: "byte list tunnel_world" where
  "tunnel_demo = \<lparr>w_next = 20, w_closures = [1 \<mapsto> Session_Recv 7, 2 \<mapsto> Session_Written 7, 3 \<mapsto> Session_Error 7,
       9 \<mapsto> Conn_Event 4, 11 \<mapsto> Client_Recv 6, 12 \<mapsto> Client_Written 6, 13 \<mapsto> Client_Error 6],
     w_conns = [4 \<mapsto> mutex_new (served_conn (list_bufs 3) 5 1 11), 5 \<mapsto> mutex_new (served_conn (list_bufs 3) 8 1 1)],
     w_sessions = [7 \<mapsto> mutex_new \<lparr>tu_client_conn = Some 5, tu_tunnel = Some 8\<rparr>],
     w_acceptors = Map.empty, w_servers = Map.empty, w_connectors = Map.empty,
     w_clients = [6 \<mapsto> mutex_new \<lparr>ss_client_conn = Some 5, ss_server_conn = Some 4\<rparr>],
     w_socket_token = 0,
     w_user = \<lparr>tu_tunnels = [8 \<mapsto> mutex_new \<lparr>tn_addr = ''127.0.0.1:80'', tn_client = \<lparr>cl_connector = 0\<rparr>,
       tn_server_session = Some 6, tn_client_conn = Some 5\<rparr>], tu_jobs = Map.empty\<rparr>\<rparr>"

lemma tunnel_env_demo_reads [simp]:
  "tv_bufs (tunnel_env_demo gone) = list_bufs 3" "tv_net (tunnel_env_demo gone) = tunnel_net gone"
  "tv_conn_alive (tunnel_env_demo gone) w p" "tv_session_alive (tunnel_env_demo gone) w p"
  "tv_debug (tunnel_env_demo gone) = False"
  by (simp_all add: tunnel_env_demo_def)

lemma tunnel_demo_joined: "joined (list_bufs 3) tunnel_demo 8 5 7 8 6"
proof -
  have idle: "conn_idle (list_bufs 3) (served_conn (list_bufs 3) 8 1 1)"
    by (simp add: conn_idle_def served_conn_ok [OF list_bufs_laws])
      (simp add: served_conn_def conn_new_def list_bufs_def)
  note c = served_conn_ok [OF list_bufs_laws, of 3 8 1 1]
  show ?thesis unfolding joined_def
    by (intro exI [of _ "\<lparr>ss_client_conn = Some 5, ss_server_conn = Some 4\<rparr>"]
        exI [of _ "\<lparr>tu_client_conn = Some 5, tu_tunnel = Some 8\<rparr>"]
        exI [of _ "\<lparr>tn_addr = ''127.0.0.1:80'', tn_client = \<lparr>cl_connector = 0\<rparr>,
          tn_server_session = Some 6, tn_client_conn = Some 5\<rparr>"]
        exI [of _ "served_conn (list_bufs 3) 8 1 1"] exI [of _ 2] exI [of _ 3])
      (simp add: tunnel_demo_def idle [simplified] c [simplified])
qed

lemma tunnel_demo_faces: "faces_server (list_bufs 3) (tunnel_el bs) tunnel_demo 5 4 6"
proof -
  note c = served_conn_ok [OF list_bufs_laws, of 3 5 1 11]
  show ?thesis unfolding wired_def
    by (intro exI [of _ "served_conn (list_bufs 3) 5 1 11"] exI [of _ "[]"] exI [of _ 11] exI [of _ 12]
        exI [of _ 13] exI [of _ 9] exI [of _ 1])
      (simp add: tunnel_demo_def tunnel_el_def c [simplified], simp add: list_bufs_def)
qed

lemma tunnel_net_ok:
  "takes_all (tunnel_net False) fd snd fst (\<lambda>_. Blocks)" "reads (tunnel_net gone) fd fst (\<lambda>_. Blocks)"
  "snd (snd (no_read (tunnel_net gone) fd n k)) = snd k"
  "no_write (tunnel_net True) fd bs k = (Inl (Io_error (OsKind 32) ''''), k)"
  by (auto simp: takes_all_def reads_def tunnel_net_def split: if_splits prod.splits)

lemma tunnel_el_kernel [simp]: "el_kernel (tunnel_el bs) = (bs, [])"
  by (simp add: tunnel_el_def el_kernel_def po_kernel_def)

section \<open>Properties\<close>



text \<open>
  C19: The tunnel can lock up its loop: if bytes arrive from the server and the client's socket
  does not take them but fails (the client has gone), then the event of the server's
  connection never returns. Sending runs \<^verbatim>\<open>on_error\<close> of the client's session from inside
  \<^verbatim>\<open>ServerSession::on_recv\<close>, and that asks the tunnel for the server's connection, for which
  it locks the \<^verbatim>\<open>ServerSession\<close> whose \<^verbatim>\<open>on_recv\<close> is running.
\<close>

theorem tunnel_deadlocks:
  assumes "buf_laws (tv_bufs v)" "faces_server (tv_bufs v) el w fd ss g" "joined (tv_bufs v) w fd2 cs s t g"
    "cs \<noteq> ss" "\<forall>w. tv_conn_alive v w cs" "\<forall>w. tv_session_alive v w g"
    "\<forall>bs k. \<exists>e k'. no_write (tv_net v) fd2 bs k = (Inl e, k') \<and> err_kind e \<noteq> WouldBlock"
    "reads (tv_net v) fd inp en" "inp (el_kernel el) \<noteq> []" "ready_is_readable (ready_from_usize event)"
  shows "conn_event (tv_bufs v) (tv_debug v) (tv_net v) (tunnel_prog v) ss event el w = None"
proof -
  let ?bo = "tv_bufs v" and ?cj = "world_conn_jobs (tunnel_prog v)"
  obtain c b jr where c: "w_conns w ss = Some (mutex_new c)" "ts_sys (tc_stream c) = fd"
    "tc_read_buffer c = Some b" "bo_bytes ?bo b = []"
    "tc_read_job c = UserJob jr" "w_closures w jr = Some (Client_Recv g)"
    using assms(2) unfolding wired_def by blast
  let ?w = "w\<lparr>w_conns := (w_conns w)(ss \<mapsto> \<lparr>mx_held = True, mx_value = c\<rparr>)\<rparr>"
  have "joined ?bo ?w fd2 cs s t g" using assms(3,4) by (simp add: joined_def)
  note stuck = recv_stuck [OF assms(1) this spec [OF assms(5)] spec [OF assms(6)] assms(7)]
  have "reads (tv_net v) (ts_sys (tc_stream c)) inp en" using assms(8) c(2) by simp
  from try_read_buf_reads [OF assms(1) this, of "el_kernel el" b] assms(9) c(4)
  obtain bs b' k' where r: "bs \<noteq> []" "bo_bytes ?bo b' = bs"
    "try_read_buf ?bo (stream_read (tv_net v) (tc_stream c)) b (el_kernel el) = Some (Inr (Some (length bs)), b', k')"
    by auto
  have "run_read_job ?cj (UserJob jr) b' (el_set_kernel k' el) ?w = None"
    using stuck [of b'] r(1,2) c(6) by (simp add: run_read_job_def world_conn_jobs_def)
  then have "handle_read ?bo (tv_debug v) (tv_net v) ?cj (c\<lparr>tc_read_triggered := True\<rparr>) el ?w = None"
    by (subst handle_read.simps) (simp add: c(3,5) r(3))
  then show ?thesis using c(1) assms(10)
    by (simp add: conn_event_def lock_conn_def with_lock_def mutex_new_def handle_event_def)
qed

lemma tunnel_deadlocks_witness:
  "conn_event (list_bufs 3) False (tunnel_net True) (tunnel_prog (tunnel_env_demo True)) 4 1
    (tunnel_el [1, 2, 3, 4, 5, 6]) tunnel_demo = None"
proof -
  have ev: "ready_is_readable (ready_from_usize 1)" by code_simp
  have ne: "(5 :: ptr) \<noteq> 4" by simp
  show ?thesis
    using tunnel_deadlocks [where v = "tunnel_env_demo True" and inp = fst and en = "\<lambda>_. Blocks",
        unfolded tunnel_env_demo_reads,
        OF list_bufs_laws tunnel_demo_faces [of "[1, 2, 3, 4, 5, 6]"] tunnel_demo_joined ne _ _ _ tunnel_net_ok(2) _ ev]
    by (simp add: tunnel_net_ok(4))
qed

end
