(* ===== verification/Spec2Isabelle.thy ===== *)
theory Spec2Isabelle
  imports Event_Loop_Spec Timer_Missed Tunnel_Spec
begin

text \<open>
  A model of \<^verbatim>\<open>my_mio\<close>, an event library in the style of mio with a layer of TCP servers and
  clients on top, and the properties that make it correct. Paths are relative to the crate,
  \<^verbatim>\<open>src/net/connection.rs\<close> is \<^verbatim>\<open>src/src/net/connection.rs\<close> of the repository.

  \<^bold>\<open>The program.\<close> A \<^verbatim>\<open>Poll\<close> has two sources of events: the kernel's epoll, behind a \<^verbatim>\<open>Selector\<close> that
  maps descriptors to closures (\<^verbatim>\<open>events_map\<close>), and a readiness queue, an intrusive list of
  nodes that other threads put there through a \<^verbatim>\<open>SetReadiness\<close>. A pipe, the awakener, wakes a poll that
  sleeps in epoll when the queue gets its first node. A \<^verbatim>\<open>Timer\<close> is a hashed wheel whose timeouts
  are slab entries; when registered, it has a thread that sets its readiness when
  the next timeout is due. An \<^verbatim>\<open>EventLoop\<close> has a poll and a timer of closures; one turn runs the
  closure of every event. On it, an \<^verbatim>\<open>Acceptor\<close> takes connections from a listening socket, a \<^verbatim>\<open>Connector\<close>
  makes one, and a \<^verbatim>\<open>TcpConnection\<close> reads and writes one; \<^verbatim>\<open>TcpServer\<close> and \<^verbatim>\<open>TcpClient\<close> tie them to the user's
  \<^verbatim>\<open>Handler\<close> and \<^verbatim>\<open>ClientHandler\<close> through closures over \<^verbatim>\<open>Arc<Mutex<T>>\<close>. \<^verbatim>\<open>examples/tunnel.rs\<close> is a program built from both.
\<close>

section \<open>The theories\<close>

text \<open>
  \<^item> \<^theory_text>\<open>Mio_Prelude\<close>: machine integers, \<^verbatim>\<open>io::Error\<close>, checked arithmetic and \<open>cas_loop\<close>, the
    compare-and-swap loop; the rewrite collections \<open>mio_defs\<close> and others.
  \<^item> \<^theory_text>\<open>Event_Imp\<close>: \<^verbatim>\<open>event_imp.rs\<close>, \<^verbatim>\<open>token.rs\<close>, \<^verbatim>\<open>sys/unix/ready.rs\<close>, \<^verbatim>\<open>convert\<close> of \<^verbatim>\<open>lib.rs\<close>. The types of flags are
    shown to be algebras of sets through the locale \<open>flag_set\<close>. \<^theory_text>\<open>Lazy_Cell\<close>: \<^verbatim>\<open>lazycell.rs\<close>.
  \<^item> \<^theory_text>\<open>Readiness_State\<close>, \<^theory_text>\<open>Readiness_Queue\<close>, \<^theory_text>\<open>Queue_Poll\<close>, \<^theory_text>\<open>Registration\<close>: the packed word of a node, the intrusive
    queue with its three markers, polling it, and \<^verbatim>\<open>Registration\<close>, \<^verbatim>\<open>SetReadiness\<close> with their
    reference counts, all of \<^verbatim>\<open>poll.rs\<close>. The word is a record of fields, the queue is a FIFO,
    polling takes a prefix of it, and the whole is safe in every state that calls can
    reach.
  \<^item> \<^theory_text>\<open>Epoll\<close>, \<^theory_text>\<open>Awakener\<close>: \<^verbatim>\<open>sys/unix/epoll.rs\<close>, \<^verbatim>\<open>sys/unix/awakener.rs\<close>, \<^verbatim>\<open>sys/unix/mod.rs\<close>. \<^theory_text>\<open>Poller\<close>: \<^verbatim>\<open>Poll\<close>, \<^verbatim>\<open>Events\<close>, \<^verbatim>\<open>SelectorId\<close>
    of \<^verbatim>\<open>poll.rs\<close> with \<^verbatim>\<open>eventedfd.rs\<close> and \<^verbatim>\<open>io.rs\<close>. \<^theory_text>\<open>Poll_Lock\<close>: the lock of \<^verbatim>\<open>poll1\<close> as a transition system
    of any number of threads, one transition for each access to the word, the mutex or the
    condition variable.
  \<^item> \<^theory_text>\<open>Timer_Wheel\<close> is the wheel of \<^verbatim>\<open>timer.rs\<close>. \<^theory_text>\<open>Timer_Links\<close>, \<^theory_text>\<open>Timer_Inv\<close>, \<^theory_text>\<open>Timer_Poll\<close> prove its invariant, on which
    \<^theory_text>\<open>Timer_Spec\<close> refines it to a map of pending timeouts; \<^theory_text>\<open>Timer_Missed\<close> has the
    case where it misses one. \<^theory_text>\<open>Wakeup_Thread\<close> is the thread of the timer and those who
    schedule, interleaved; \<^theory_text>\<open>Timer_Evented\<close> its \<^verbatim>\<open>Evented\<close> instance and builder.
  \<^item> \<^theory_text>\<open>Event_Loop\<close>: \<^verbatim>\<open>net/event_loop.rs\<close>; \<^theory_text>\<open>Event_Loop_Spec\<close>: a turn, the timer event, jobs of other threads,
    timeouts.
  \<^item> \<^theory_text>\<open>Net_Tcp\<close>: \<^verbatim>\<open>net/mod.rs\<close>, \<^verbatim>\<open>net/tcp.rs\<close>, \<^verbatim>\<open>sys/unix/tcp.rs\<close>. \<^theory_text>\<open>Connection\<close>, \<^theory_text>\<open>Connection_Spec\<close>: \<^verbatim>\<open>net/connection.rs\<close>.
    \<^theory_text>\<open>Acceptor\<close>, \<^theory_text>\<open>Acceptor_Spec\<close>: \<^verbatim>\<open>net/acceptor.rs\<close> and the methods of \<^verbatim>\<open>net/connector.rs\<close>.
  \<^item> \<^theory_text>\<open>Net_World\<close>: what the closures share, see below. \<^theory_text>\<open>Tcp_Server\<close>, \<^theory_text>\<open>Tcp_Server_Spec\<close> and \<^theory_text>\<open>Tcp_Client\<close>, \<^theory_text>\<open>Tcp_Client_Spec\<close>:
    \<^verbatim>\<open>net/tcp_server.rs\<close> and \<^verbatim>\<open>Connector::connect\<close>.
  \<^item> \<^theory_text>\<open>Tunnel\<close>, \<^theory_text>\<open>Tunnel_Spec\<close>: \<^verbatim>\<open>examples/tunnel.rs\<close>, whose two handlers fill in the user's part of the server
    and the client.
\<close>

section \<open>Conventions\<close>

text \<open>
  \<^item> A struct is a record with the prefix of its type, a method a definition that takes the
    state and returns it changed. An \<^verbatim>\<open>io::Result\<close> is a sum, \<open>Inl\<close> the error. \<open>None\<close> of an
    option around a result is a run that does not end normally: a panic (an \<^verbatim>\<open>unwrap\<close>, a failed
    assertion, an index out of range, an overflow that \<^verbatim>\<open>debug\<close> checks), the use of a freed
    node, waiting for a mutex that the thread holds itself, or a loop that never ends. So
    \<open>\<noteq> None\<close> in a property is safety and termination at once.
  \<^item> Loops that may not end are \<open>partial_function (option)\<close>; there is no fuel. Integers are
    words of 64, 32 and 8 bits; \<^verbatim>\<open>usize\<close> has 64.
  \<^item> An atomic retry loop takes the list of the values that other threads put in the
    way, \<open>cas_loop\<close>: it is finite, since a compare-and-swap fails only when another one succeeds. What
    other threads do to the queue while \<^verbatim>\<open>select\<close> blocks is an argument, too.
  \<^item> Closures are numbers. The library's own are listed in a table of the \<open>world\<close> with what they
    have captured (\<open>closure\<close>); the user's are run by the argument \<open>program\<close>. An \<^verbatim>\<open>Arc<Mutex<T>>\<close> is an
    address in a store of mutexes; \<open>with_lock\<close> is the span of a guard. The six stores
    are instances of the locale \<open>mutex_store\<close>.
  \<^item> What is not in the repository is an argument, with its documented behaviour as a named
    hypothesis: the slab (\<open>slab_laws\<close>), \<^verbatim>\<open>BytesMut\<close> (\<open>buf_laws\<close>), sockets and epoll (\<open>reads\<close>, \<open>accepts\<close>,
    \<open>takes_all\<close>, \<open>ctl_data\<close>, \<open>reports_one\<close> and others), the pipe and the clock. Each has a concrete
    instance (\<open>demo_slab\<close>, \<open>list_bufs\<close>, \<open>demo_net\<close>, ...), and the witnesses run the model on it.
\<close>

section \<open>Bounds\<close>

text \<open>
  \<^item> Readiness, interest and options of a registration fit the four bits of their fields: the
    code asserts it where a word is made (\<^verbatim>\<open>ReadinessState::new\<close>), and it is a property of its own what a setter does when they
    do not.
  \<^item> The reference count of a node stays below \<^verbatim>\<open>MAX_REFCOUNT\<close>, at which the code aborts.
  \<^item> The wheel has a power of two of slots, as \<^verbatim>\<open>Timer::new\<close> makes it; ticks stay below
    \<open>2 ^ 64 - 1\<close>, where the cursor would overflow.
\<close>

section \<open>What the model leaves out\<close>

text \<open>
  \<^item> Within one operation of the readiness queue other threads change only the words, not the
    list; the poll is taken to have got its lock, which \<^theory_text>\<open>Poll_Lock\<close> treats by itself.
  \<^item> Reference counts are exact for nodes, where the code keeps them by hand. Those of
    \<^verbatim>\<open>Arc\<close>, and the drop of a closure, are not modelled: an object that nothing refers to stays in its store,
    and the cycle of references that the closure of \<^verbatim>\<open>enqueue_job\<close> makes is not seen. The
    count of the queue itself is a number that frees nothing. Descriptors that a drop closes
    are closed explicitly.
  \<^item> A loop and its objects are used by the loop's thread; the connector's current loop is
    the one that the event came from. The mutexes of the jobs and of \<^verbatim>\<open>on_conn_job\<close> are not
    modelled, and no property rests on \<open>with_lock\<close> giving its mutex back, which it does by definition.
  \<^item> Not modelled: socket options that only call the kernel, \<^verbatim>\<open>EventLoopPool\<close> (threads), \<^verbatim>\<open>uio.rs\<close>,
    \<^verbatim>\<open>dlsym.rs\<close>, logging, and the echo programs of \<^verbatim>\<open>examples\<close>.
\<close>

section \<open>Where the code falls short\<close>

text \<open>
  Most properties say that the code does what it is meant to do. Some say what it does
  instead. Jobs are lost: by an update that does not queue its node, and by polling a
  level-triggered node. \<^verbatim>\<open>reregister\<close> hands the kernel the token where \<^verbatim>\<open>select\<close> expects the
  descriptor. The flag for urgent data contains the one for a hang-up, so that urgent data
  closes a connection, and spills out of the four bits of its field. A timeout at the
  tick of the cursor is missed for a turn of the wheel, and tick 0 ends the timer's thread.
  What a write does not take is lost. A refused connection stays registered. The tunnel
  locks up its loop when a client has gone.
\<close>

end
